(* ===== verification/Prelude.thy ===== *)
theory Prelude
  imports Main "HOL-Library.Word" "HOL-Library.List_Lexorder"
begin

text \<open>
  Shared vocabulary of the development: the machine types of the Go sources, byte
  strings with their lexicographic order, Go errors and panics as values, the
  fixed-width encodings of \<open>encoding/binary\<close>, and the generic lemmas every
  component uses.

  \<^item> \<open>uint8/16/32/64\<close> are words of that width. An \<open>int64\<close> (and a
    \<open>time.Duration\<close>, which is one) is a 64-bit word read through \<open>sint\<close>; its
    addition wraps as Go's does.
  \<^item> A \<open>[]byte\<close> is a list of 8-bit words; \<open>bytes.Compare\<close> is the
    lexicographic order of List-Lexorder. A Go string is a list of characters (bytes).
  \<^item> An error return is a value of a sum type, with \<open>Inl\<close> the error. A run-time
    panic is not an error value: it is the other constructor of type \<open>go\<close>.
\<close>

section \<open>Types\<close>

type_synonym byte = "8 word"
type_synonym bytes = "8 word list"
type_synonym u16 = "16 word"
type_synonym u32 = "32 word"
type_synonym u64 = "64 word"
type_synonym i64 = "64 word"

text \<open>
  Go errors: the sentinels the sources compare against, \<open>fmt.Errorf\<close> with its
  literal and its numeric arguments, \<open>fmt.Errorf("...%w")\<close> as a wrapper, and
  any other error a library call returns.
\<close>

datatype goerror =
    ErrNotFound
  | PebbleErrNotFound
  | ErrSnapshotStopped
  | IoEOF
  | IoErrUnexpectedEOF
  | ContextCanceled
  | ContextDeadlineExceeded
  | Errorf string "nat list"
  | Wrap string goerror
  | LibError string

datatype 'a go = Ret 'a | Panic string

primrec bind_go :: "'a go \<Rightarrow> ('a \<Rightarrow> 'b go) \<Rightarrow> 'b go" where
  "bind_go (Ret x) f = f x"
| "bind_go (Panic s) f = Panic s"

text \<open>\<open>errors.Is\<close>: the error itself or any error it wraps is the target.\<close>

fun errors_Is :: "goerror \<Rightarrow> goerror \<Rightarrow> bool" where
  "errors_Is (Wrap s e) t = (Wrap s e = t \<or> errors_Is e t)"
| "errors_Is e t = (e = t)"

section \<open>Fixed-width encodings (encoding/binary)\<close>

text \<open>
  \<open>be_put n v\<close> is what \<open>BigEndian.PutUint\<close> writes into \<open>n\<close> bytes: byte
  number \<open>i\<close> is \<open>byte(v >> (8*(n-1-i)))\<close>. \<open>be_get\<close> is \<open>BigEndian.Uint\<close>
  of exactly those bytes: shift and or. The little-endian forms reverse the bytes.
\<close>

primrec be_put :: "nat \<Rightarrow> 'a::len word \<Rightarrow> bytes" where
  "be_put 0 v = []"
| "be_put (Suc n) v = ucast (drop_bit (8 * n) v) # be_put n v"

definition be_get :: "bytes \<Rightarrow> 'a::len word" where
  "be_get bs = foldl (\<lambda>acc b. or (push_bit 8 acc) (ucast b)) 0 bs"

definition le_put :: "nat \<Rightarrow> 'a::len word \<Rightarrow> bytes" where
  "le_put n v = rev (be_put n v)"

definition le_get :: "bytes \<Rightarrow> 'a::len word" where
  "le_get bs = be_get (rev bs)"

text \<open>The value of a byte string read as a base-256 numeral.\<close>

primrec be_val :: "bytes \<Rightarrow> nat" where
  "be_val [] = 0"
| "be_val (b # bs) = unat b * 256 ^ length bs + be_val bs"

text \<open>\<open>xs[i:j]\<close> of a slice, for bounds the caller has checked.\<close>

definition slice_of :: "'a list \<Rightarrow> nat \<Rightarrow> nat \<Rightarrow> 'a list" where
  "slice_of xs i j = take (j - i) (drop i xs)"

text \<open>Bytes of a Go string and back.\<close>

definition bytes_of_string :: "string \<Rightarrow> bytes" where
  "bytes_of_string s = map (\<lambda>c. of_nat (of_char c)) s"

definition string_of_bytes :: "bytes \<Rightarrow> string" where
  "string_of_bytes bs = map (\<lambda>b. char_of (unat b)) bs"

section \<open>Generic lemmas\<close>

lemma length_be_put [simp]: "length (be_put n v) = n"
  by (induction n) auto

lemma length_le_put [simp]: "length (le_put n v) = n"
  by (simp add: le_put_def)

lemma be_val_bound: "be_val bs < 256 ^ length bs"
proof (induction bs)
  case Nil
  then show ?case by simp
next
  case (Cons b bs)
  have "unat b < 256" using unsigned_less[of b, where 'a = nat] by simp
  then have "(unat b + 1) * 256 ^ length bs \<le> 256 * 256 ^ length bs"
    by (intro mult_right_mono) auto
  then have "unat b * 256 ^ length bs + 256 ^ length bs \<le> 256 * 256 ^ length bs"
    by (simp add: algebra_simps)
  with Cons.IH show ?case
    by (simp only: be_val.simps list.size power_Suc add_0_right add_Suc_right)
qed

lemma unat_byte_of_drop:
  "unat (ucast (drop_bit (8 * n) (v :: 'a::len word)) :: byte) = unat v div 256 ^ n mod 256"
proof -
  have "unat (ucast (drop_bit (8 * n) v) :: byte) = take_bit 8 (drop_bit (8 * n) (unat v))"
    by (simp add: unsigned_ucast_eq unsigned_drop_bit_eq take_bit_nat_eq_self unsigned_less)
  also have "\<dots> = unat v div 2 ^ (8 * n) mod 256"
    by (simp add: drop_bit_eq_div take_bit_eq_mod)
  also have "(2 :: nat) ^ (8 * n) = 256 ^ n"
    by (simp add: power_mult)
  finally show ?thesis .
qed

lemma be_val_be_put: "be_val (be_put n v) = unat v mod 256 ^ n"
proof (induction n)
  case 0
  then show ?case by simp
next
  case (Suc n)
  have "unat v mod 256 ^ Suc n = 256 ^ n * (unat v div 256 ^ n mod 256) + unat v mod 256 ^ n"
    by (simp add: mod_mult2_eq mult.commute[of 256])
  with Suc show ?case by (simp add: unat_byte_of_drop)
qed

lemma be_val_append: "be_val (xs @ ys) = be_val xs * 256 ^ length ys + be_val ys"
  by (induction xs) (auto simp: algebra_simps power_add)

lemma be_get_snoc: "be_get (bs @ [b]) = or (push_bit 8 (be_get bs)) (ucast b)"
  by (simp add: be_get_def)

lemma unat_be_get:
  "8 * length bs \<le> LENGTH('a) \<Longrightarrow> unat (be_get bs :: 'a::len word) = be_val bs"
proof (induction bs rule: rev_induct)
  case Nil
  then show ?case by (simp add: be_get_def)
next
  case (snoc b bs)
  let ?w = "be_get bs :: 'a word"
  from snoc have IH: "unat ?w = be_val bs" by simp
  have "(2 :: nat) ^ 8 \<le> 2 ^ LENGTH('a)"
    using snoc.prems by (intro power_increasing) auto
  then have "unat b < 2 ^ LENGTH('a)"
    using unsigned_less[of b, where 'a = nat] by simp
  then have b: "unat (ucast b :: 'a word) = unat b"
    by (simp add: unsigned_ucast_eq take_bit_eq_mod)
  have "or (push_bit 8 ?w) (ucast b) = push_bit 8 ?w + ucast b"
    by (rule disjunctive_add[symmetric]) (auto simp: bit_simps dest: bit_imp_le_length)
  then have "unat (be_get (bs @ [b]) :: 'a word) = (unat ?w * 256 + unat b) mod 2 ^ LENGTH('a)"
    by (simp add: be_get_snoc unat_word_ariths b unsigned_push_bit_eq push_bit_eq_mult
        take_bit_eq_mod mod_simps mult.commute)
  moreover have "be_val (bs @ [b]) = unat ?w * 256 + unat b"
    by (simp add: be_val_append IH)
  moreover have "be_val (bs @ [b]) < 2 ^ LENGTH('a)"
  proof -
    have "(256 :: nat) ^ length (bs @ [b]) = 2 ^ (8 * length (bs @ [b]))"
      by (simp add: power_mult power_add)
    also have "\<dots> \<le> 2 ^ LENGTH('a)"
      using snoc.prems by (intro power_increasing) auto
    finally show ?thesis
      using be_val_bound[of "bs @ [b]"] by linarith
  qed
  ultimately show ?case by simp
qed

lemma be_val_less_iff:
  "length xs = length ys \<Longrightarrow> be_val xs < be_val ys \<longleftrightarrow> xs < ys"
proof (induction xs ys rule: list_induct2)
  case Nil
  then show ?case by simp
next
  case (Cons x xs y ys)
  let ?B = "(256 :: nat) ^ length ys"
  have bx: "be_val xs < ?B" and bz: "be_val ys < ?B"
    using be_val_bound[of xs] be_val_bound[of ys] Cons.hyps by simp_all
  have step: "unat a < unat b \<Longrightarrow> unat a * ?B + ?B \<le> unat b * ?B" for a b :: byte
    using mult_le_mono1[of "Suc (unat a)" "unat b" ?B] by simp
  consider "x < y" | "x = y" | "y < x" by (meson linorder_less_linear)
  then show ?case
  proof cases
    case 1
    then have "unat x * ?B + ?B \<le> unat y * ?B" by (intro step) (simp add: word_less_nat_alt)
    with 1 bx Cons.hyps show ?thesis by simp
  next
    case 2
    with Cons show ?thesis by simp
  next
    case 3
    then have "unat y * ?B + ?B \<le> unat x * ?B" by (intro step) (simp add: word_less_nat_alt)
    with 3 bz Cons.hyps show ?thesis by auto
  qed
qed

lemma be_val_inj: "length xs = length ys \<Longrightarrow> be_val xs = be_val ys \<longleftrightarrow> xs = ys"
  using be_val_less_iff[of xs ys] be_val_less_iff[of ys xs] by auto

lemma power_256_eq: "8 * n = LENGTH('a::len) \<Longrightarrow> (256 :: nat) ^ n = 2 ^ LENGTH('a)"
proof -
  assume n: "8 * n = LENGTH('a)"
  have "(256 :: nat) ^ n = 2 ^ (8 * n)" by (simp add: power_mult)
  then show ?thesis by (simp only: n)
qed

lemma be_val_be_put_full: "8 * n = LENGTH('a::len) \<Longrightarrow> be_val (be_put n (v :: 'a word)) = unat v"
  by (simp add: be_val_be_put power_256_eq[where 'a = 'a] unsigned_less)

lemma be_get_be_put [simp]:
  "8 * n = LENGTH('a::len) \<Longrightarrow> be_get (be_put n (v :: 'a word)) = v"
  by (simp add: word_unat_eq_iff unat_be_get be_val_be_put_full)

lemma be_put_be_get [simp]:
  assumes "8 * n = LENGTH('a::len)" and "length bs = n"
  shows "be_put n (be_get bs :: 'a word) = bs"
proof -
  have "be_val (be_put n (be_get bs :: 'a word)) = be_val bs"
    using assms by (simp add: be_val_be_put_full unat_be_get)
  with assms show ?thesis by (simp add: be_val_inj)
qed

lemma be_put_less_iff [simp]:
  "8 * n = LENGTH('a::len) \<Longrightarrow> be_put n v < be_put n w \<longleftrightarrow> v < (w :: 'a word)"
  by (simp flip: be_val_less_iff add: be_val_be_put_full word_less_nat_alt)

lemma be_put_eq_iff [simp]:
  "8 * n = LENGTH('a::len) \<Longrightarrow> be_put n v = be_put n w \<longleftrightarrow> v = (w :: 'a word)"
  by (metis be_get_be_put)

lemma le_get_le_put [simp]:
  "8 * n = LENGTH('a::len) \<Longrightarrow> le_get (le_put n (v :: 'a word)) = v"
  by (simp add: le_get_def le_put_def)

text \<open>Byte strings compare by their first difference.\<close>

lemma append_less_append_iff:
  fixes xs ys us vs :: "'a::linorder list"
  shows "length xs = length ys \<Longrightarrow> xs @ us < ys @ vs \<longleftrightarrow> xs < ys \<or> xs = ys \<and> us < vs"
  by (induction xs ys rule: list_induct2) auto

lemma append_le_append_iff:
  fixes xs ys us vs :: "'a::linorder list"
  shows "length xs = length ys \<Longrightarrow> xs @ us \<le> ys @ vs \<longleftrightarrow> xs < ys \<or> xs = ys \<and> us \<le> vs"
  by (induction xs ys rule: list_induct2) auto

lemma prefix_le_append [simp]: "(xs :: 'a::linorder list) \<le> xs @ ys"
  by (induction xs) auto

lemma slice_of_append [simp]:
  "i = length xs \<Longrightarrow> j = i + length ys \<Longrightarrow> slice_of (xs @ ys @ zs) i j = ys"
  by (simp add: slice_of_def)

lemma length_slice_of [simp]: "i \<le> j \<Longrightarrow> j \<le> length xs \<Longrightarrow> length (slice_of xs i j) = j - i"
  by (simp add: slice_of_def)

lemma string_of_bytes_of_string [simp]: "string_of_bytes (bytes_of_string s) = s"
proof -
  have "char_of (unat (of_nat (of_char c) :: byte)) = c" for c
  proof -
    have "of_char c < (256 :: nat)" by simp
    then have "unat (of_nat (of_char c) :: byte) = of_char c"
      by (simp add: unat_of_nat)
    then show ?thesis by simp
  qed
  then show ?thesis by (simp add: string_of_bytes_def bytes_of_string_def comp_def)
qed

lemma length_bytes_of_string [simp]: "length (bytes_of_string s) = length s"
  by (simp add: bytes_of_string_def)

lemma bind_go_eq_Ret: "bind_go m f = Ret y \<longleftrightarrow> (\<exists>x. m = Ret x \<and> f x = Ret y)"
  by (cases m) auto

section \<open>Command codecs\<close>

text \<open>
  What a Raft command type promises the state machine that applies it: values that fit the
  wire format survive encoding and decoding, and every command carries its type in the
  first byte. Both shards' commands are instances.
\<close>

locale command_codec =
  fixes marshal :: "'a \<Rightarrow> (goerror + bytes) go"
    and unmarshal :: "bytes \<Rightarrow> (goerror + 'a) go"
    and fits :: "'a \<Rightarrow> bool"
    and tag :: byte
  assumes roundtrip: "fits x \<Longrightarrow> \<exists>cmd. marshal x = Ret (Inr cmd) \<and> unmarshal cmd = Ret (Inr x)"
    and tagged: "unmarshal cmd = Ret (Inr x) \<Longrightarrow> cmd \<noteq> [] \<and> cmd ! 0 = tag"
begin

lemma decode_marshalled: "fits x \<Longrightarrow> marshal x = Ret (Inr cmd) \<Longrightarrow> unmarshal cmd = Ret (Inr x)"
  using roundtrip by fastforce

lemma marshalled_tag: "fits x \<Longrightarrow> marshal x = Ret (Inr cmd) \<Longrightarrow> cmd \<noteq> [] \<and> cmd ! 0 = tag"
  using decode_marshalled tagged by blast

lemma marshal_injective: "fits x \<Longrightarrow> fits y \<Longrightarrow> marshal x = marshal y \<Longrightarrow> x = y"
  using roundtrip[of x] roundtrip[of y] by auto

end

end
