(* ===== verification/Keys.thy ===== *)
theory Keys
  imports Prelude
begin

text \<open>
  The key schema of the message store, \<open>src/pkg/utils/keys.go\<close>: time buckets, the
  24-byte event key \<open>[topicHash][bucket][eventID]\<close> and the bounds of the range
  scans. \<open>TopicHash\<close> is \<open>xxhash.Sum64String\<close>, a third-party function: it
  is the parameter \<open>XXHash\<close> of the definitions that call it.

  The lemmas show that the key is a lossless, order-preserving encoding, which keys a
  range scan visits, and how bucket comparison relates to comparison of fire times.
\<close>

section \<open>Definitions\<close>

text \<open>\<open>time.Duration.Milliseconds\<close>: nanoseconds divided by a million, truncated.\<close>

definition duration_Milliseconds :: "i64 \<Rightarrow> i64" where
  "duration_Milliseconds d = word_of_int (sgn (sint d) * (\<bar>sint d\<bar> div 1000000))"

text \<open>
  \<open>CalculateBucket\<close>. The division is Go's unsigned division, which panics on a
  zero divisor: that happens for a bucket size of less than a millisecond.
\<close>

definition CalculateBucket :: "i64 \<Rightarrow> i64 \<Rightarrow> u64 go" where
  "CalculateBucket unixMs bucketSize =
    (if sint unixMs \<le> 0 then Ret 0
     else if sint bucketSize \<le> 0 then Ret unixMs
     else if duration_Milliseconds bucketSize = 0
       then Panic ''runtime error: integer divide by zero''
     else Ret (unixMs div duration_Milliseconds bucketSize))"

definition EventKey :: "u64 \<Rightarrow> u64 \<Rightarrow> u64 \<Rightarrow> bytes" where
  "EventKey bucket topicHash eventID = be_put 8 topicHash @ be_put 8 bucket @ be_put 8 eventID"

definition TopicLowerBound :: "u64 \<Rightarrow> bytes" where
  "TopicLowerBound topicHash = be_put 8 topicHash"

definition TopicUpperBound :: "u64 \<Rightarrow> bytes" where
  "TopicUpperBound topicHash = be_put 8 (topicHash + 1)"

definition DueUpperBound :: "u64 \<Rightarrow> u64 \<Rightarrow> bytes" where
  "DueUpperBound topicHash maxBucket = be_put 8 topicHash @ be_put 8 (maxBucket + 1)"

definition BucketUpperBound :: "u64 \<Rightarrow> bytes" where
  "BucketUpperBound maxBucket = be_put 8 (maxBucket + 1)"

definition ParseEventKey :: "bytes \<Rightarrow> goerror + u64 \<times> u64 \<times> u64" where
  "ParseEventKey key =
    (if length key \<noteq> 24 then Inl (Errorf ''key length must be 24. got %d'' [length key])
     else Inr (be_get (slice_of key 0 8), be_get (slice_of key 8 16), be_get (slice_of key 16 24)))"

text \<open>The smallest bucket size after configuration validation: zero, or a millisecond up.\<close>

definition valid_bucketSize :: "i64 \<Rightarrow> bool" where
  "valid_bucketSize d \<longleftrightarrow> sint d \<le> 0 \<or> 1000000 \<le> sint d"

text \<open>The width of a bucket in milliseconds; a size of zero keeps every millisecond.\<close>

definition bucket_ms :: "i64 \<Rightarrow> int" where
  "bucket_ms d = (if sint d \<le> 0 then 1 else sint d div 1000000)"

section \<open>The event key\<close>

lemma length_EventKey [simp]: "length (EventKey b h i) = 24"
  by (simp add: EventKey_def)

lemma ParseEventKey_EventKey [simp]: "ParseEventKey (EventKey b h i) = Inr (h, b, i)"
  by (simp add: ParseEventKey_def EventKey_def slice_of_def)

lemma EventKey_ParseEventKey: "ParseEventKey k = Inr (h, b, i) \<Longrightarrow> EventKey b h i = k"
proof -
  assume P: "ParseEventKey k = Inr (h, b, i)"
  then have L: "length k = 24"
    by (auto simp: ParseEventKey_def split: if_splits)
  have "k = slice_of k 0 8 @ slice_of k 8 16 @ slice_of k 16 24"
    using L by (simp add: slice_of_def) (metis add.commute append_take_drop_id drop_drop numeral_Bit0 take_all_iff)
  with P L show ?thesis
    by (auto simp: ParseEventKey_def EventKey_def)
qed

lemma EventKey_inject [simp]: "EventKey b h i = EventKey b' h' i' \<longleftrightarrow> b = b' \<and> h = h' \<and> i = i'"
  by (auto simp: EventKey_def)

lemma event_key_exists: "length k = 24 \<Longrightarrow> \<exists>b h i. k = EventKey b h i"
  by (metis EventKey_ParseEventKey ParseEventKey_def)

lemma EventKey_less_iff:
  "EventKey b h i < EventKey b' h' i' \<longleftrightarrow>
     h < h' \<or> h = h' \<and> (b < b' \<or> b = b' \<and> i < i')"
  by (simp add: EventKey_def append_less_append_iff)

section \<open>Scan ranges\<close>

lemma topic_lower_le_EventKey: "TopicLowerBound h \<le> EventKey b h' i \<longleftrightarrow> h \<le> h'"
proof -
  have "be_put 8 h @ [] \<le> be_put 8 h' @ be_put 8 b @ be_put 8 i \<longleftrightarrow> h \<le> h'"
    by (subst append_le_append_iff) auto
  then show ?thesis by (simp add: TopicLowerBound_def EventKey_def)
qed

lemma EventKey_less_due: "EventKey b h' i < DueUpperBound h m \<longleftrightarrow> h' < h \<or> h' = h \<and> b < m + 1"
proof -
  have "be_put 8 b @ be_put 8 i < be_put 8 (m + 1) @ [] \<longleftrightarrow> b < m + 1"
    by (subst append_less_append_iff) auto
  then show ?thesis
    by (simp add: EventKey_def DueUpperBound_def append_less_append_iff)
qed

lemma due_range_event:
  "TopicLowerBound h \<le> EventKey b h' i \<and> EventKey b h' i < DueUpperBound h m \<longleftrightarrow>
     h' = h \<and> b < m + 1"
  by (auto simp: topic_lower_le_EventKey EventKey_less_due)

lemma EventKey_less_topic_upper: "EventKey b h' i < TopicUpperBound h \<longleftrightarrow> h' < h + 1"
proof -
  have "be_put 8 h' @ be_put 8 b @ be_put 8 i < be_put 8 (h + 1) @ [] \<longleftrightarrow> h' < h + 1"
    by (subst append_less_append_iff) auto
  then show ?thesis by (simp add: TopicUpperBound_def EventKey_def)
qed

lemma EventKey_less_bucket_upper: "EventKey b h i < BucketUpperBound m \<longleftrightarrow> h < m + 1"
  using EventKey_less_topic_upper by (simp add: BucketUpperBound_def TopicUpperBound_def)

lemma less_plus_one_iff: "m \<noteq> - 1 \<Longrightarrow> b < m + 1 \<longleftrightarrow> b \<le> (m :: 'a::len word)"
proof -
  assume "m \<noteq> - 1"
  then have "unat m \<noteq> 2 ^ LENGTH('a) - 1"
    by (simp add: word_unat_eq_iff unsigned_minus_1_eq_mask mask_eq_exp_minus_1)
  moreover have "unat m < 2 ^ LENGTH('a)" by (rule unsigned_less)
  ultimately have "unat m + 1 < 2 ^ LENGTH('a)" by linarith
  then have "unat (m + 1) = Suc (unat m)" by (simp add: unat_word_ariths)
  then show ?thesis by (simp add: word_less_nat_alt word_le_nat_alt less_Suc_eq_le)
qed

section \<open>Time buckets\<close>

lemma Milliseconds_pos:
  assumes "1000000 \<le> sint d"
  shows "uint (duration_Milliseconds d) = sint d div 1000000"
    and "0 < sint d div 1000000"
proof -
  have "sint d < 2 ^ 63" using sint_lt[of d] by simp
  then have "sint d div 1000000 < 2 ^ 64" by simp
  moreover show "0 < sint d div 1000000" using assms by linarith
  ultimately show "uint (duration_Milliseconds d) = sint d div 1000000"
    using assms by (simp add: duration_Milliseconds_def uint_word_of_int_eq take_bit_int_eq_self)
qed

lemma uint_eq_sint: "0 \<le> sint (t :: i64) \<Longrightarrow> uint t = sint t"
proof -
  assume "0 \<le> sint t"
  moreover have "sint t < 2 ^ 63" using sint_lt[of t] by simp
  ultimately show ?thesis by (simp add: uint_sint take_bit_int_eq_self)
qed

lemma sint_add_nonneg:
  fixes a b :: i64
  assumes "0 \<le> sint a" and "0 \<le> sint b"
  shows "sint (a + b) = (if sint a + sint b < 2 ^ 63 then sint a + sint b else sint a + sint b - 2 ^ 64)"
proof -
  let ?s = "sint a + sint b"
  have b: "sint a < 2 ^ 63" "sint b < 2 ^ 63" using sint_lt[of a] sint_lt[of b] by simp_all
  have s: "sint (a + b) = (?s + 2 ^ 63) mod 2 ^ 64 - 2 ^ 63"
    by (simp add: sint_word_ariths signed_take_bit_eq_take_bit_shift take_bit_eq_mod)
  show ?thesis
  proof (cases "?s < 2 ^ 63")
    case True
    then show ?thesis unfolding s using assms by simp
  next
    case False
    have "(?s + 2 ^ 63) mod 2 ^ 64 = (?s + 2 ^ 63 - 2 ^ 64) mod 2 ^ 64" by (rule minus_mod_self2[symmetric])
    also have "\<dots> = ?s + 2 ^ 63 - 2 ^ 64" using False b by (intro mod_pos_pos_trivial) simp_all
    finally show ?thesis unfolding s using False by simp
  qed
qed

lemma bucket_ms_pos: "valid_bucketSize d \<Longrightarrow> 0 < bucket_ms d"
  by (auto simp: valid_bucketSize_def bucket_ms_def pos_imp_zdiv_pos_iff)

lemma CalculateBucket_valid:
  assumes "valid_bucketSize d"
  shows "\<exists>b. CalculateBucket t d = Ret b \<and>
           uint b = (if sint t \<le> 0 then 0 else sint t div bucket_ms d)"
proof -
  consider "sint t \<le> 0" | "0 < sint t" "sint d \<le> 0" | "0 < sint t" "1000000 \<le> sint d"
    using assms unfolding valid_bucketSize_def by linarith
  then show ?thesis
  proof cases
    case 1
    then show ?thesis by (simp add: CalculateBucket_def)
  next
    case 2
    then show ?thesis by (simp add: CalculateBucket_def bucket_ms_def uint_eq_sint)
  next
    case 3
    then have "duration_Milliseconds d \<noteq> 0"
      using Milliseconds_pos[of d] by auto
    with 3 show ?thesis
      by (simp add: CalculateBucket_def bucket_ms_def uint_div Milliseconds_pos(1) uint_eq_sint)
  qed
qed

lemma CalculateBucket_uint:
  assumes "valid_bucketSize d" and "CalculateBucket t d = Ret b"
  shows "uint b = (if sint t \<le> 0 then 0 else sint t div bucket_ms d)"
  using CalculateBucket_valid[OF assms(1), of t] assms(2) by auto

lemma CalculateBucket_not_max:
  assumes "valid_bucketSize d" and "CalculateBucket t d = Ret b"
  shows "b \<noteq> - 1"
proof -
  have "sint t < 2 ^ 63" using sint_lt[of t] by simp
  moreover have "0 < sint t \<Longrightarrow> sint t div bucket_ms d \<le> sint t"
    using bucket_ms_pos[OF assms(1)] by (cases "bucket_ms d = 1") (auto intro!: int_div_le_self)
  ultimately have "uint b < 2 ^ 63"
    using CalculateBucket_uint[OF assms] by (auto split: if_splits)
  moreover have "uint (- 1 :: u64) = 2 ^ 64 - 1"
    by (simp add: unsigned_minus_1_eq_mask mask_eq_exp_minus_1)
  ultimately show ?thesis by auto
qed

section \<open>Properties\<close>

text \<open>An event key parses back to its fields, and every key that parses is the event
  key of the fields it parses to: \<open>EventKey\<close> and \<open>ParseEventKey\<close> are
  inverse, and the only keys that parse are the 24-byte ones.\<close>

theorem event_key_roundtrip:
  "(ParseEventKey k = Inr (h, b, i) \<longleftrightarrow> k = EventKey b h i) \<and>
   ((\<exists>e. ParseEventKey k = Inl e) \<longleftrightarrow> length k \<noteq> 24)"
proof
  show "ParseEventKey k = Inr (h, b, i) \<longleftrightarrow> k = EventKey b h i"
    using EventKey_ParseEventKey by auto
  show "(\<exists>e. ParseEventKey k = Inl e) \<longleftrightarrow> length k \<noteq> 24"
    by (simp add: ParseEventKey_def)
qed

text \<open>The byte order of event keys is the order by topic hash, then bucket, then event
  id, so the store keeps a topic's messages together and, within a topic, in bucket and
  then in publication order.\<close>

theorem event_key_order:
  "EventKey b h i < EventKey b' h' i' \<longleftrightarrow>
     h < h' \<or> h = h' \<and> (b < b' \<or> b = b' \<and> i < i')"
  by (rule EventKey_less_iff)

text \<open>C14: with a bucket size that configuration validation lets through, the bucket of the
  current time is computed without a panic, and the dispatcher's scan range
  \<open>[TopicLowerBound, DueUpperBound)\<close> holds exactly the event keys of that topic
  whose bucket is at most the current one. In particular the \<open>maxBucket+1\<close> of
  the bound never wraps around.\<close>

theorem due_scan_exact:
  assumes "valid_bucketSize d"
  shows "\<exists>m. CalculateBucket now d = Ret m \<and>
    (\<forall>b h' i. TopicLowerBound h \<le> EventKey b h' i \<and> EventKey b h' i < DueUpperBound h m \<longleftrightarrow>
        h' = h \<and> b \<le> m)"
proof -
  obtain m where m: "CalculateBucket now d = Ret m"
    using CalculateBucket_valid[OF assms] by blast
  with assms have "m \<noteq> - 1" by (rule CalculateBucket_not_max)
  with m show ?thesis by (simp add: due_range_event less_plus_one_iff)
qed

theorem due_scan_exact_witness:
  "valid_bucketSize 1000000 \<and> (\<exists>m. CalculateBucket 1700000000000 1000000 = Ret m \<and>
    (\<forall>b h' i. TopicLowerBound 7 \<le> EventKey b h' i \<and> EventKey b h' i < DueUpperBound 7 m \<longleftrightarrow>
        h' = 7 \<and> b \<le> m))"
proof -
  have v: "valid_bucketSize 1000000" by (simp add: valid_bucketSize_def)
  show ?thesis using v due_scan_exact[OF v] by blast
qed

text \<open>Comparing buckets never makes a due message wait: if a message's fire time has come,
  its bucket is at most the current one. It may make a message early, by less than one
  bucket width; with a bucket size of zero or one millisecond it is never early.\<close>

theorem bucket_due_bounds:
  assumes "valid_bucketSize d" and "0 \<le> sint now"
    and "CalculateBucket fireAt d = Ret bf" and "CalculateBucket now d = Ret bn"
  shows "(sint fireAt \<le> sint now \<longrightarrow> bf \<le> bn) \<and>
         (bf \<le> bn \<longrightarrow> sint fireAt < sint now + bucket_ms d) \<and>
         (bucket_ms d = 1 \<longrightarrow> (bf \<le> bn \<longleftrightarrow> sint fireAt \<le> sint now \<or> sint fireAt \<le> 0))"
proof -
  let ?w = "bucket_ms d"
  have w: "0 < ?w" using assms(1) by (rule bucket_ms_pos)
  have bf: "uint bf = (if sint fireAt \<le> 0 then 0 else sint fireAt div ?w)"
    and bn: "uint bn = (if sint now \<le> 0 then 0 else sint now div ?w)"
    using assms CalculateBucket_uint by blast+
  have le: "bf \<le> bn \<longleftrightarrow> uint bf \<le> uint bn" by (rule word_le_def)
  have mono: "sint fireAt \<le> sint now \<Longrightarrow> sint fireAt div ?w \<le> sint now div ?w"
    using w by (simp add: zdiv_mono1)
  have lt: "t < (t div ?w + 1) * ?w \<and> t div ?w * ?w \<le> t" for t
  proof -
    have "t div ?w * ?w + t mod ?w = t" by (rule div_mult_mod_eq)
    moreover have "0 \<le> t mod ?w" "t mod ?w < ?w" using w by simp_all
    ultimately show ?thesis by (simp only: distrib_right) linarith
  qed
  have early: "sint fireAt < sint now + ?w" if "uint bf \<le> uint bn" "0 < sint fireAt"
  proof -
    have "uint bn = sint now div ?w" using bn assms(2) by auto
    with that bf have "sint fireAt div ?w \<le> sint now div ?w" by simp
    then have "(sint fireAt div ?w + 1) * ?w \<le> (sint now div ?w + 1) * ?w"
      using w by (intro mult_right_mono) auto
    then show ?thesis using lt[of "sint fireAt"] lt[of "sint now"] by (simp only: distrib_right) linarith
  qed
  have "0 \<le> sint now div ?w" using w assms(2) by (simp add: pos_imp_zdiv_nonneg_iff)
  then have "bf \<le> bn" if "sint fireAt \<le> sint now"
    using that le bf bn mono[OF that] assms(2) by (simp split: if_splits)
  moreover have "sint fireAt < sint now + ?w" if "bf \<le> bn"
    using that le early w assms(2) by linarith
  moreover have "bf \<le> bn" if "sint fireAt \<le> 0"
    using that le bf by simp
  ultimately show ?thesis by force
qed

theorem bucket_due_bounds_witness:
  "valid_bucketSize 5000000 \<and> CalculateBucket 1004 5000000 = Ret 200 \<and>
   CalculateBucket 1000 5000000 = Ret 200 \<and> \<not> sint (1004 :: i64) \<le> sint (1000 :: i64) \<and>
   sint (1004 :: i64) < sint (1000 :: i64) + bucket_ms 5000000"
proof -
  have h: "valid_bucketSize 5000000" "0 \<le> sint (1000 :: i64)"
    "CalculateBucket 1004 5000000 = Ret 200" "CalculateBucket 1000 5000000 = Ret 200"
    by (simp_all add: valid_bucketSize_def CalculateBucket_def duration_Milliseconds_def)
  show ?thesis using h bucket_due_bounds[OF h] by simp
qed

text \<open>\<open>TopicUpperBound\<close> bounds a topic's keys for every hash but the largest, where
  the successor wraps to zero and no event key lies below the bound;
  \<open>BucketUpperBound\<close>, kept from an earlier key layout, bounds the topic hash and
  not the bucket.\<close>

theorem upper_bounds_range:
  "(TopicLowerBound h \<le> EventKey b h' i \<and> EventKey b h' i < TopicUpperBound h \<longleftrightarrow>
      h \<noteq> - 1 \<and> h' = h) \<and>
   (EventKey b h i < BucketUpperBound m \<longleftrightarrow> m \<noteq> - 1 \<and> h \<le> m)"
proof -
  have "h' < h + 1 \<longleftrightarrow> h \<noteq> - 1 \<and> h' \<le> h" for h h' :: u64
    using less_plus_one_iff[of h h'] by (cases "h = - 1") auto
  then show ?thesis
    by (auto simp: topic_lower_le_EventKey EventKey_less_topic_upper EventKey_less_bucket_upper)
qed

end
