(* ===== verification/EventCommands.thy ===== *)
theory EventCommands
  imports Keys
begin

text \<open>
  The commands of the event shard, \<open>src/internal/raft/event/commands.go\<close>. The
  encoders are modelled as they are written: a buffer of a computed size and writes at a
  running position, each of which panics when it leaves the buffer. The decoders follow a
  position through the command; the lengths and counts they read are words of the width
  they have on the wire, and \<open>make\<close> panics on a length outside the address space.

  The lemmas show that the encoders fill the buffer exactly, that decoding undoes encoding
  within the widths of the wire format, that a successful decoding determines the bytes it
  read, and what happens beyond those widths.
\<close>

section \<open>Definitions\<close>

definition StoreBatchCmd :: byte where
  "StoreBatchCmd = 0"

definition DeleteBatchCmd :: byte where
  "DeleteBatchCmd = 1"

record StoreBatchItem =
  Bucket :: u64
  TopicHash :: u64
  Indexes :: "bytes list"
  Msg :: bytes

subsection \<open>Writing into a buffer\<close>

text \<open>
  \<open>put_at\<close> is a write of all of \<open>bs\<close> into \<open>out[pos:pos+len(bs)]\<close>;
  \<open>copy_at\<close> is \<open>copy(out[pos:], bs)\<close>, which stops at the end of the buffer.
\<close>

definition put_at :: "bytes \<Rightarrow> nat \<Rightarrow> bytes \<Rightarrow> bytes go" where
  "put_at out pos bs =
    (if pos + length bs \<le> length out then Ret (take pos out @ bs @ drop (pos + length bs) out)
     else Panic ''runtime error: slice bounds out of range'')"

definition copy_at :: "bytes \<Rightarrow> nat \<Rightarrow> bytes \<Rightarrow> bytes go" where
  "copy_at out pos bs =
    (if pos \<le> length out
     then Ret (take pos out @ take (length out - pos) bs @ drop (pos + length bs) out)
     else Panic ''runtime error: slice bounds out of range'')"

text \<open>\<open>make\<close> of \<open>n\<close> elements of \<open>elem\<close> bytes: the runtime's limit is \<open>2^48\<close> bytes.\<close>

definition make_ok :: "nat \<Rightarrow> int \<Rightarrow> bool" where
  "make_ok elem n \<longleftrightarrow> 0 \<le> n \<and> n * int elem \<le> 2 ^ 48"

subsection \<open>StoreBatchCmd\<close>

definition store_item_size :: "StoreBatchItem \<Rightarrow> nat" where
  "store_item_size it =
    8 + 8 + 2 + sum_list (map (\<lambda>idx. 2 + length idx) (Indexes it)) + (4 + length (Msg it))"

fun marshal_indexes :: "bytes \<Rightarrow> nat \<Rightarrow> bytes list \<Rightarrow> (bytes \<times> nat) go" where
  "marshal_indexes out pos [] = Ret (out, pos)"
| "marshal_indexes out pos (idx # indexes) =
    bind_go (put_at out pos (be_put 2 (of_nat (length idx) :: u16))) (\<lambda>out1.
    bind_go (copy_at out1 (pos + 2) idx) (\<lambda>out2.
    marshal_indexes out2 (pos + 2 + length idx) indexes))"

fun marshal_items :: "bytes \<Rightarrow> nat \<Rightarrow> StoreBatchItem list \<Rightarrow> bytes go" where
  "marshal_items out pos [] = Ret out"
| "marshal_items out pos (it # items) =
    bind_go (put_at out pos (be_put 8 (Bucket it))) (\<lambda>out1.
    bind_go (put_at out1 (pos + 8) (be_put 8 (TopicHash it))) (\<lambda>out2.
    bind_go (put_at out2 (pos + 16) (be_put 2 (of_nat (length (Indexes it)) :: u16))) (\<lambda>out3.
    bind_go (marshal_indexes out3 (pos + 18) (Indexes it)) (\<lambda>(out4, pos4).
    bind_go (put_at out4 pos4 (be_put 4 (of_nat (length (Msg it)) :: u32))) (\<lambda>out5.
    bind_go (copy_at out5 (pos4 + 4) (Msg it)) (\<lambda>out6.
    marshal_items out6 (pos4 + 4 + length (Msg it)) items))))))"

definition MarshalStoreBatchCmd :: "StoreBatchItem list \<Rightarrow> (goerror + bytes) go" where
  "MarshalStoreBatchCmd items =
    (let sz = 1 + 8 + sum_list (map store_item_size items);
         out = replicate sz 0
     in bind_go (put_at out 0 [StoreBatchCmd]) (\<lambda>out1.
        bind_go (put_at out1 1 (be_put 8 (of_nat (length items) :: u64))) (\<lambda>out2.
        bind_go (marshal_items out2 9 items) (\<lambda>out3. Ret (Inr out3)))))"

fun unmarshal_indexes :: "bytes \<Rightarrow> nat \<Rightarrow> nat \<Rightarrow> nat \<Rightarrow> nat \<Rightarrow> bytes list \<Rightarrow> goerror + bytes list \<times> nat" where
  "unmarshal_indexes data pos i j 0 indexes = Inr (indexes, pos)"
| "unmarshal_indexes data pos i j (Suc n) indexes =
    (if pos + 2 > length data
     then Inl (Errorf ''raft: StoreBatchCmd truncated at item %d index %d len'' [i, j])
     else let idxLen = unat (be_get (slice_of data pos (pos + 2)) :: u16) in
       if pos + 2 + idxLen > length data
       then Inl (Errorf ''raft: StoreBatchCmd truncated at item %d index %d data'' [i, j])
       else unmarshal_indexes data (pos + 2 + idxLen) i (j + 1) n
              (indexes @ [slice_of data (pos + 2) (pos + 2 + idxLen)]))"

fun unmarshal_items :: "bytes \<Rightarrow> nat \<Rightarrow> nat \<Rightarrow> nat \<Rightarrow> StoreBatchItem list \<Rightarrow> goerror + StoreBatchItem list" where
  "unmarshal_items data pos i 0 items = Inr items"
| "unmarshal_items data pos i (Suc n) items =
    (if pos + 8 + 8 + 2 > length data
     then Inl (Errorf ''raft: StoreBatchCmd truncated at item %d header'' [i])
     else let bucket = be_get (slice_of data pos (pos + 8));
              topicHash = be_get (slice_of data (pos + 8) (pos + 16));
              numIdx = unat (be_get (slice_of data (pos + 16) (pos + 18)) :: u16)
       in case unmarshal_indexes data (pos + 18) i 0 numIdx [] of
         Inl err \<Rightarrow> Inl err
       | Inr (indexes, pos1) \<Rightarrow>
           (if pos1 + 4 > length data
            then Inl (Errorf ''raft: StoreBatchCmd truncated at item %d valLen'' [i])
            else let valLen = unat (be_get (slice_of data pos1 (pos1 + 4)) :: u32) in
              if pos1 + 4 + valLen > length data
              then Inl (Errorf ''raft: StoreBatchCmd truncated at item %d value (need %d, have %d)''
                          [i, valLen, length data - (pos1 + 4)])
              else unmarshal_items data (pos1 + 4 + valLen) (i + 1) n
                     (items @ [\<lparr>Bucket = bucket, TopicHash = topicHash, Indexes = indexes,
                       Msg = slice_of data (pos1 + 4) (pos1 + 4 + valLen)\<rparr>])))"

text \<open>A \<open>StoreBatchItem\<close> takes 64 bytes: two words and two slice headers.\<close>

definition UnmarshalStoreBatchCmd :: "bytes \<Rightarrow> (goerror + StoreBatchItem list) go" where
  "UnmarshalStoreBatchCmd data =
    (if length data < 1 + 8
     then Ret (Inl (Errorf ''raft: StoreBatchCmd too short: %d bytes'' [length data]))
     else if data ! 0 \<noteq> StoreBatchCmd
     then Ret (Inl (Errorf ''raft: expected StoreBatchCmd (0), got %d'' [unat (data ! 0)]))
     else let count = be_get (slice_of data 1 9) :: u64 in
       if \<not> make_ok 64 (uint count) then Panic ''runtime error: makeslice: cap out of range''
       else Ret (unmarshal_items data 9 0 (unat count) []))"

subsection \<open>DeleteBatchCmd\<close>

fun marshal_keys :: "bytes \<Rightarrow> nat \<Rightarrow> bytes list \<Rightarrow> (goerror + bytes) go" where
  "marshal_keys out pos [] = Ret (Inr out)"
| "marshal_keys out pos (k # keys) =
    (if length k \<noteq> 24
     then Ret (Inl (Errorf ''raft: DeleteBatchCmd: key must be 24 bytes, got %d'' [length k]))
     else bind_go (put_at out pos k) (\<lambda>out1. marshal_keys out1 (pos + 24) keys))"

definition MarshalDeleteBatchCmd :: "bytes list \<Rightarrow> (goerror + bytes) go" where
  "MarshalDeleteBatchCmd keys =
    (let out = replicate (1 + 8 + length keys * 24) 0
     in bind_go (put_at out 0 [DeleteBatchCmd]) (\<lambda>out1.
        bind_go (put_at out1 1 (be_put 8 (of_nat (length keys) :: u64))) (\<lambda>out2.
        marshal_keys out2 9 keys)))"

text \<open>
  The count is converted to \<open>int\<close>, so it may be negative, and \<open>9+count*24\<close>
  wraps around. A slice header takes 24 bytes.
\<close>

definition UnmarshalDeleteBatchCmd :: "bytes \<Rightarrow> (goerror + bytes list) go" where
  "UnmarshalDeleteBatchCmd data =
    (if length data < 1 + 8
     then Ret (Inl (Errorf ''raft: DeleteBatchCmd too short: %d bytes'' [length data]))
     else if data ! 0 \<noteq> DeleteBatchCmd
     then Ret (Inl (Errorf ''raft: expected DeleteBatchCmd (1), got %d'' [unat (data ! 0)]))
     else let count = be_get (slice_of data 1 9) :: i64 in
       if int (length data) < sint (9 + count * 24)
       then Ret (Inl (Errorf ''raft: DeleteBatchCmd too short for %d keys'' [nat (sint count)]))
       else if \<not> make_ok 24 (sint count) then Panic ''runtime error: makeslice: len out of range''
       else Ret (Inr (map (\<lambda>i. slice_of data (9 + i * 24) (9 + i * 24 + 24)) [0..<nat (sint count)])))"

subsection \<open>The wire format\<close>

text \<open>The bytes of a command as the comments lay them out.\<close>

definition wire_indexes :: "bytes list \<Rightarrow> bytes" where
  "wire_indexes indexes = concat (map (\<lambda>idx. be_put 2 (of_nat (length idx) :: u16) @ idx) indexes)"

definition wire_item :: "StoreBatchItem \<Rightarrow> bytes" where
  "wire_item it = be_put 8 (Bucket it) @ be_put 8 (TopicHash it) @
    be_put 2 (of_nat (length (Indexes it)) :: u16) @ wire_indexes (Indexes it) @
    be_put 4 (of_nat (length (Msg it)) :: u32) @ Msg it"

definition wire_store :: "StoreBatchItem list \<Rightarrow> bytes" where
  "wire_store items = StoreBatchCmd # be_put 8 (of_nat (length items) :: u64) @ concat (map wire_item items)"

definition wire_delete :: "bytes list \<Rightarrow> bytes" where
  "wire_delete keys = DeleteBatchCmd # be_put 8 (of_nat (length keys) :: u64) @ concat keys"

text \<open>Items whose counts and lengths fit the fields of the wire format.\<close>

definition wire_fits :: "StoreBatchItem \<Rightarrow> bool" where
  "wire_fits it \<longleftrightarrow> length (Indexes it) < 65536 \<and> list_all (\<lambda>idx. length idx < 65536) (Indexes it) \<and>
    length (Msg it) < 2 ^ 32"


section \<open>Encoding fills the buffer\<close>

lemma put_at_append:
  "pos = length pre \<Longrightarrow> length bs \<le> length rest \<Longrightarrow>
    put_at (pre @ rest) pos bs = Ret ((pre @ bs) @ drop (length bs) rest)"
  by (simp add: put_at_def)

lemma copy_at_append:
  "pos = length pre \<Longrightarrow> length bs \<le> length rest \<Longrightarrow>
    copy_at (pre @ rest) pos bs = Ret ((pre @ bs) @ drop (length bs) rest)"
  by (simp add: copy_at_def)

lemma wire_indexes_simps [simp]:
  "wire_indexes [] = []"
  "wire_indexes (idx # indexes) = be_put 2 (of_nat (length idx) :: u16) @ idx @ wire_indexes indexes"
  by (simp_all add: wire_indexes_def)

lemma length_wire_item: "length (wire_item it) = store_item_size it"
  by (simp add: wire_item_def wire_indexes_def store_item_size_def length_concat comp_def)

lemma length_wire_store: "length (wire_store items) = 9 + sum_list (map store_item_size items)"
  by (simp add: wire_store_def length_concat comp_def length_wire_item)

lemma marshal_indexes_wire:
  "pos = length pre \<Longrightarrow> length (wire_indexes indexes) \<le> length rest \<Longrightarrow>
    marshal_indexes (pre @ rest) pos indexes =
    Ret ((pre @ wire_indexes indexes) @ drop (length (wire_indexes indexes)) rest,
         pos + length (wire_indexes indexes))"
proof (induction indexes arbitrary: pre pos rest)
  case (Cons idx indexes)
  let ?l = "be_put 2 (of_nat (length idx) :: u16)"
  have "marshal_indexes (((pre @ ?l) @ idx) @ drop (length idx) (drop 2 rest)) (pos + 2 + length idx) indexes =
    Ret ((((pre @ ?l) @ idx) @ wire_indexes indexes) @ drop (length (wire_indexes indexes)) (drop (length idx) (drop 2 rest)),
         pos + 2 + length idx + length (wire_indexes indexes))"
    using Cons.prems by (intro Cons.IH) simp_all
  moreover have "put_at (pre @ rest) pos ?l = Ret ((pre @ ?l) @ drop 2 rest)"
    using Cons.prems by (subst put_at_append) simp_all
  moreover have "copy_at ((pre @ ?l) @ drop 2 rest) (pos + 2) idx = Ret (((pre @ ?l) @ idx) @ drop (length idx) (drop 2 rest))"
    using Cons.prems by (subst copy_at_append) simp_all
  ultimately show ?case by (simp add: ac_simps)
qed simp

lemma marshal_item_wire:
  assumes "pos = length pre" and "length (wire_item it) \<le> length rest"
  shows "marshal_items (pre @ rest) pos (it # items) =
    marshal_items ((pre @ wire_item it) @ drop (length (wire_item it)) rest) (pos + length (wire_item it)) items"
proof -
  let ?b = "be_put 8 (Bucket it)" and ?h = "be_put 8 (TopicHash it)"
    and ?n = "be_put 2 (of_nat (length (Indexes it)) :: u16)" and ?x = "wire_indexes (Indexes it)"
    and ?l = "be_put 4 (of_nat (length (Msg it)) :: u32)"
  note len = assms(2)[unfolded wire_item_def, simplified]
  have "put_at (pre @ rest) pos ?b = Ret ((pre @ ?b) @ drop 8 rest)"
    using assms len by (subst put_at_append) simp_all
  moreover have "put_at ((pre @ ?b) @ drop 8 rest) (pos + 8) ?h = Ret ((pre @ ?b @ ?h) @ drop 16 rest)"
    using assms len by (subst put_at_append) simp_all
  moreover have "put_at ((pre @ ?b @ ?h) @ drop 16 rest) (pos + 16) ?n = Ret ((pre @ ?b @ ?h @ ?n) @ drop 18 rest)"
    using assms len by (subst put_at_append) simp_all
  moreover have "marshal_indexes ((pre @ ?b @ ?h @ ?n) @ drop 18 rest) (pos + 18) (Indexes it) =
      Ret ((pre @ ?b @ ?h @ ?n @ ?x) @ drop (18 + length ?x) rest, pos + 18 + length ?x)"
    using assms len by (subst marshal_indexes_wire) (simp_all add: add.commute)
  moreover have "put_at ((pre @ ?b @ ?h @ ?n @ ?x) @ drop (18 + length ?x) rest) (pos + 18 + length ?x) ?l =
      Ret ((pre @ ?b @ ?h @ ?n @ ?x @ ?l) @ drop (22 + length ?x) rest)"
    using assms len by (subst put_at_append) simp_all
  moreover have "copy_at ((pre @ ?b @ ?h @ ?n @ ?x @ ?l) @ drop (22 + length ?x) rest) (pos + 18 + length ?x + 4) (Msg it) =
      Ret ((pre @ ?b @ ?h @ ?n @ ?x @ ?l @ Msg it) @ drop (22 + length ?x + length (Msg it)) rest)"
    using assms len by (subst copy_at_append) (simp_all add: add.commute)
  ultimately show ?thesis
    by (simp add: wire_item_def ac_simps)
qed

lemma marshal_items_wire:
  "pos = length pre \<Longrightarrow> length rest = length (concat (map wire_item items)) \<Longrightarrow>
    marshal_items (pre @ rest) pos items = Ret (pre @ concat (map wire_item items))"
proof (induction items arbitrary: pre pos rest)
  case (Cons it items)
  show ?case
    using Cons.prems Cons.IH[of "pos + length (wire_item it)" "pre @ wire_item it" "drop (length (wire_item it)) rest"]
    by (subst marshal_item_wire) simp_all
qed simp

lemma MarshalStoreBatchCmd_wire: "MarshalStoreBatchCmd items = Ret (Inr (wire_store items))"
proof -
  let ?n = "sum_list (map store_item_size items)"
  have "put_at (replicate (1 + 8 + ?n) 0) 0 [StoreBatchCmd] = Ret ([StoreBatchCmd] @ replicate (8 + ?n) 0)"
    by (simp add: put_at_def)
  moreover have "put_at ([StoreBatchCmd] @ replicate (8 + ?n) 0) 1 (be_put 8 (of_nat (length items) :: u64)) =
      Ret ((StoreBatchCmd # be_put 8 (of_nat (length items) :: u64)) @ replicate ?n 0)"
    by (subst put_at_append) simp_all
  moreover have "marshal_items ((StoreBatchCmd # be_put 8 (of_nat (length items) :: u64)) @ replicate ?n 0) 9 items =
      Ret (wire_store items)"
    by (subst marshal_items_wire) (simp_all add: wire_store_def length_concat comp_def length_wire_item)
  ultimately show ?thesis by (simp add: MarshalStoreBatchCmd_def Let_def)
qed

lemma marshal_keys_wire:
  "list_all (\<lambda>k. length k = 24) keys \<Longrightarrow> pos = length pre \<Longrightarrow> length rest = length keys * 24 \<Longrightarrow>
    marshal_keys (pre @ rest) pos keys = Ret (Inr (pre @ concat keys))"
proof (induction keys arbitrary: pre pos rest)
  case (Cons k keys)
  have "put_at (pre @ rest) pos k = Ret ((pre @ k) @ drop 24 rest)"
    using Cons.prems by (subst put_at_append) simp_all
  then show ?case using Cons.prems Cons.IH[of "pos + 24" "pre @ k" "drop 24 rest"] by simp
qed simp

lemma marshal_keys_err:
  "\<not> list_all (\<lambda>k. length k = 24) keys \<Longrightarrow> pos = length pre \<Longrightarrow> length rest = length keys * 24 \<Longrightarrow>
    \<exists>n. n \<noteq> 24 \<and> marshal_keys (pre @ rest) pos keys =
      Ret (Inl (Errorf ''raft: DeleteBatchCmd: key must be 24 bytes, got %d'' [n]))"
proof (induction keys arbitrary: pre pos rest)
  case (Cons k keys)
  show ?case
  proof (cases "length k = 24")
    case True
    then have "put_at (pre @ rest) pos k = Ret ((pre @ k) @ drop 24 rest)"
      using Cons.prems by (subst put_at_append) simp_all
    then show ?thesis using True Cons.prems Cons.IH[of "pos + 24" "pre @ k" "drop 24 rest"] by simp
  qed simp
qed simp

lemma MarshalDeleteBatchCmd_eq:
  "list_all (\<lambda>k. length k = 24) keys \<Longrightarrow> MarshalDeleteBatchCmd keys = Ret (Inr (wire_delete keys))"
  "\<not> list_all (\<lambda>k. length k = 24) keys \<Longrightarrow> \<exists>n. n \<noteq> 24 \<and> MarshalDeleteBatchCmd keys =
     Ret (Inl (Errorf ''raft: DeleteBatchCmd: key must be 24 bytes, got %d'' [n]))"
proof -
  let ?n = "length keys * 24"
  let ?pre = "DeleteBatchCmd # be_put 8 (of_nat (length keys) :: u64)"
  have "put_at (replicate (1 + 8 + ?n) 0) 0 [DeleteBatchCmd] = Ret ([DeleteBatchCmd] @ replicate (8 + ?n) 0)"
    by (simp add: put_at_def)
  moreover have "put_at ([DeleteBatchCmd] @ replicate (8 + ?n) 0) 1 (be_put 8 (of_nat (length keys) :: u64)) =
      Ret (?pre @ replicate ?n 0)"
    by (subst put_at_append) simp_all
  ultimately have "MarshalDeleteBatchCmd keys = marshal_keys (?pre @ replicate ?n 0) 9 keys"
    by (simp add: MarshalDeleteBatchCmd_def Let_def)
  then show "list_all (\<lambda>k. length k = 24) keys \<Longrightarrow> MarshalDeleteBatchCmd keys = Ret (Inr (wire_delete keys))"
    and "\<not> list_all (\<lambda>k. length k = 24) keys \<Longrightarrow> \<exists>n. n \<noteq> 24 \<and> MarshalDeleteBatchCmd keys =
     Ret (Inl (Errorf ''raft: DeleteBatchCmd: key must be 24 bytes, got %d'' [n]))"
    using marshal_keys_wire[of keys 9 ?pre] marshal_keys_err[of keys 9 ?pre] by (simp_all add: wire_delete_def)
qed


section \<open>Decoding\<close>

lemma unat_length_word:
  "n < 2 ^ LENGTH('a::len) \<Longrightarrow> unat (of_nat n :: 'a word) = n"
  by (simp add: unat_of_nat)

lemma unmarshal_indexes_wire:
  "pos = length pre \<Longrightarrow> list_all (\<lambda>idx. length idx < 65536) indexes \<Longrightarrow>
    unmarshal_indexes (pre @ wire_indexes indexes @ post) pos i j (length indexes) acc =
    Inr (acc @ indexes, pos + length (wire_indexes indexes))"
proof (induction indexes arbitrary: pre pos j acc)
  case (Cons idx indexes)
  then show ?case
    using Cons.IH[of "pos + 2 + length idx" "pre @ be_put 2 (of_nat (length idx) :: u16) @ idx" "j + 1" "acc @ [idx]"]
    by (simp add: slice_of_def unat_length_word add.assoc)
qed simp

lemma unmarshal_items_wire:
  "pos = length pre \<Longrightarrow> list_all wire_fits items \<Longrightarrow>
    unmarshal_items (pre @ concat (map wire_item items) @ post) pos i (length items) acc = Inr (acc @ items)"
proof (induction items arbitrary: pre pos i acc)
  case (Cons it items)
  let ?x = "wire_indexes (Indexes it)"
  let ?hd = "pre @ be_put 8 (Bucket it) @ be_put 8 (TopicHash it) @ be_put 2 (of_nat (length (Indexes it)) :: u16)"
  let ?l = "be_put 4 (of_nat (length (Msg it)) :: u32)"
  let ?post = "?l @ Msg it @ concat (map wire_item items) @ post"
  have fits: "length (Indexes it) < 65536" "list_all (\<lambda>idx. length idx < 65536) (Indexes it)" "length (Msg it) < 2 ^ 32"
    using Cons.prems by (simp_all add: wire_fits_def)
  have self: "\<lparr>Bucket = Bucket it, TopicHash = TopicHash it, Indexes = Indexes it, Msg = Msg it\<rparr> = it"
    by simp
  have "unmarshal_items (?hd @ ?x @ ?post) pos i (Suc (length items)) acc =
    unmarshal_items (?hd @ ?x @ ?post) (pos + length (wire_item it)) (i + 1) (length items) (acc @ [it])"
    using fits Cons.prems unmarshal_indexes_wire[of "pos + 18" ?hd "Indexes it" ?post i 0 "[]"]
    by (simp add: slice_of_def unat_length_word wire_item_def add.assoc Let_def self)
  also have "?hd @ ?x @ ?post = (pre @ wire_item it) @ concat (map wire_item items) @ post"
    by (simp add: wire_item_def)
  also have "unmarshal_items ((pre @ wire_item it) @ concat (map wire_item items) @ post)
      (pos + length (wire_item it)) (i + 1) (length items) (acc @ [it]) = Inr (acc @ it # items)"
    using Cons.IH[of "pos + length (wire_item it)" "pre @ wire_item it" "i + 1" "acc @ [it]"] Cons.prems by simp
  finally show ?case by (simp only: list.map concat.simps append_assoc list.size add_0_right add_Suc_right)
qed simp

lemma UnmarshalStoreBatchCmd_wire:
  assumes "list_all wire_fits items" and "length items * 64 \<le> 2 ^ 48"
  shows "UnmarshalStoreBatchCmd (wire_store items @ post) = Ret (Inr items)"
proof -
  have n: "uint (of_nat (length items) :: u64) = int (length items)" "unat (of_nat (length items) :: u64) = length items"
    using assms(2) by (simp_all add: uint_nat unat_length_word)
  have "make_ok 64 (int (length items))"
    using assms(2) by (simp add: make_ok_def)
  moreover have "unmarshal_items (wire_store items @ post) 9 0 (length items) [] = Inr items"
    using unmarshal_items_wire[of 9 "StoreBatchCmd # be_put 8 (of_nat (length items) :: u64)" items post 0 "[]"] assms(1)
    by (simp add: wire_store_def)
  moreover have "slice_of (wire_store items @ post) 1 9 = be_put 8 (of_nat (length items) :: u64)"
    by (simp add: slice_of_def wire_store_def)
  moreover have "9 \<le> length (wire_store items @ post)" "(wire_store items @ post) ! 0 = StoreBatchCmd"
    by (simp_all add: wire_store_def)
  ultimately show ?thesis by (simp add: UnmarshalStoreBatchCmd_def Let_def n)
qed

text \<open>A successful decoding determines the bytes it consumed.\<close>

lemma drop_slice: "pos + n \<le> length data \<Longrightarrow> drop pos data = slice_of data pos (pos + n) @ drop (pos + n) data"
  by (simp add: slice_of_def) (metis append_take_drop_id drop_drop add.commute)

lemma unmarshal_indexes_sound:
  "unmarshal_indexes data pos i j n acc = Inr (r, pos') \<Longrightarrow> pos \<le> length data \<Longrightarrow>
    \<exists>indexes. r = acc @ indexes \<and> length indexes = n \<and> list_all (\<lambda>idx. length idx < 65536) indexes \<and>
      pos' \<le> length data \<and> drop pos data = wire_indexes indexes @ drop pos' data"
proof (induction n arbitrary: pos j acc)
  case (Suc n)
  let ?w = "be_get (slice_of data pos (pos + 2)) :: u16"
  let ?idx = "slice_of data (pos + 2) (pos + 2 + unat ?w)"
  from Suc.prems have le: "pos + 2 + unat ?w \<le> length data"
    and rest: "unmarshal_indexes data (pos + 2 + unat ?w) i (j + 1) n (acc @ [?idx]) = Inr (r, pos')"
    by (auto simp: Let_def split: if_splits)
  from Suc.IH[OF rest le] obtain indexes where IH: "r = (acc @ [?idx]) @ indexes" "length indexes = n"
      "list_all (\<lambda>idx. length idx < 65536) indexes" "pos' \<le> length data"
      "drop (pos + 2 + unat ?w) data = wire_indexes indexes @ drop pos' data"
    by blast
  have "length ?idx = unat ?w" using le by simp
  moreover have "unat ?w < 65536" using unsigned_less[of ?w, where 'a = nat] by simp
  moreover have "drop pos data = slice_of data pos (pos + 2) @ drop (pos + 2) data"
    using le by (intro drop_slice) simp
  moreover have "drop (pos + 2) data = ?idx @ drop (pos + 2 + unat ?w) data"
    using le by (rule drop_slice)
  moreover have "slice_of data pos (pos + 2) = be_put 2 ?w" using le by simp
  ultimately show ?case using IH by (intro exI[of _ "?idx # indexes"]) (simp add: word_unat_eq_iff unat_length_word)
qed simp

lemma unmarshal_items_sound:
  "unmarshal_items data pos i n acc = Inr r \<Longrightarrow> pos \<le> length data \<Longrightarrow>
    \<exists>items post. r = acc @ items \<and> length items = n \<and> list_all wire_fits items \<and>
      drop pos data = concat (map wire_item items) @ post"
proof (induction n arbitrary: pos i acc)
  case (Suc n)
  let ?b = "be_get (slice_of data pos (pos + 8)) :: u64"
  let ?h = "be_get (slice_of data (pos + 8) (pos + 16)) :: u64"
  let ?n = "be_get (slice_of data (pos + 16) (pos + 18)) :: u16"
  from Suc.prems obtain indexes pos1 where hd: "pos + 18 \<le> length data"
    and idx: "unmarshal_indexes data (pos + 18) i 0 (unat ?n) [] = Inr (indexes, pos1)"
    and l: "pos1 + 4 + unat (be_get (slice_of data pos1 (pos1 + 4)) :: u32) \<le> length data"
    and rest: "unmarshal_items data (pos1 + 4 + unat (be_get (slice_of data pos1 (pos1 + 4)) :: u32)) (i + 1) n
      (acc @ [\<lparr>Bucket = ?b, TopicHash = ?h, Indexes = indexes,
         Msg = slice_of data (pos1 + 4) (pos1 + 4 + unat (be_get (slice_of data pos1 (pos1 + 4)) :: u32))\<rparr>]) = Inr r"
    by (auto simp: Let_def split: if_splits sum.splits)
  let ?l = "be_get (slice_of data pos1 (pos1 + 4)) :: u32"
  let ?m = "slice_of data (pos1 + 4) (pos1 + 4 + unat ?l)"
  let ?it = "\<lparr>Bucket = ?b, TopicHash = ?h, Indexes = indexes, Msg = ?m\<rparr>"
  from unmarshal_indexes_sound[OF idx hd] have sound: "length indexes = unat ?n"
      "list_all (\<lambda>idx. length idx < 65536) indexes" "drop (pos + 18) data = wire_indexes indexes @ drop pos1 data"
    by auto
  from Suc.IH[OF rest l] obtain items post where IH: "r = (acc @ [?it]) @ items" "length items = n"
      "list_all wire_fits items" "drop (pos1 + 4 + unat ?l) data = concat (map wire_item items) @ post"
    by blast
  have m: "length ?m = unat ?l" using l by simp
  have "drop pos data = slice_of data pos (pos + 8) @ drop (pos + 8) data"
    using hd by (intro drop_slice) simp
  moreover have "drop (pos + 8) data = slice_of data (pos + 8) (pos + 16) @ drop (pos + 16) data"
    using hd drop_slice[of "pos + 8" 8 data] by (simp add: ac_simps)
  moreover have "drop (pos + 16) data = slice_of data (pos + 16) (pos + 18) @ drop (pos + 18) data"
    using hd drop_slice[of "pos + 16" 2 data] by (simp add: ac_simps)
  moreover have "drop pos1 data = slice_of data pos1 (pos1 + 4) @ ?m @ drop (pos1 + 4 + unat ?l) data"
    using l drop_slice[of pos1 4 data] drop_slice[OF l] by simp
  ultimately have "drop pos data = wire_item ?it @ concat (map wire_item items) @ post"
    using hd l sound m IH(4) by (simp add: wire_item_def word_unat_eq_iff unat_length_word)
  moreover have "wire_fits ?it"
    using sound m unsigned_less[of ?n, where 'a = nat] unsigned_less[of ?l, where 'a = nat] by (simp add: wire_fits_def)
  ultimately show ?case using IH by (intro exI[of _ "?it # items"] exI[of _ post]) simp
qed simp

lemma UnmarshalStoreBatchCmd_sound:
  assumes "UnmarshalStoreBatchCmd data = Ret (Inr items)"
  shows "list_all wire_fits items \<and> (\<exists>post. data = wire_store items @ post)"
proof -
  let ?c = "be_get (slice_of data 1 9) :: u64"
  from assms have len: "9 \<le> length data" and tag: "data ! 0 = StoreBatchCmd"
    and items: "unmarshal_items data 9 0 (unat ?c) [] = Inr items"
    by (auto simp: UnmarshalStoreBatchCmd_def Let_def split: if_splits)
  from unmarshal_items_sound[OF items len] obtain post where "length items = unat ?c" "list_all wire_fits items"
      "drop 9 data = concat (map wire_item items) @ post"
    by auto
  moreover have "data = data ! 0 # drop 1 data" using len by (cases data) auto
  moreover have "drop 1 data = slice_of data 1 9 @ drop 9 data"
    using len drop_slice[of 1 8 data] by simp
  moreover have "slice_of data 1 9 = be_put 8 ?c" using len by simp
  ultimately have "data = wire_store items @ post"
    using tag by (simp add: wire_store_def)
  with \<open>list_all wire_fits items\<close> show ?thesis by blast
qed


lemma UnmarshalStoreBatchCmd_count:
  assumes "UnmarshalStoreBatchCmd data = Ret (Inr items)"
  shows "length items * 64 \<le> 2 ^ 48"
proof -
  let ?c = "be_get (slice_of data 1 9) :: u64"
  from assms have mk: "make_ok 64 (uint ?c)" and len: "9 \<le> length data"
    and items: "unmarshal_items data 9 0 (unat ?c) [] = Inr items"
    by (auto simp: UnmarshalStoreBatchCmd_def Let_def split: if_splits)
  from unmarshal_items_sound[OF items len] have n: "length items = unat ?c" by (elim exE conjE) simp
  from mk have "int (unat ?c * 64) \<le> int (2 ^ 48)" by (simp add: make_ok_def)
  then show ?thesis unfolding n by (simp only: of_nat_le_iff)
qed

lemma sint_small: "x < 2 ^ 63 \<Longrightarrow> sint (of_nat x :: i64) = int x"
  using int_word_sint[of "int x", where 'a = 64] by simp

lemma of_nat_sint: "sint (c :: i64) = int n \<Longrightarrow> of_nat n = c"
  by (metis of_int_of_nat_eq scast_eq scast_id)

lemma sint_delete_size:
  assumes "0 \<le> sint (c :: i64)" and "sint c * 24 \<le> 2 ^ 48"
  shows "sint (9 + c * 24) = 9 + sint c * 24"
proof -
  obtain n where n: "sint c = int n" using assms(1) nonneg_int_cases by blast
  then have "c = of_nat n" by (simp add: of_nat_sint)
  moreover have "9 + n * 24 < 2 ^ 63" using assms(2) n by simp
  moreover have "sint (9 + (of_nat n :: i64) * 24) = sint (of_nat (9 + n * 24) :: i64)" by simp
  ultimately show ?thesis using n sint_small[of "9 + n * 24"] by simp
qed

lemma nth_key_slice:
  "list_all (\<lambda>k. length k = 24) keys \<Longrightarrow> i < length keys \<Longrightarrow>
    take 24 (drop (i * 24) (concat keys @ post)) = keys ! i"
proof (induction keys arbitrary: i)
  case (Cons k keys)
  then show ?case by (cases i) simp_all
qed simp

lemma UnmarshalDeleteBatchCmd_wire:
  assumes keys: "list_all (\<lambda>k. length k = 24) keys" and n: "length keys * 24 \<le> 2 ^ 48"
  shows "UnmarshalDeleteBatchCmd (wire_delete keys @ post) = Ret (Inr keys)"
proof -
  let ?data = "wire_delete keys @ post"
  have len: "length (concat keys) = length keys * 24"
    using keys by (induction keys) auto
  have c: "sint (of_nat (length keys) :: i64) = int (length keys)"
    using n by (intro sint_small) simp
  then have "sint (9 + (of_nat (length keys) :: i64) * 24) = 9 + int (length keys) * 24"
    using n by (subst sint_delete_size) simp_all
  moreover have "make_ok 24 (int (length keys))" using n by (simp add: make_ok_def)
  moreover have "map (\<lambda>i. slice_of ?data (9 + i * 24) (9 + i * 24 + 24)) [0..<length keys] = keys"
  proof (rule nth_equalityI)
    fix i assume i: "i < length (map (\<lambda>i. slice_of ?data (9 + i * 24) (9 + i * 24 + 24)) [0..<length keys])"
    have "drop 9 ?data = concat keys @ post" by (simp add: wire_delete_def)
    then have "drop (9 + i * 24) ?data = drop (i * 24) (concat keys @ post)"
      by (metis add.commute drop_drop)
    with i nth_key_slice[OF keys, of i post]
    show "map (\<lambda>i. slice_of ?data (9 + i * 24) (9 + i * 24 + 24)) [0..<length keys] ! i = keys ! i"
      by (simp add: slice_of_def del: drop_append take_append)
  qed simp
  moreover have "slice_of ?data 1 9 = be_put 8 (of_nat (length keys) :: u64)"
    by (simp add: slice_of_def wire_delete_def)
  moreover have "length ?data = 9 + length keys * 24 + length post" "?data ! 0 = DeleteBatchCmd"
    by (simp_all add: wire_delete_def len)
  ultimately show ?thesis by (simp add: UnmarshalDeleteBatchCmd_def Let_def c)
qed

lemma concat_slices:
  "m + n * 24 \<le> length data \<Longrightarrow>
    concat (map (\<lambda>i. slice_of data (m + i * 24) (m + i * 24 + 24)) [0..<n]) @ drop (m + n * 24) data = drop m data"
proof (induction n)
  case (Suc n)
  then show ?case using drop_slice[of "m + n * 24" 24 data] by (simp add: ac_simps)
qed simp

lemma UnmarshalDeleteBatchCmd_sound:
  assumes "UnmarshalDeleteBatchCmd data = Ret (Inr keys)"
  shows "list_all (\<lambda>k. length k = 24) keys \<and> length keys * 24 \<le> 2 ^ 48 \<and> (\<exists>post. data = wire_delete keys @ post)"
proof -
  let ?c = "be_get (slice_of data 1 9) :: i64"
  from assms have len: "9 \<le> length data" and tag: "data ! 0 = DeleteBatchCmd"
    and mk: "make_ok 24 (sint ?c)" and le: "sint (9 + ?c * 24) \<le> int (length data)"
    and keys: "keys = map (\<lambda>i. slice_of data (9 + i * 24) (9 + i * 24 + 24)) [0..<nat (sint ?c)]"
    by (auto simp: UnmarshalDeleteBatchCmd_def Let_def split: if_splits)
  define n where "n = nat (sint ?c)"
  have n: "sint ?c = int n" "n * 24 \<le> 2 ^ 48" using mk by (auto simp: make_ok_def n_def)
  have fits: "9 + n * 24 \<le> length data"
    using le sint_delete_size[of ?c] n by simp
  have c: "(of_nat (length keys) :: u64) = ?c"
    using of_nat_sint[OF n(1)] by (simp add: keys n_def)
  have "data = data ! 0 # drop 1 data" using len by (cases data) auto
  moreover have "drop 1 data = slice_of data 1 9 @ drop 9 data"
    using len drop_slice[of 1 8 data] by simp
  moreover have "slice_of data 1 9 = be_put 8 ?c" using len by simp
  moreover have "drop 9 data = concat keys @ drop (9 + n * 24) data"
    using concat_slices[OF fits] keys n_def by simp
  ultimately have "data = wire_delete keys @ drop (9 + n * 24) data"
    using tag c by (simp add: wire_delete_def)
  moreover have "list_all (\<lambda>k. length k = 24) keys"
    using fits unfolding keys n_def[symmetric] by (auto simp: list_all_iff)
  moreover have "length keys = n" by (simp add: keys n_def)
  ultimately show ?thesis using n(2) by blast
qed

interpretation store_cmd: command_codec MarshalStoreBatchCmd UnmarshalStoreBatchCmd
    "\<lambda>items. list_all wire_fits items \<and> length items * 64 \<le> 2 ^ 48" StoreBatchCmd
proof
  fix items assume "list_all wire_fits items \<and> length items * 64 \<le> 2 ^ 48"
  then show "\<exists>cmd. MarshalStoreBatchCmd items = Ret (Inr cmd) \<and> UnmarshalStoreBatchCmd cmd = Ret (Inr items)"
    using UnmarshalStoreBatchCmd_wire[of items "[]"] MarshalStoreBatchCmd_wire by simp
next
  fix cmd items assume "UnmarshalStoreBatchCmd cmd = Ret (Inr items)"
  then show "cmd \<noteq> [] \<and> cmd ! 0 = StoreBatchCmd"
    by (auto dest!: UnmarshalStoreBatchCmd_sound simp: wire_store_def)
qed

interpretation delete_cmd: command_codec MarshalDeleteBatchCmd UnmarshalDeleteBatchCmd
    "\<lambda>keys. list_all (\<lambda>k. length k = 24) keys \<and> length keys * 24 \<le> 2 ^ 48" DeleteBatchCmd
proof
  fix keys :: "bytes list" assume "list_all (\<lambda>k. length k = 24) keys \<and> length keys * 24 \<le> 2 ^ 48"
  then show "\<exists>cmd. MarshalDeleteBatchCmd keys = Ret (Inr cmd) \<and> UnmarshalDeleteBatchCmd cmd = Ret (Inr keys)"
    using UnmarshalDeleteBatchCmd_wire[of keys "[]"] MarshalDeleteBatchCmd_eq(1) by simp
next
  fix cmd keys assume "UnmarshalDeleteBatchCmd cmd = Ret (Inr keys)"
  then show "cmd \<noteq> [] \<and> cmd ! 0 = DeleteBatchCmd"
    by (auto dest!: UnmarshalDeleteBatchCmd_sound simp: wire_delete_def)
qed


section \<open>Properties\<close>

text \<open>The size computed before encoding is exact: \<open>MarshalStoreBatchCmd\<close> never fails or
  writes outside its buffer, and the buffer holds the documented layout, with counts and
  lengths reduced to the width of their fields.\<close>

theorem store_batch_encoding:
  "MarshalStoreBatchCmd items = Ret (Inr (wire_store items)) \<and>
   length (wire_store items) = 1 + 8 + sum_list (map store_item_size items)"
  by (simp add: MarshalStoreBatchCmd_wire length_wire_store)

text \<open>C18: \<open>UnmarshalStoreBatchCmd\<close> succeeds on exactly the commands that begin with the
  encoding of a batch that fits the wire format, and returns that batch: decoding undoes
  encoding, trailing bytes are ignored, and no truncated or ambiguous input is accepted.\<close>

theorem store_batch_decoding:
  "UnmarshalStoreBatchCmd data = Ret (Inr items) \<longleftrightarrow>
    list_all wire_fits items \<and> length items * 64 \<le> 2 ^ 48 \<and> (\<exists>post. data = wire_store items @ post)"
proof
  assume A: "UnmarshalStoreBatchCmd data = Ret (Inr items)"
  show "list_all wire_fits items \<and> length items * 64 \<le> 2 ^ 48 \<and> (\<exists>post. data = wire_store items @ post)"
    using UnmarshalStoreBatchCmd_sound[OF A] UnmarshalStoreBatchCmd_count[OF A] by simp
next
  assume A: "list_all wire_fits items \<and> length items * 64 \<le> 2 ^ 48 \<and> (\<exists>post. data = wire_store items @ post)"
  then obtain post where "data = wire_store items @ post" by (elim conjE exE)
  with A show "UnmarshalStoreBatchCmd data = Ret (Inr items)"
    using UnmarshalStoreBatchCmd_wire[of items post] by simp
qed

text \<open>\<open>MarshalDeleteBatchCmd\<close> succeeds exactly on keys of 24 bytes, and
  \<open>UnmarshalDeleteBatchCmd\<close> exactly on the encodings of such keys, which it returns.\<close>

theorem delete_batch_codec:
  "(MarshalDeleteBatchCmd keys = Ret (Inr cmd) \<longleftrightarrow> list_all (\<lambda>k. length k = 24) keys \<and> cmd = wire_delete keys) \<and>
   (UnmarshalDeleteBatchCmd data = Ret (Inr keys) \<longleftrightarrow>
     list_all (\<lambda>k. length k = 24) keys \<and> length keys * 24 \<le> 2 ^ 48 \<and> (\<exists>post. data = wire_delete keys @ post))"
proof -
  have "list_all (\<lambda>k. length k = 24) keys" if "MarshalDeleteBatchCmd keys = Ret (Inr cmd)" for cmd
    using that MarshalDeleteBatchCmd_eq(2)[of keys] by auto
  then show ?thesis
    using MarshalDeleteBatchCmd_eq(1)[of keys] UnmarshalDeleteBatchCmd_sound[of data keys]
      UnmarshalDeleteBatchCmd_wire[of keys] by auto
qed

text \<open>An index of 65536 bytes silently corrupts the command: its length is written as
  zero, so the replicas decode the index as empty and take the message from inside the
  index, while the encoding reports success and the batch counts one stored message.\<close>

theorem index_length_overflow:
  assumes "length idx = 65536" and n: "n = unat (be_get (take 4 idx) :: u32)" "n \<le> 65532"
  shows "\<exists>cmd. MarshalStoreBatchCmd [\<lparr>Bucket = b, TopicHash = h, Indexes = [idx], Msg = msg\<rparr>] = Ret (Inr cmd) \<and>
    UnmarshalStoreBatchCmd cmd = Ret (Inr [\<lparr>Bucket = b, TopicHash = h, Indexes = [[]], Msg = take n (drop 4 idx)\<rparr>])"
proof -
  let ?it = "\<lparr>Bucket = b, TopicHash = h, Indexes = [idx], Msg = msg\<rparr>"
  let ?it' = "\<lparr>Bucket = b, TopicHash = h, Indexes = [[]], Msg = take n (drop 4 idx)\<rparr>"
  have "idx = take 4 idx @ take n (drop 4 idx) @ drop n (drop 4 idx)"
    by (simp only: append_take_drop_id)
  moreover have "take 4 idx = be_put 4 (of_nat n :: u32)"
    using assms(1) by (simp add: n(1))
  ultimately have idx: "idx = be_put 4 (of_nat n :: u32) @ take n (drop 4 idx) @ drop n (drop 4 idx)" by simp
  have "wire_indexes [idx] = be_put 2 (0 :: u16) @ idx"
    using assms(1) by simp
  moreover have "idx @ rest = be_put 4 (of_nat n :: u32) @ take n (drop 4 idx) @ drop n (drop 4 idx) @ rest" for rest
    using idx by (metis append_assoc)
  ultimately obtain post where "wire_store [?it] = wire_store [?it'] @ post"
    using assms(1) n(2) by (simp add: wire_store_def wire_item_def)
  moreover have "UnmarshalStoreBatchCmd (wire_store [?it'] @ post) = Ret (Inr [?it'])"
    using assms by (intro UnmarshalStoreBatchCmd_wire) (simp_all add: wire_fits_def)
  ultimately show ?thesis by (simp add: MarshalStoreBatchCmd_wire)
qed

theorem index_length_overflow_witness:
  "\<exists>cmd. MarshalStoreBatchCmd [\<lparr>Bucket = 3, TopicHash = 7, Indexes = [replicate 65536 0], Msg = [1, 2]\<rparr>] = Ret (Inr cmd) \<and>
    UnmarshalStoreBatchCmd cmd = Ret (Inr [\<lparr>Bucket = 3, TopicHash = 7, Indexes = [[]], Msg = []\<rparr>])"
proof -
  have "take 4 (replicate 65536 (0 :: byte)) = replicate 4 0" by (simp add: take_replicate)
  also have "\<dots> = be_put 4 (0 :: u32)" by code_simp
  finally have "0 = unat (be_get (take 4 (replicate 65536 0)) :: u32)" by simp
  from index_length_overflow[OF _ this] show ?thesis by simp
qed

text \<open>A command whose count field does not describe its content can stop a replica: the
  decoders allocate for the count before they look at the bytes, so nine bytes with a large
  enough count panic instead of returning the truncation error.\<close>

theorem huge_count_panics:
  "(2 ^ 42 < uint (n :: u64) \<longrightarrow> (\<exists>s. UnmarshalStoreBatchCmd (StoreBatchCmd # be_put 8 n @ rest) = Panic s)) \<and>
   (\<exists>s. UnmarshalDeleteBatchCmd (DeleteBatchCmd # be_put 8 (2 ^ 63 :: u64) @ rest) = Panic s)"
  by (simp add: UnmarshalStoreBatchCmd_def UnmarshalDeleteBatchCmd_def Let_def slice_of_def make_ok_def)

theorem huge_count_panics_witness:
  "\<exists>s. UnmarshalStoreBatchCmd (StoreBatchCmd # be_put 8 (- 1 :: u64) @ []) = Panic s"
  by (rule huge_count_panics[THEN conjunct1, THEN mp]) (simp add: unsigned_minus_1_eq_mask mask_eq_exp_minus_1)

end
