(* ===== verification/Maps.thy ===== *)
theory Maps
  imports Prelude "HOL-Library.AList" "HOL-Library.Multiset"
begin

text \<open>
  Go maps. A map is an association list with distinct keys; reading a missing key gives the
  zero value of the value type. A \<open>range\<close> over a map visits its pairs once in an
  unspecified order: a definition that ranges takes the order as an argument, a function
  that permutes the list.
\<close>

section \<open>Definitions\<close>

definition map_get :: "'v \<Rightarrow> ('k \<times> 'v) list \<Rightarrow> 'k \<Rightarrow> 'v" where
  "map_get zero m k = (case map_of m k of None \<Rightarrow> zero | Some v \<Rightarrow> v)"

text \<open>The loop that copies a map pair by pair into another one.\<close>

definition copy_map :: "('k \<times> 'v) list \<Rightarrow> ('k \<times> 'v) list \<Rightarrow> ('k \<times> 'v) list" where
  "copy_map dst src = foldl (\<lambda>cp (k, v). AList.update k v cp) dst src"

definition range_order :: "('a list \<Rightarrow> 'a list) \<Rightarrow> bool" where
  "range_order order \<longleftrightarrow> (\<forall>xs. mset (order xs) = mset xs)"

section \<open>Lemmas\<close>

lemma alist_all:
  "distinct (map fst m) \<Longrightarrow> (\<forall>(k, v)\<in>set m. P k v) \<longleftrightarrow> (\<forall>k v. map_of m k = Some v \<longrightarrow> P k v)"
  by (auto simp: map_of_eq_Some_iff)

declare map_of_eq_Some_iff [simp del]

lemmas alist_maps = update_conv' delete_conv' distinct_update distinct_delete

lemma map_get_Some [simp]: "map_of m k = Some v \<Longrightarrow> map_get z m k = v"
  by (simp add: map_get_def)

lemma map_get_None [simp]: "map_of m k = None \<Longrightarrow> map_get z m k = z"
  by (simp add: map_get_def)

lemma map_get_update: "map_get z (AList.update k v m) k' = (if k' = k then v else map_get z m k')"
  by (simp add: map_get_def update_conv')

lemma range_orderD:
  assumes "range_order order"
  shows "set (order xs) = set xs" and "length (order xs) = length xs" and "mset (order xs) = mset xs"
    and "mset (map f (order xs)) = mset (map f xs)" and "distinct (map f (order xs)) \<longleftrightarrow> distinct (map f xs)"
proof -
  show m: "mset (order xs) = mset xs" using assms by (simp add: range_order_def)
  then show "set (order xs) = set xs" "length (order xs) = length xs" by (metis set_mset_mset, metis size_mset)
  show f: "mset (map f (order xs)) = mset (map f xs)" using m by simp
  then show "distinct (map f (order xs)) \<longleftrightarrow> distinct (map f xs)" by (rule mset_eq_imp_distinct_iff)
qed

lemma range_order_map_of:
  assumes "range_order order" and "distinct (map fst m)"
  shows "map_of (order m) = map_of m"
  using assms map_of_inject_set[of "order m" m] range_orderD[OF assms(1)] by blast

lemma update_fresh: "k \<notin> fst ` set m \<Longrightarrow> AList.update k v m = m @ [(k, v)]"
  by (induction m) auto

lemma copy_map_append: "distinct (map fst (dst @ src)) \<Longrightarrow> copy_map dst src = dst @ src"
proof (induction src arbitrary: dst)
  case (Cons kv src)
  obtain k v where "kv = (k, v)" by fastforce
  with Cons show ?case by (simp add: copy_map_def update_fresh)
qed (simp add: copy_map_def)

end
