(* ===== verification/MetaCommands.thy ===== *)
theory MetaCommands
  imports EventCommands Maps
begin

text \<open>
  The commands of the metadata shard, \<open>src/pkg/raft/metadata/commands.go\<close>: the
  topology of a shard and the registration of a node's client address. Encoders write into a
  buffer of computed size with the primitives of theory \<open>EventCommands\<close>; the order in
  which each of the four node maps is ranged over is an argument.

  The lemmas give the layout, the round trip of every topology that fits the wire format and
  the instances of \<open>command_codec\<close>.
\<close>

section \<open>Definitions\<close>

definition MetadataShardID :: u64 where
  "MetadataShardID = 0"

definition UpdateTopologyCmd :: byte where
  "UpdateTopologyCmd = 0"

definition RegisterNodeAddrCmd :: byte where
  "RegisterNodeAddrCmd = 1"

type_synonym node_map = "(u64 \<times> string) list"

record ShardTopology =
  t_ShardID :: u64
  t_LeaderID :: u64
  t_LeaderAddr :: string
  t_Term :: u64
  t_Epoch :: u64
  t_Nodes :: node_map
  t_NonVotings :: node_map
  t_Witnesses :: node_map
  t_GrpcAddrs :: node_map
  t_ConfigChangeID :: u64

record TopologySnapshot =
  tp_Shards :: "(u64 \<times> ShardTopology) list"
  tp_Epoch :: u64

subsection \<open>Encoding\<close>

text \<open>Consecutive \<open>PutUint64\<close> with \<open>pos += 8\<close> after each.\<close>

fun put_uint64s :: "bytes \<Rightarrow> nat \<Rightarrow> u64 list \<Rightarrow> (bytes \<times> nat) go" where
  "put_uint64s out pos [] = Ret (out, pos)"
| "put_uint64s out pos (v # vs) = bind_go (put_at out pos (be_put 8 v)) (\<lambda>out1. put_uint64s out1 (pos + 8) vs)"

fun marshal_node_entries :: "bytes \<Rightarrow> nat \<Rightarrow> node_map \<Rightarrow> (bytes \<times> nat) go" where
  "marshal_node_entries out pos [] = Ret (out, pos)"
| "marshal_node_entries out pos ((i, addr) # m) =
    bind_go (put_at out pos (be_put 8 i)) (\<lambda>out1.
    bind_go (put_at out1 (pos + 8) (be_put 2 (of_nat (length addr) :: u16))) (\<lambda>out2.
    bind_go (copy_at out2 (pos + 8 + 2) (bytes_of_string addr)) (\<lambda>out3.
    marshal_node_entries out3 (pos + 8 + 2 + length addr) m)))"

definition marshalNodeMap :: "(node_map \<Rightarrow> node_map) \<Rightarrow> bytes \<Rightarrow> nat \<Rightarrow> node_map \<Rightarrow> (bytes \<times> nat) go" where
  "marshalNodeMap order out pos m =
    bind_go (put_at out pos (be_put 2 (of_nat (length m) :: u16))) (\<lambda>out1.
    marshal_node_entries out1 (pos + 2) (order m))"

definition node_map_size :: "node_map \<Rightarrow> nat" where
  "node_map_size m = 2 + sum_list (map (\<lambda>(i, addr). 8 + 2 + length addr) m)"

definition MarshalUpdateTopologyCmd :: "(nat \<Rightarrow> node_map \<Rightarrow> node_map) \<Rightarrow> ShardTopology \<Rightarrow> (goerror + bytes) go" where
  "MarshalUpdateTopologyCmd order t =
    (let size = 1 + 8 * 5 + 2 + length (t_LeaderAddr t) +
           sum_list (map node_map_size [t_Nodes t, t_NonVotings t, t_Witnesses t, t_GrpcAddrs t]);
         out = replicate size 0
     in bind_go (put_at out 0 [UpdateTopologyCmd]) (\<lambda>out1.
        bind_go (put_uint64s out1 1 [t_ShardID t, t_LeaderID t, t_Term t, t_Epoch t, t_ConfigChangeID t]) (\<lambda>(out2, pos2).
        bind_go (put_at out2 pos2 (be_put 2 (of_nat (length (t_LeaderAddr t)) :: u16))) (\<lambda>out3.
        bind_go (copy_at out3 (pos2 + 2) (bytes_of_string (t_LeaderAddr t))) (\<lambda>out4.
        bind_go (marshalNodeMap (order 0) out4 (pos2 + 2 + length (t_LeaderAddr t)) (t_Nodes t)) (\<lambda>(out5, pos5).
        bind_go (marshalNodeMap (order 1) out5 pos5 (t_NonVotings t)) (\<lambda>(out6, pos6).
        bind_go (marshalNodeMap (order 2) out6 pos6 (t_Witnesses t)) (\<lambda>(out7, pos7).
        bind_go (marshalNodeMap (order 3) out7 pos7 (t_GrpcAddrs t)) (\<lambda>(out8, pos8).
        Ret (Inr out8))))))))))"

definition MarshalRegisterNodeAddrCmd :: "u64 \<Rightarrow> string \<Rightarrow> (goerror + bytes) go" where
  "MarshalRegisterNodeAddrCmd nodeID grpcAddr =
    (let out = replicate (1 + 8 + 2 + length grpcAddr) 0
     in bind_go (put_at out 0 [RegisterNodeAddrCmd]) (\<lambda>out1.
        bind_go (put_at out1 1 (be_put 8 nodeID)) (\<lambda>out2.
        bind_go (put_at out2 9 (be_put 2 (of_nat (length grpcAddr) :: u16))) (\<lambda>out3.
        bind_go (copy_at out3 11 (bytes_of_string grpcAddr)) (\<lambda>out4.
        Ret (Inr out4))))))"

subsection \<open>Decoding\<close>

text \<open>Every read is behind a length check, so decoding does not panic.\<close>

fun unmarshal_node_entries :: "bytes \<Rightarrow> nat \<Rightarrow> nat \<Rightarrow> nat \<Rightarrow> node_map \<Rightarrow> goerror + node_map \<times> nat" where
  "unmarshal_node_entries data pos i 0 m = Inr (m, pos)"
| "unmarshal_node_entries data pos i (Suc n) m =
    (if pos + 8 + 2 > length data then Inl (Errorf ''truncated at entry %d'' [i])
     else let nid = be_get (slice_of data pos (pos + 8)) :: u64;
              addrLen = unat (be_get (slice_of data (pos + 8) (pos + 10)) :: u16)
       in if pos + 10 + addrLen > length data then Inl (Errorf ''truncated at entry %d addr'' [i])
          else unmarshal_node_entries data (pos + 10 + addrLen) (i + 1) n
            (AList.update nid (string_of_bytes (slice_of data (pos + 10) (pos + 10 + addrLen))) m))"

definition unmarshalNodeMap :: "bytes \<Rightarrow> nat \<Rightarrow> goerror + node_map \<times> nat" where
  "unmarshalNodeMap data pos =
    (if pos + 2 > length data then Inl (Errorf ''truncated at count'' [])
     else unmarshal_node_entries data (pos + 2) 0 (unat (be_get (slice_of data pos (pos + 2)) :: u16)) [])"

definition UnmarshalUpdateTopologyCmd :: "bytes \<Rightarrow> goerror + ShardTopology" where
  "UnmarshalUpdateTopologyCmd data =
    (if length data < 1 + 8 * 5 + 2
     then Inl (Errorf ''metadata: UpdateTopologyCmd too short: %d bytes'' [length data])
     else if data ! 0 \<noteq> UpdateTopologyCmd
     then Inl (Errorf ''metadata: expected UpdateTopologyCmd (0), got %d'' [unat (data ! 0)])
     else let addrLen = unat (be_get (slice_of data 41 43) :: u16) in
       if 43 + addrLen > length data then Inl (Errorf ''metadata: UpdateTopologyCmd truncated at LeaderAddr'' [])
       else case unmarshalNodeMap data (43 + addrLen) of
         Inl err \<Rightarrow> Inl (Wrap ''metadata: nodes'' err)
       | Inr (nodes, pos1) \<Rightarrow>
          (case unmarshalNodeMap data pos1 of
             Inl err \<Rightarrow> Inl (Wrap ''metadata: nonVotings'' err)
           | Inr (nonVotings, pos2) \<Rightarrow>
              (case unmarshalNodeMap data pos2 of
                 Inl err \<Rightarrow> Inl (Wrap ''metadata: witnesses'' err)
               | Inr (witnesses, pos3) \<Rightarrow>
                  (case unmarshalNodeMap data pos3 of
                     Inl err \<Rightarrow> Inl (Wrap ''metadata: grpcAddrs'' err)
                   | Inr (grpcAddrs, _) \<Rightarrow>
                      Inr \<lparr>t_ShardID = be_get (slice_of data 1 9), t_LeaderID = be_get (slice_of data 9 17),
                        t_LeaderAddr = string_of_bytes (slice_of data 43 (43 + addrLen)),
                        t_Term = be_get (slice_of data 17 25), t_Epoch = be_get (slice_of data 25 33),
                        t_Nodes = nodes, t_NonVotings = nonVotings, t_Witnesses = witnesses, t_GrpcAddrs = grpcAddrs,
                        t_ConfigChangeID = be_get (slice_of data 33 41)\<rparr>))))"

definition UnmarshalRegisterNodeAddrCmd :: "bytes \<Rightarrow> goerror + u64 \<times> string" where
  "UnmarshalRegisterNodeAddrCmd data =
    (if length data < 1 + 8 + 2
     then Inl (Errorf ''metadata: RegisterNodeAddrCmd too short: %d bytes'' [length data])
     else if data ! 0 \<noteq> RegisterNodeAddrCmd
     then Inl (Errorf ''metadata: expected RegisterNodeAddrCmd (1), got %d'' [unat (data ! 0)])
     else let addrLen = unat (be_get (slice_of data 9 11) :: u16) in
       if 11 + addrLen > length data then Inl (Errorf ''metadata: RegisterNodeAddrCmd truncated at addr'' [])
       else Inr (be_get (slice_of data 1 9), string_of_bytes (slice_of data 11 (11 + addrLen))))"

subsection \<open>The wire format\<close>

definition wire_nodes :: "node_map \<Rightarrow> bytes" where
  "wire_nodes m = concat (map (\<lambda>(i, addr). be_put 8 i @ be_put 2 (of_nat (length addr) :: u16) @ bytes_of_string addr) m)"

definition wire_node_map :: "node_map \<Rightarrow> bytes" where
  "wire_node_map m = be_put 2 (of_nat (length m) :: u16) @ wire_nodes m"

definition wire_topology :: "ShardTopology \<Rightarrow> bytes" where
  "wire_topology t = UpdateTopologyCmd # be_put 8 (t_ShardID t) @ be_put 8 (t_LeaderID t) @ be_put 8 (t_Term t) @
    be_put 8 (t_Epoch t) @ be_put 8 (t_ConfigChangeID t) @ be_put 2 (of_nat (length (t_LeaderAddr t)) :: u16) @
    bytes_of_string (t_LeaderAddr t) @ wire_node_map (t_Nodes t) @ wire_node_map (t_NonVotings t) @
    wire_node_map (t_Witnesses t) @ wire_node_map (t_GrpcAddrs t)"

definition wire_register :: "u64 \<Rightarrow> string \<Rightarrow> bytes" where
  "wire_register nodeID addr = RegisterNodeAddrCmd # be_put 8 nodeID @ be_put 2 (of_nat (length addr) :: u16) @ bytes_of_string addr"

text \<open>A topology with its maps listed in the order they are ranged over.\<close>

definition reorder :: "(nat \<Rightarrow> node_map \<Rightarrow> node_map) \<Rightarrow> ShardTopology \<Rightarrow> ShardTopology" where
  "reorder order t = t\<lparr>t_Nodes := order 0 (t_Nodes t), t_NonVotings := order 1 (t_NonVotings t),
     t_Witnesses := order 2 (t_Witnesses t), t_GrpcAddrs := order 3 (t_GrpcAddrs t)\<rparr>"

text \<open>Counts and lengths that fit the two-byte fields.\<close>

definition node_map_fits :: "node_map \<Rightarrow> bool" where
  "node_map_fits m \<longleftrightarrow> distinct (map fst m) \<and> length m < 65536 \<and> list_all (\<lambda>(i, addr). length addr < 65536) m"

definition topology_fits :: "ShardTopology \<Rightarrow> bool" where
  "topology_fits t \<longleftrightarrow> length (t_LeaderAddr t) < 65536 \<and>
    list_all node_map_fits [t_Nodes t, t_NonVotings t, t_Witnesses t, t_GrpcAddrs t]"

text \<open>The same topology, whatever the order its maps are listed in.\<close>

definition same_topology :: "ShardTopology \<Rightarrow> ShardTopology \<Rightarrow> bool" where
  "same_topology t u \<longleftrightarrow> t_ShardID t = t_ShardID u \<and> t_LeaderID t = t_LeaderID u \<and> t_LeaderAddr t = t_LeaderAddr u \<and>
    t_Term t = t_Term u \<and> t_Epoch t = t_Epoch u \<and> t_ConfigChangeID t = t_ConfigChangeID u \<and>
    map_of (t_Nodes t) = map_of (t_Nodes u) \<and> map_of (t_NonVotings t) = map_of (t_NonVotings u) \<and>
    map_of (t_Witnesses t) = map_of (t_Witnesses u) \<and> map_of (t_GrpcAddrs t) = map_of (t_GrpcAddrs u)"

section \<open>Encoding fills the buffer\<close>

lemma wire_nodes_simps [simp]:
  "wire_nodes [] = []"
  "wire_nodes ((i, addr) # m) = be_put 8 i @ be_put 2 (of_nat (length addr) :: u16) @ bytes_of_string addr @ wire_nodes m"
  by (simp_all add: wire_nodes_def)

lemma length_wire_node_map: "length (wire_node_map m) = node_map_size m"
proof -
  have "length (wire_nodes m) = sum_list (map (\<lambda>(i, addr). 8 + 2 + length addr) m)"
    by (induction m) auto
  then show ?thesis by (simp add: wire_node_map_def node_map_size_def)
qed

lemma node_map_size_order: "range_order order \<Longrightarrow> node_map_size (order m) = node_map_size m"
  using range_orderD(4)[of order "\<lambda>(i, addr). 8 + 2 + length addr" m]
  by (simp add: node_map_size_def flip: sum_mset_sum_list)

lemma marshal_node_entries_wire:
  "pos = length pre \<Longrightarrow> length (wire_nodes m) \<le> length rest \<Longrightarrow>
    marshal_node_entries (pre @ rest) pos m =
    Ret ((pre @ wire_nodes m) @ drop (length (wire_nodes m)) rest, pos + length (wire_nodes m))"
proof (induction m arbitrary: pre pos rest)
  case (Cons ia m)
  obtain i addr where ia: "ia = (i, addr)" by fastforce
  let ?i = "be_put 8 i" and ?l = "be_put 2 (of_nat (length addr) :: u16)" and ?a = "bytes_of_string addr"
  have "put_at (pre @ rest) pos ?i = Ret ((pre @ ?i) @ drop 8 rest)"
    using Cons.prems ia by (subst put_at_append) simp_all
  moreover have "put_at ((pre @ ?i) @ drop 8 rest) (pos + 8) ?l = Ret ((pre @ ?i @ ?l) @ drop 10 rest)"
    using Cons.prems ia by (subst put_at_append) simp_all
  moreover have "copy_at ((pre @ ?i @ ?l) @ drop 10 rest) (pos + 8 + 2) ?a =
      Ret ((pre @ ?i @ ?l @ ?a) @ drop (10 + length addr) rest)"
    using Cons.prems ia by (subst copy_at_append) (simp_all add: add.commute)
  moreover have "marshal_node_entries ((pre @ ?i @ ?l @ ?a) @ drop (10 + length addr) rest) (pos + 8 + 2 + length addr) m =
      Ret (((pre @ ?i @ ?l @ ?a) @ wire_nodes m) @ drop (length (wire_nodes m)) (drop (10 + length addr) rest),
        pos + 8 + 2 + length addr + length (wire_nodes m))"
    using Cons.prems ia by (intro Cons.IH) simp_all
  ultimately show ?case by (simp add: ia ac_simps)
qed simp

lemma marshalNodeMap_wire:
  assumes "pos = length pre" and "node_map_size m \<le> length rest" and "range_order order"
  shows "marshalNodeMap order (pre @ rest) pos m =
    Ret ((pre @ wire_node_map (order m)) @ drop (node_map_size m) rest, pos + node_map_size m)"
proof -
  let ?n = "be_put 2 (of_nat (length m) :: u16)"
  have size: "length (wire_nodes (order m)) + 2 = node_map_size m"
    using node_map_size_order[OF assms(3), of m] length_wire_node_map[of "order m"] by (simp add: wire_node_map_def)
  have "put_at (pre @ rest) pos ?n = Ret ((pre @ ?n) @ drop 2 rest)"
    using assms(1,2) size by (subst put_at_append) simp_all
  moreover have "marshal_node_entries ((pre @ ?n) @ drop 2 rest) (pos + 2) (order m) =
      Ret (((pre @ ?n) @ wire_nodes (order m)) @ drop (length (wire_nodes (order m))) (drop 2 rest),
        pos + 2 + length (wire_nodes (order m)))"
    using assms(1,2) size by (intro marshal_node_entries_wire) simp_all
  ultimately show ?thesis
    using size by (simp add: marshalNodeMap_def wire_node_map_def range_orderD(2)[OF assms(3)] ac_simps)
qed

lemma put_uint64s_wire:
  "pos = length pre \<Longrightarrow> 8 * length vs \<le> length rest \<Longrightarrow>
    put_uint64s (pre @ rest) pos vs =
    Ret ((pre @ concat (map (be_put 8) vs)) @ drop (8 * length vs) rest, pos + 8 * length vs)"
proof (induction vs arbitrary: pre pos rest)
  case (Cons v vs)
  have "put_at (pre @ rest) pos (be_put 8 v) = Ret ((pre @ be_put 8 v) @ drop 8 rest)"
    using Cons.prems by (subst put_at_append) simp_all
  then show ?case
    using Cons.prems Cons.IH[of "pos + 8" "pre @ be_put 8 v" "drop 8 rest"] by (simp add: add.commute)
qed simp


lemma MarshalUpdateTopologyCmd_wire:
  assumes ord: "\<And>n. range_order (order n)"
  shows "MarshalUpdateTopologyCmd order t = Ret (Inr (wire_topology (reorder order t)))"
proof -
  let ?vs = "[t_ShardID t, t_LeaderID t, t_Term t, t_Epoch t, t_ConfigChangeID t]"
  let ?V = "concat (map (be_put 8) ?vs)" and ?l = "be_put 2 (of_nat (length (t_LeaderAddr t)) :: u16)"
  let ?A = "bytes_of_string (t_LeaderAddr t)" and ?a = "length (t_LeaderAddr t)"
  let ?s0 = "node_map_size (t_Nodes t)" and ?s1 = "node_map_size (t_NonVotings t)"
    and ?s2 = "node_map_size (t_Witnesses t)" and ?s3 = "node_map_size (t_GrpcAddrs t)"
  let ?w0 = "wire_node_map (order 0 (t_Nodes t))" and ?w1 = "wire_node_map (order 1 (t_NonVotings t))"
    and ?w2 = "wire_node_map (order 2 (t_Witnesses t))" and ?w3 = "wire_node_map (order 3 (t_GrpcAddrs t))"
  let ?N = "?s0 + ?s1 + ?s2 + ?s3" and ?z = "\<lambda>n. replicate n (0 :: byte)"
  let ?p = "[UpdateTopologyCmd] @ ?V @ ?l @ ?A"
  have len: "length ?w0 = ?s0" "length ?w1 = ?s1" "length ?w2 = ?s2" "length ?w3 = ?s3"
    using ord by (simp_all add: length_wire_node_map node_map_size_order)
  have 1: "put_at (?z (43 + ?a + ?N)) 0 [UpdateTopologyCmd] = Ret ([UpdateTopologyCmd] @ ?z (42 + ?a + ?N))"
    by (simp add: put_at_def)
  have 2: "put_uint64s ([UpdateTopologyCmd] @ ?z (42 + ?a + ?N)) 1 ?vs =
      Ret (([UpdateTopologyCmd] @ ?V) @ ?z (2 + ?a + ?N), 41)"
    by (subst put_uint64s_wire) simp_all
  have 3: "put_at (([UpdateTopologyCmd] @ ?V) @ ?z (2 + ?a + ?N)) 41 ?l = Ret (([UpdateTopologyCmd] @ ?V @ ?l) @ ?z (?a + ?N))"
    by (subst put_at_append) simp_all
  have 4: "copy_at (([UpdateTopologyCmd] @ ?V @ ?l) @ ?z (?a + ?N)) 43 ?A = Ret (?p @ ?z ?N)"
    by (subst copy_at_append) simp_all
  have 5: "marshalNodeMap (order 0) (?p @ ?z ?N) (43 + ?a) (t_Nodes t) = Ret ((?p @ ?w0) @ ?z (?s1 + ?s2 + ?s3), 43 + ?a + ?s0)"
    using ord by (subst marshalNodeMap_wire) simp_all
  have 6: "marshalNodeMap (order 1) ((?p @ ?w0) @ ?z (?s1 + ?s2 + ?s3)) (43 + ?a + ?s0) (t_NonVotings t) =
      Ret ((?p @ ?w0 @ ?w1) @ ?z (?s2 + ?s3), 43 + ?a + ?s0 + ?s1)"
    using ord len by (subst marshalNodeMap_wire) simp_all
  have 7: "marshalNodeMap (order 2) ((?p @ ?w0 @ ?w1) @ ?z (?s2 + ?s3)) (43 + ?a + ?s0 + ?s1) (t_Witnesses t) =
      Ret ((?p @ ?w0 @ ?w1 @ ?w2) @ ?z ?s3, 43 + ?a + ?s0 + ?s1 + ?s2)"
    using ord len by (subst marshalNodeMap_wire) simp_all
  have 8: "marshalNodeMap (order 3) ((?p @ ?w0 @ ?w1 @ ?w2) @ ?z ?s3) (43 + ?a + ?s0 + ?s1 + ?s2) (t_GrpcAddrs t) =
      Ret (?p @ ?w0 @ ?w1 @ ?w2 @ ?w3, 43 + ?a + ?N)"
    using ord len by (subst marshalNodeMap_wire) simp_all
  have size: "1 + 8 * 5 + 2 + ?a + sum_list (map node_map_size [t_Nodes t, t_NonVotings t, t_Witnesses t, t_GrpcAddrs t]) = 43 + ?a + ?N"
    by simp
  have pos: "41 + 2 = (43 :: nat)" by simp
  have "MarshalUpdateTopologyCmd order t = Ret (Inr (?p @ ?w0 @ ?w1 @ ?w2 @ ?w3))"
    unfolding MarshalUpdateTopologyCmd_def Let_def size by (simp only: bind_go.simps prod.case pos 1 2 3 4 5 6 7 8)
  then show ?thesis by (simp add: wire_topology_def reorder_def)
qed

lemma MarshalRegisterNodeAddrCmd_wire: "MarshalRegisterNodeAddrCmd nodeID addr = Ret (Inr (wire_register nodeID addr))"
proof -
  let ?a = "length addr" and ?z = "\<lambda>n. replicate n (0 :: byte)" and ?i = "be_put 8 nodeID"
    and ?l = "be_put 2 (of_nat (length addr) :: u16)"
  have "put_at (?z (1 + 8 + 2 + ?a)) 0 [RegisterNodeAddrCmd] = Ret ([RegisterNodeAddrCmd] @ ?z (10 + ?a))"
    by (simp add: put_at_def)
  moreover have "put_at ([RegisterNodeAddrCmd] @ ?z (10 + ?a)) 1 ?i = Ret (([RegisterNodeAddrCmd] @ ?i) @ ?z (2 + ?a))"
    by (subst put_at_append) simp_all
  moreover have "put_at (([RegisterNodeAddrCmd] @ ?i) @ ?z (2 + ?a)) 9 ?l = Ret (([RegisterNodeAddrCmd] @ ?i @ ?l) @ ?z ?a)"
    by (subst put_at_append) simp_all
  moreover have "copy_at (([RegisterNodeAddrCmd] @ ?i @ ?l) @ ?z ?a) 11 (bytes_of_string addr) =
      Ret ([RegisterNodeAddrCmd] @ ?i @ ?l @ bytes_of_string addr)"
    by (subst copy_at_append) simp_all
  ultimately show ?thesis by (simp add: MarshalRegisterNodeAddrCmd_def Let_def wire_register_def)
qed

section \<open>Decoding inverts encoding\<close>

lemma unmarshal_node_entries_wire:
  "pos = length pre \<Longrightarrow> list_all (\<lambda>(i, addr). length addr < 65536) m \<Longrightarrow> distinct (map fst (acc @ m)) \<Longrightarrow>
    unmarshal_node_entries (pre @ wire_nodes m @ post) pos j (length m) acc = Inr (acc @ m, pos + length (wire_nodes m))"
proof (induction m arbitrary: pre pos j acc)
  case (Cons ia m)
  obtain i addr where ia: "ia = (i, addr)" by fastforce
  let ?hd = "pre @ be_put 8 i @ be_put 2 (of_nat (length addr) :: u16) @ bytes_of_string addr"
  have "unmarshal_node_entries (?hd @ wire_nodes m @ post) pos j (Suc (length m)) acc =
      unmarshal_node_entries (?hd @ wire_nodes m @ post) (pos + 10 + length addr) (j + 1) (length m) (AList.update i addr acc)"
    using Cons.prems ia by (simp add: slice_of_def unat_length_word Let_def)
  also have "AList.update i addr acc = acc @ [ia]" using Cons.prems(3) ia by (simp add: update_fresh)
  also have "unmarshal_node_entries (?hd @ wire_nodes m @ post) (pos + 10 + length addr) (j + 1) (length m) (acc @ [ia]) =
      Inr ((acc @ [ia]) @ m, pos + 10 + length addr + length (wire_nodes m))"
    using Cons.prems ia by (intro Cons.IH) simp_all
  finally show ?case by (simp add: ia)
qed simp

lemma unmarshalNodeMap_wire:
  assumes "node_map_fits m" and "pos = length pre"
  shows "unmarshalNodeMap (pre @ wire_node_map m @ post) pos = Inr (m, pos + node_map_size m)"
proof -
  have "slice_of (pre @ wire_node_map m @ post) pos (pos + 2) = be_put 2 (of_nat (length m) :: u16)"
    using assms(2) by (simp add: slice_of_def wire_node_map_def)
  moreover have "unmarshal_node_entries (pre @ wire_node_map m @ post) (pos + 2) 0 (length m) [] =
      Inr (m, pos + 2 + length (wire_nodes m))"
    using unmarshal_node_entries_wire[of "pos + 2" "pre @ be_put 2 (of_nat (length m) :: u16)" m "[]" post 0] assms
    by (simp add: node_map_fits_def wire_node_map_def)
  moreover have "2 + length (wire_nodes m) = node_map_size m"
    using length_wire_node_map[of m] by (simp add: wire_node_map_def)
  ultimately show ?thesis
    using assms by (simp add: unmarshalNodeMap_def unat_length_word node_map_fits_def wire_node_map_def add.assoc)
qed

lemma UnmarshalUpdateTopologyCmd_wire:
  assumes "topology_fits t"
  shows "UnmarshalUpdateTopologyCmd (wire_topology t @ post) = Inr t"
proof -
  let ?a = "length (t_LeaderAddr t)"
  let ?hd = "UpdateTopologyCmd # be_put 8 (t_ShardID t) @ be_put 8 (t_LeaderID t) @ be_put 8 (t_Term t) @
    be_put 8 (t_Epoch t) @ be_put 8 (t_ConfigChangeID t) @ be_put 2 (of_nat ?a :: u16) @ bytes_of_string (t_LeaderAddr t)"
  let ?w0 = "wire_node_map (t_Nodes t)" and ?w1 = "wire_node_map (t_NonVotings t)"
    and ?w2 = "wire_node_map (t_Witnesses t)" and ?w3 = "wire_node_map (t_GrpcAddrs t)"
  let ?s0 = "node_map_size (t_Nodes t)" and ?s1 = "node_map_size (t_NonVotings t)" and ?s2 = "node_map_size (t_Witnesses t)"
  define data where "data = ?hd @ ?w0 @ ?w1 @ ?w2 @ ?w3 @ post"
  have fits: "?a < 65536" "node_map_fits (t_Nodes t)" "node_map_fits (t_NonVotings t)" "node_map_fits (t_Witnesses t)"
      "node_map_fits (t_GrpcAddrs t)"
    using assms by (simp_all add: topology_fits_def)
  have "unmarshalNodeMap data (43 + ?a) = Inr (t_Nodes t, 43 + ?a + ?s0)"
    unfolding data_def using unmarshalNodeMap_wire[OF fits(2), of "43 + ?a" ?hd "?w1 @ ?w2 @ ?w3 @ post"] by simp
  moreover have "unmarshalNodeMap data (43 + ?a + ?s0) = Inr (t_NonVotings t, 43 + ?a + ?s0 + ?s1)"
    unfolding data_def using unmarshalNodeMap_wire[OF fits(3), of "43 + ?a + ?s0" "?hd @ ?w0" "?w2 @ ?w3 @ post"]
    by (simp add: length_wire_node_map)
  moreover have "unmarshalNodeMap data (43 + ?a + ?s0 + ?s1) = Inr (t_Witnesses t, 43 + ?a + ?s0 + ?s1 + ?s2)"
    unfolding data_def using unmarshalNodeMap_wire[OF fits(4), of "43 + ?a + ?s0 + ?s1" "?hd @ ?w0 @ ?w1" "?w3 @ post"]
    by (simp add: length_wire_node_map)
  moreover have "\<exists>p. unmarshalNodeMap data (43 + ?a + ?s0 + ?s1 + ?s2) = Inr (t_GrpcAddrs t, p)"
    unfolding data_def using unmarshalNodeMap_wire[OF fits(5), of "43 + ?a + ?s0 + ?s1 + ?s2" "?hd @ ?w0 @ ?w1 @ ?w2" post]
    by (simp add: length_wire_node_map)
  moreover have "43 + ?a \<le> length data" "data ! 0 = UpdateTopologyCmd" "slice_of data 41 43 = be_put 2 (of_nat ?a :: u16)"
      "slice_of data 1 9 = be_put 8 (t_ShardID t)" "slice_of data 9 17 = be_put 8 (t_LeaderID t)"
      "slice_of data 17 25 = be_put 8 (t_Term t)" "slice_of data 25 33 = be_put 8 (t_Epoch t)"
      "slice_of data 33 41 = be_put 8 (t_ConfigChangeID t)" "slice_of data 43 (43 + ?a) = bytes_of_string (t_LeaderAddr t)"
    by (simp_all add: data_def slice_of_def)
  ultimately have "UnmarshalUpdateTopologyCmd data = Inr t"
    using fits(1) by (auto simp: UnmarshalUpdateTopologyCmd_def Let_def unat_length_word)
  then show ?thesis by (simp add: data_def wire_topology_def)
qed

lemma UnmarshalRegisterNodeAddrCmd_wire:
  assumes "length addr < 65536"
  shows "UnmarshalRegisterNodeAddrCmd (wire_register nodeID addr @ post) = Inr (nodeID, addr)"
proof -
  let ?data = "wire_register nodeID addr @ post"
  have "11 + length addr \<le> length ?data" "?data ! 0 = RegisterNodeAddrCmd" "slice_of ?data 1 9 = be_put 8 nodeID"
      "slice_of ?data 9 11 = be_put 2 (of_nat (length addr) :: u16)" "slice_of ?data 11 (11 + length addr) = bytes_of_string addr"
    by (simp_all add: wire_register_def slice_of_def)
  with assms show ?thesis by (simp add: UnmarshalRegisterNodeAddrCmd_def Let_def unat_length_word)
qed

lemma id_order [simp]: "range_order id" "range_order (\<lambda>xs. xs)"
  by (simp_all add: range_order_def)

interpretation topology_cmd: command_codec "MarshalUpdateTopologyCmd (\<lambda>_. id)" "\<lambda>cmd. Ret (UnmarshalUpdateTopologyCmd cmd)"
    topology_fits UpdateTopologyCmd
proof
  fix t assume "topology_fits t"
  moreover have "reorder (\<lambda>_. id) t = t" by (simp add: reorder_def)
  ultimately show "\<exists>cmd. MarshalUpdateTopologyCmd (\<lambda>_. id) t = Ret (Inr cmd) \<and> Ret (UnmarshalUpdateTopologyCmd cmd) = Ret (Inr t)"
    using MarshalUpdateTopologyCmd_wire[of "\<lambda>_. id" t] UnmarshalUpdateTopologyCmd_wire[of t "[]"] by simp
next
  fix cmd t assume "Ret (UnmarshalUpdateTopologyCmd cmd) = Ret (Inr t)"
  then show "cmd \<noteq> [] \<and> cmd ! 0 = UpdateTopologyCmd"
    by (auto simp: UnmarshalUpdateTopologyCmd_def split: if_splits)
qed

interpretation register_cmd: command_codec "\<lambda>(nodeID, addr). MarshalRegisterNodeAddrCmd nodeID addr"
    "\<lambda>cmd. Ret (UnmarshalRegisterNodeAddrCmd cmd)" "\<lambda>(nodeID, addr). length addr < 65536" RegisterNodeAddrCmd
proof
  fix x :: "u64 \<times> string" assume "case x of (nodeID, addr) \<Rightarrow> length addr < 65536"
  then show "\<exists>cmd. (case x of (nodeID, addr) \<Rightarrow> MarshalRegisterNodeAddrCmd nodeID addr) = Ret (Inr cmd) \<and>
      Ret (UnmarshalRegisterNodeAddrCmd cmd) = Ret (Inr x)"
    using UnmarshalRegisterNodeAddrCmd_wire[where post = "[]"] by (auto simp: MarshalRegisterNodeAddrCmd_wire)
next
  fix cmd x assume "Ret (UnmarshalRegisterNodeAddrCmd cmd) = Ret (Inr x)"
  then show "cmd \<noteq> [] \<and> cmd ! 0 = RegisterNodeAddrCmd"
    by (auto simp: UnmarshalRegisterNodeAddrCmd_def split: if_splits)
qed

lemma topology_fits_reorder:
  assumes "\<And>n. range_order (order n)"
  shows "topology_fits (reorder order t) \<longleftrightarrow> topology_fits t"
proof -
  have "node_map_fits (order n m) \<longleftrightarrow> node_map_fits m" for n m
    by (simp add: node_map_fits_def range_orderD[OF assms] list_all_iff)
  then show ?thesis by (simp add: topology_fits_def reorder_def)
qed

lemma same_topology_reorder:
  assumes "\<And>n. range_order (order n)" and "topology_fits t"
  shows "same_topology (reorder order t) t"
proof -
  have "node_map_fits m \<Longrightarrow> map_of (order n m) = map_of m" for n m
    by (rule range_order_map_of[OF assms(1)]) (simp add: node_map_fits_def)
  with assms(2) show ?thesis by (simp add: same_topology_def reorder_def topology_fits_def)
qed

section \<open>Properties\<close>

text \<open>C24: the metadata commands survive the wire: whatever order the node maps are ranged over,
  encoding never fails or leaves its buffer, and decoding, also with bytes following, gives
  back the same topology, or the same node and address, whenever the counts and lengths fit
  their two-byte fields.\<close>

theorem metadata_commands_roundtrip:
  assumes "\<forall>n. range_order (order n)" and "topology_fits t" and "length addr < 65536"
  shows "\<exists>cmd t'. MarshalUpdateTopologyCmd order t = Ret (Inr cmd) \<and>
      UnmarshalUpdateTopologyCmd (cmd @ post) = Inr t' \<and> same_topology t' t \<and> topology_fits t' \<and>
    (\<exists>cmd. MarshalRegisterNodeAddrCmd nodeID addr = Ret (Inr cmd) \<and>
      UnmarshalRegisterNodeAddrCmd (cmd @ post) = Inr (nodeID, addr))"
  using MarshalUpdateTopologyCmd_wire[of order t] UnmarshalUpdateTopologyCmd_wire[of "reorder order t" post]
    topology_fits_reorder[of order t] same_topology_reorder[of order t] MarshalRegisterNodeAddrCmd_wire
    UnmarshalRegisterNodeAddrCmd_wire assms by simp

theorem metadata_commands_roundtrip_witness:
  "let t = \<lparr>t_ShardID = 1, t_LeaderID = 2, t_LeaderAddr = ''b:1'', t_Term = 3, t_Epoch = 4, t_Nodes = [(1, ''a''), (2, ''b'')],
       t_NonVotings = [], t_Witnesses = [], t_GrpcAddrs = [(2, ''b:1'')], t_ConfigChangeID = 5\<rparr>
   in \<exists>cmd t'. MarshalUpdateTopologyCmd (\<lambda>_. rev) t = Ret (Inr cmd) \<and> UnmarshalUpdateTopologyCmd (cmd @ []) = Inr t' \<and> same_topology t' t"
  using metadata_commands_roundtrip[of "\<lambda>_. rev" "\<lparr>t_ShardID = 1, t_LeaderID = 2, t_LeaderAddr = ''b:1'', t_Term = 3, t_Epoch = 4,
      t_Nodes = [(1, ''a''), (2, ''b'')], t_NonVotings = [], t_Witnesses = [], t_GrpcAddrs = [(2, ''b:1'')], t_ConfigChangeID = 5\<rparr>" "''x''" "[]"]
  unfolding Let_def by (simp add: range_order_def topology_fits_def node_map_fits_def) blast

end
