(* ===== verification/Storage.thy ===== *)
theory Storage
  imports Prelude
begin

text \<open>
  The storage contract, \<open>src/internal/storage/contract.go\<close>. A Go interface value
  is a method table together with the data it works on: the interface \<open>DB\<close> (with
  \<open>Batch\<close> and \<open>Iterator\<close>, which only a \<open>DB\<close> hands out) is a record
  of functions over an engine state \<open>'st\<close> and a batch state \<open>'b\<close>.

  The contract itself is the locale \<open>storage_db\<close>: the engine state abstracts to a
  finite map from keys to values, a batch to the list of its mutations, and the methods
  act on these as the interface's comments promise. The adapters for Pebble and bbolt
  are in theories \<open>Pebble\<close> and \<open>Bolt\<close>; the other components use the
  interface only.
\<close>

section \<open>Definitions\<close>

datatype SyncMode = NoSync | Sync

record IterOptions =
  LowerBound :: "bytes option"
  UpperBound :: "bytes option"

datatype BatchOp = OpSet bytes bytes | OpDelete bytes

text \<open>
  \<open>db_Iter\<close> is \<open>NewIter\<close> followed by the loop
  \<open>for it.First(); it.Valid(); it.Next()\<close>: the pairs it visits and \<open>it.Error()\<close>
  after it. \<open>db_Scan\<close> is \<open>Scan\<close> with a \<open>yield\<close> that never fails: the
  pairs it is called with and the error \<open>Scan\<close> returns. Methods with an effect
  return the new state with the error.
\<close>

record ('st, 'b) DB =
  db_Get :: "'st \<Rightarrow> bytes \<Rightarrow> goerror + bytes"
  db_NewBatch :: "'st \<Rightarrow> 'b"
  db_Set :: "'b \<Rightarrow> bytes \<Rightarrow> bytes \<Rightarrow> 'b \<times> goerror option"
  db_Delete :: "'b \<Rightarrow> bytes \<Rightarrow> 'b \<times> goerror option"
  db_Commit :: "'st \<Rightarrow> 'b \<Rightarrow> SyncMode \<Rightarrow> 'st \<times> goerror option"
  db_Iter :: "'st \<Rightarrow> IterOptions option \<Rightarrow> goerror + (bytes \<times> bytes) list \<times> goerror option"
  db_Scan :: "'st \<Rightarrow> IterOptions option \<Rightarrow> (bytes \<times> bytes) list \<times> goerror option"
  db_Flush :: "'st \<Rightarrow> 'st \<times> goerror option"

text \<open>The loop inside \<open>Scan\<close>: call \<open>yield\<close> on each pair until it fails.\<close>

fun scan_loop :: "('s \<Rightarrow> bytes \<Rightarrow> bytes \<Rightarrow> 's \<times> goerror option) \<Rightarrow> 's \<Rightarrow> (bytes \<times> bytes) list
    \<Rightarrow> 's \<times> goerror option" where
  "scan_loop yield s [] = (s, None)"
| "scan_loop yield s ((k, v) # kvs) =
    (case yield s k v of
       (s', Some e) \<Rightarrow> (s', Some (Wrap ''yield func'' e))
     | (s', None) \<Rightarrow> scan_loop yield s' kvs)"

text \<open>\<open>Scan\<close> through the interface, for a \<open>yield\<close> with state \<open>'s\<close>.\<close>

definition DB_Scan :: "('st, 'b) DB \<Rightarrow> 'st \<Rightarrow> IterOptions option
    \<Rightarrow> ('s \<Rightarrow> bytes \<Rightarrow> bytes \<Rightarrow> 's \<times> goerror option) \<Rightarrow> 's \<Rightarrow> 's \<times> goerror option" where
  "DB_Scan D st opts yield s =
    (case db_Scan D st opts of (kvs, ierr) \<Rightarrow>
      (case scan_loop yield s kvs of
         (s', Some e) \<Rightarrow> (s', Some e)
       | (s', None) \<Rightarrow> (s', ierr)))"

subsection \<open>The abstract store\<close>

type_synonym store = "bytes \<Rightarrow> bytes option"

fun apply_op :: "BatchOp \<Rightarrow> store \<Rightarrow> store" where
  "apply_op (OpSet k v) m = m(k \<mapsto> v)"
| "apply_op (OpDelete k) m = m(k := None)"

definition apply_ops :: "BatchOp list \<Rightarrow> store \<Rightarrow> store" where
  "apply_ops ops m = fold apply_op ops m"

definition in_bounds :: "IterOptions option \<Rightarrow> bytes \<Rightarrow> bool" where
  "in_bounds opts k =
    (case opts of None \<Rightarrow> True
     | Some opt \<Rightarrow>
        (case LowerBound opt of None \<Rightarrow> True | Some lo \<Rightarrow> lo \<le> k) \<and>
        (case UpperBound opt of None \<Rightarrow> True | Some hi \<Rightarrow> k < hi))"

definition range_view :: "IterOptions option \<Rightarrow> store \<Rightarrow> store" where
  "range_view opts m = m |` {k. in_bounds opts k}"

definition sorted_entries :: "(bytes \<times> bytes) list \<Rightarrow> bool" where
  "sorted_entries kvs \<longleftrightarrow> sorted_wrt (<) (map fst kvs)"

definition lists_store :: "(bytes \<times> bytes) list \<Rightarrow> store \<Rightarrow> bool" where
  "lists_store kvs m \<longleftrightarrow> sorted_entries kvs \<and> map_of kvs = m"

subsection \<open>A reference ordered store\<close>

text \<open>
  A strictly sorted list of pairs: an executable engine state, used where a concrete
  instance of an engine is needed.
\<close>

type_synonym kvlist = "(bytes \<times> bytes) list"

fun kv_put :: "bytes \<Rightarrow> bytes \<Rightarrow> kvlist \<Rightarrow> kvlist" where
  "kv_put k v [] = [(k, v)]"
| "kv_put k v ((k', v') # m) =
    (if k' < k then (k', v') # kv_put k v m
     else if k' = k then (k, v) # m
     else (k, v) # (k', v') # m)"

definition kv_remove :: "bytes \<Rightarrow> kvlist \<Rightarrow> kvlist" where
  "kv_remove k m = filter (\<lambda>p. fst p \<noteq> k) m"

fun kv_apply :: "BatchOp list \<Rightarrow> kvlist \<Rightarrow> kvlist" where
  "kv_apply [] m = m"
| "kv_apply (OpSet k v # ops) m = kv_apply ops (kv_put k v m)"
| "kv_apply (OpDelete k # ops) m = kv_apply ops (kv_remove k m)"

definition kv_range :: "bytes option \<Rightarrow> bytes option \<Rightarrow> kvlist \<Rightarrow> kvlist" where
  "kv_range lo hi m = filter (\<lambda>p. in_bounds (Some \<lparr>LowerBound = lo, UpperBound = hi\<rparr>) (fst p)) m"

section \<open>Lemmas on the abstract store\<close>

lemma apply_ops_Nil [simp]: "apply_ops [] m = m"
  by (simp add: apply_ops_def)

lemma apply_ops_Cons [simp]: "apply_ops (x # xs) m = apply_ops xs (apply_op x m)"
  by (simp add: apply_ops_def)

lemma apply_ops_append [simp]: "apply_ops (xs @ ys) m = apply_ops ys (apply_ops xs m)"
  by (simp add: apply_ops_def)

lemma in_bounds_None [simp]: "in_bounds None k"
  by (simp add: in_bounds_def)

lemma range_view_None [simp]: "range_view None m = m"
  by (simp add: range_view_def restrict_map_def)

lemma range_view_Some_iff: "range_view opts m k = Some v \<longleftrightarrow> m k = Some v \<and> in_bounds opts k"
  by (auto simp: range_view_def restrict_map_def)

lemma sorted_entries_distinct: "sorted_entries kvs \<Longrightarrow> distinct (map fst kvs)"
  unfolding sorted_entries_def by (rule strict_sorted_iff[THEN iffD1, THEN conjunct2])

lemma lists_store_set: "lists_store kvs m \<Longrightarrow> (k, v) \<in> set kvs \<longleftrightarrow> m k = Some v"
  using map_of_eq_Some_iff[of kvs k v] sorted_entries_distinct[of kvs]
  by (simp add: lists_store_def)

lemma lists_store_unique:
  assumes A: "lists_store kvs m" and B: "lists_store kvs' m"
  shows "kvs = kvs'"
proof -
  have d: "distinct (map fst kvs)" "distinct (map fst kvs')"
    using A B by (simp_all add: sorted_entries_distinct lists_store_def)
  have eq: "set kvs = set kvs'"
    using lists_store_set[OF A] lists_store_set[OF B] by (auto simp: set_eq_iff)
  have "sorted (map fst kvs)" "sorted (map fst kvs')"
    using A B by (simp_all add: lists_store_def sorted_entries_def strict_sorted_iff)
  moreover have "inj_on fst (set kvs \<union> set kvs')"
    using d eq by (simp add: distinct_map)
  ultimately show ?thesis
    using d eq by (intro map_sorted_distinct_set_unique[of fst])
qed

lemma apply_deletes: "apply_ops (map OpDelete ks) m = m |` (- set ks)"
proof (induction ks arbitrary: m)
  case (Cons k ks)
  then show ?case by (auto simp: restrict_map_def)
qed (simp add: restrict_map_def)

lemma apply_sets: "distinct (map fst kvs) \<Longrightarrow> apply_ops (map (\<lambda>(k, v). OpSet k v) kvs) m = m ++ map_of kvs"
proof (induction kvs arbitrary: m)
  case (Cons kv kvs)
  obtain k v where kv: "kv = (k, v)" by fastforce
  with Cons.prems have "k \<notin> dom (map_of kvs)" and "distinct (map fst kvs)"
    by (auto simp: dom_map_of_conv_image_fst)
  then have "m(k \<mapsto> v) ++ map_of kvs = (m ++ map_of kvs)(k \<mapsto> v)"
    by (simp add: map_add_upd_left)
  with Cons.IH[OF \<open>distinct (map fst kvs)\<close>] show ?case
    by (simp only: kv list.map prod.case apply_ops_Cons apply_op.simps map_of.simps fst_conv
        snd_conv map_add_upd)
qed simp

lemma scan_loop_total:
  assumes "\<And>s k v. snd (yield s k v) = None"
  shows "scan_loop yield s kvs = (foldl (\<lambda>s (k, v). fst (yield s k v)) s kvs, None)"
proof (induction kvs arbitrary: s)
  case (Cons kv kvs)
  obtain k v where kv: "kv = (k, v)" by fastforce
  have "yield s k v = (fst (yield s k v), None)"
    using assms[of s k v] by (metis prod.collapse)
  then obtain s' where s': "yield s k v = (s', None)" by blast
  with Cons.IH kv show ?case by simp
qed simp

lemma scan_loop_collect:
  "scan_loop (\<lambda>acc k v. (acc @ [(k, v)], None)) acc kvs = (acc @ kvs, None)"
  by (induction kvs arbitrary: acc) auto

section \<open>The reference ordered store\<close>

lemma set_kv_put: "fst ` set (kv_put k v m) = insert k (fst ` set m)"
  by (induction k v m rule: kv_put.induct) auto

lemma sorted_kv_put: "sorted_entries m \<Longrightarrow> sorted_entries (kv_put k v m)"
proof (induction k v m rule: kv_put.induct)
  case (2 k v k' v' m)
  then show ?case
    using set_kv_put[of k v m] by (auto simp: sorted_entries_def dest: order.strict_trans)
qed (simp add: sorted_entries_def)

lemma map_of_kv_put: "sorted_entries m \<Longrightarrow> map_of (kv_put k v m) = (map_of m)(k \<mapsto> v)"
proof (induction k v m rule: kv_put.induct)
  case (2 k v k' v' m)
  then show ?case by (auto simp: sorted_entries_def)
qed simp

lemma sorted_kv_remove: "sorted_entries m \<Longrightarrow> sorted_entries (kv_remove k m)"
  by (induction m) (auto simp: sorted_entries_def kv_remove_def)

lemma map_of_kv_remove: "map_of (kv_remove k m) = (map_of m)(k := None)"
  by (induction m) (auto simp: kv_remove_def)

lemma kv_apply_view:
  "sorted_entries m \<Longrightarrow> sorted_entries (kv_apply ops m) \<and> map_of (kv_apply ops m) = apply_ops ops (map_of m)"
  by (induction ops m rule: kv_apply.induct)
    (simp_all add: sorted_kv_put map_of_kv_put sorted_kv_remove map_of_kv_remove)

lemma sorted_entries_filter: "sorted_entries m \<Longrightarrow> sorted_entries (filter P m)"
  by (induction m) (auto simp: sorted_entries_def)

lemma map_of_filter_key: "map_of (filter (\<lambda>p. P (fst p)) m) = map_of m |` {k. P k}"
  by (induction m) (auto simp: restrict_map_def)

lemma kv_range_lists:
  "sorted_entries m \<Longrightarrow>
    lists_store (kv_range lo hi m) (range_view (Some \<lparr>LowerBound = lo, UpperBound = hi\<rparr>) (map_of m))"
  by (simp add: lists_store_def kv_range_def sorted_entries_filter map_of_filter_key range_view_def)

section \<open>The contract\<close>

text \<open>
  \<open>view\<close> is the content of an engine state, \<open>pending\<close> the mutations of a
  batch, \<open>good\<close> the states of an open, healthy database (reads do not fail), and
  \<open>notfound\<close> the error \<open>Get\<close> returns for a missing key. A commit may
  fail, and then nothing of the batch is applied.
\<close>

locale storage_db =
  fixes D :: "('st, 'b) DB"
    and view :: "'st \<Rightarrow> store"
    and pending :: "'b \<Rightarrow> BatchOp list"
    and good :: "'st \<Rightarrow> bool"
    and notfound :: goerror
  assumes Get: "good st \<Longrightarrow>
      db_Get D st k = (case view st k of None \<Rightarrow> Inl notfound | Some v \<Rightarrow> Inr v)"
    and NewBatch: "pending (db_NewBatch D st) = []"
    and Set: "db_Set D b k v = (b', e) \<Longrightarrow> e = None \<and> pending b' = pending b @ [OpSet k v]"
    and Delete: "db_Delete D b k = (b', e) \<Longrightarrow> e = None \<and> pending b' = pending b @ [OpDelete k]"
    and Commit_ok: "good st \<Longrightarrow> db_Commit D st b m = (st', None) \<Longrightarrow>
      good st' \<and> view st' = apply_ops (pending b) (view st)"
    and Commit_err: "good st \<Longrightarrow> db_Commit D st b m = (st', Some err) \<Longrightarrow>
      good st' \<and> view st' = view st"
    and Iter: "good st \<Longrightarrow>
      \<exists>kvs. db_Iter D st opts = Inr (kvs, None) \<and> lists_store kvs (range_view opts (view st))"
    and Scan: "good st \<Longrightarrow>
      \<exists>kvs. db_Scan D st opts = (kvs, None) \<and> lists_store kvs (range_view opts (view st))"
    and Flush: "good st \<Longrightarrow> db_Flush D st = (st', e) \<Longrightarrow> good st' \<and> view st' = view st"
begin

lemma Set_eq: "\<exists>b'. db_Set D b k v = (b', None) \<and> pending b' = pending b @ [OpSet k v]"
  by (metis Set surj_pair)

lemma Delete_eq: "\<exists>b'. db_Delete D b k = (b', None) \<and> pending b' = pending b @ [OpDelete k]"
  by (metis Delete surj_pair)

lemma Get_Some: "good st \<Longrightarrow> view st k = Some v \<Longrightarrow> db_Get D st k = Inr v"
  by (simp add: Get)

lemma Get_None: "good st \<Longrightarrow> view st k = None \<Longrightarrow> db_Get D st k = Inl notfound"
  by (simp add: Get)

lemma Get_eq_Inr: "good st \<Longrightarrow> db_Get D st k = Inr v \<longleftrightarrow> view st k = Some v"
  by (simp add: Get split: option.splits)

lemma Scan_spec:
  assumes "good st"
  obtains kvs where "lists_store kvs (range_view opts (view st))"
    and "\<And>yield (s :: 's). DB_Scan D st opts yield s = scan_loop yield s kvs"
proof -
  from Scan[OF assms] obtain kvs where
    kvs: "db_Scan D st opts = (kvs, None)" "lists_store kvs (range_view opts (view st))" by blast
  have "DB_Scan D st opts yield s = scan_loop yield s kvs" for yield and s :: 's
    by (simp add: DB_Scan_def kvs split: prod.split option.split)
  with kvs that show ?thesis by blast
qed

lemma Iter_Scan_agree:
  "good st \<Longrightarrow> db_Iter D st opts = Inr (db_Scan D st opts)"
  by (metis Iter Scan lists_store_unique)

lemma Commit_good: "good st \<Longrightarrow> db_Commit D st b m = (st', e) \<Longrightarrow> good st'"
  by (metis Commit_ok Commit_err option.exhaust)

end

end
