(* ===== verification/Pebble.thy ===== *)
theory Pebble
  imports Storage
begin

text \<open>
  The Pebble adapter, \<open>src/internal/storage/pebble.go\<close>. The engine
  \<open>github.com/cockroachdb/pebble\<close> is third-party code: its methods are the fields of
  a record parameter, and \<open>pebble_contract\<close> states their documented behaviour. An
  iterator over a snapshot is given by the finite list of pairs it visits and the error
  it holds afterwards.
\<close>

section \<open>Definitions\<close>

record ('st, 'b) pebble_lib =
  pe_Get :: "'st \<Rightarrow> bytes \<Rightarrow> goerror + bytes"
  pe_NewBatch :: "'st \<Rightarrow> 'b"
  pe_BatchSet :: "'b \<Rightarrow> bytes \<Rightarrow> bytes \<Rightarrow> 'b \<times> goerror option"
  pe_BatchDelete :: "'b \<Rightarrow> bytes \<Rightarrow> 'b \<times> goerror option"
  pe_BatchCommit :: "'st \<Rightarrow> 'b \<Rightarrow> bool \<Rightarrow> 'st \<times> goerror option"
  pe_NewIter :: "'st \<Rightarrow> bytes option \<Rightarrow> bytes option \<Rightarrow> goerror + (bytes \<times> bytes) list \<times> goerror option"
  pe_Flush :: "'st \<Rightarrow> 'st \<times> goerror option"

definition Pebble_Get :: "('st, 'b) pebble_lib \<Rightarrow> 'st \<Rightarrow> bytes \<Rightarrow> goerror + bytes" where
  "Pebble_Get p st key = pe_Get p st key"

definition Pebble_NewBatch :: "('st, 'b) pebble_lib \<Rightarrow> 'st \<Rightarrow> 'b" where
  "Pebble_NewBatch p st = pe_NewBatch p st"

text \<open>The bounds handed to the engine: none at all for nil options.\<close>

definition pebble_iter :: "('st, 'b) pebble_lib \<Rightarrow> 'st \<Rightarrow> IterOptions option
    \<Rightarrow> goerror + (bytes \<times> bytes) list \<times> goerror option" where
  "pebble_iter p st opts =
    (case opts of None \<Rightarrow> pe_NewIter p st None None
     | Some opt \<Rightarrow> pe_NewIter p st (LowerBound opt) (UpperBound opt))"

definition Pebble_NewIter :: "('st, 'b) pebble_lib \<Rightarrow> 'st \<Rightarrow> IterOptions option
    \<Rightarrow> goerror + (bytes \<times> bytes) list \<times> goerror option" where
  "Pebble_NewIter p st opts =
    (case pebble_iter p st opts of Inl err \<Rightarrow> Inl err | Inr it \<Rightarrow> Inr it)"

definition Pebble_Scan :: "('st, 'b) pebble_lib \<Rightarrow> 'st \<Rightarrow> IterOptions option
    \<Rightarrow> ('s \<Rightarrow> bytes \<Rightarrow> bytes \<Rightarrow> 's \<times> goerror option) \<Rightarrow> 's \<Rightarrow> 's \<times> goerror option" where
  "Pebble_Scan p st opts yield s =
    (case pebble_iter p st opts of
       Inl err \<Rightarrow> (s, Some err)
     | Inr (kvs, ierr) \<Rightarrow>
        (case scan_loop yield s kvs of
           (s', Some e) \<Rightarrow> (s', Some e)
         | (s', None) \<Rightarrow> (s', ierr)))"

definition pebbleBatch_Set :: "('st, 'b) pebble_lib \<Rightarrow> 'b \<Rightarrow> bytes \<Rightarrow> bytes \<Rightarrow> 'b \<times> goerror option" where
  "pebbleBatch_Set p b key value = pe_BatchSet p b key value"

definition pebbleBatch_Delete :: "('st, 'b) pebble_lib \<Rightarrow> 'b \<Rightarrow> bytes \<Rightarrow> 'b \<times> goerror option" where
  "pebbleBatch_Delete p b key = pe_BatchDelete p b key"

definition pebbleBatch_Commit :: "('st, 'b) pebble_lib \<Rightarrow> 'st \<Rightarrow> 'b \<Rightarrow> SyncMode \<Rightarrow> 'st \<times> goerror option" where
  "pebbleBatch_Commit p st b mode =
    (case mode of NoSync \<Rightarrow> pe_BatchCommit p st b False
     | Sync \<Rightarrow> pe_BatchCommit p st b True)"

definition Pebble_Flush :: "('st, 'b) pebble_lib \<Rightarrow> 'st \<Rightarrow> 'st \<times> goerror option" where
  "Pebble_Flush p st = pe_Flush p st"

text \<open>The method table of \<open>*Pebble\<close> as a \<open>storage.DB\<close>.\<close>

definition pebble_DB :: "('st, 'b) pebble_lib \<Rightarrow> ('st, 'b) DB" where
  "pebble_DB p = \<lparr>
     db_Get = Pebble_Get p,
     db_NewBatch = Pebble_NewBatch p,
     db_Set = pebbleBatch_Set p,
     db_Delete = pebbleBatch_Delete p,
     db_Commit = pebbleBatch_Commit p,
     db_Iter = Pebble_NewIter p,
     db_Scan = (\<lambda>st opts. Pebble_Scan p st opts (\<lambda>acc k v. (acc @ [(k, v)], None)) []),
     db_Flush = Pebble_Flush p\<rparr>"

subsection \<open>What the engine promises\<close>

definition pebble_contract :: "('st, 'b) pebble_lib \<Rightarrow> ('st \<Rightarrow> store) \<Rightarrow> ('b \<Rightarrow> BatchOp list)
    \<Rightarrow> ('st \<Rightarrow> bool) \<Rightarrow> bool" where
  "pebble_contract p view pending good \<longleftrightarrow>
    (\<forall>st k. good st \<longrightarrow>
      pe_Get p st k = (case view st k of None \<Rightarrow> Inl PebbleErrNotFound | Some v \<Rightarrow> Inr v)) \<and>
    (\<forall>st. pending (pe_NewBatch p st) = []) \<and>
    (\<forall>b k v. \<exists>b'. pe_BatchSet p b k v = (b', None) \<and> pending b' = pending b @ [OpSet k v]) \<and>
    (\<forall>b k. \<exists>b'. pe_BatchDelete p b k = (b', None) \<and> pending b' = pending b @ [OpDelete k]) \<and>
    (\<forall>st b sync st'. good st \<longrightarrow> pe_BatchCommit p st b sync = (st', None) \<longrightarrow>
      good st' \<and> view st' = apply_ops (pending b) (view st)) \<and>
    (\<forall>st b sync st' e. good st \<longrightarrow> pe_BatchCommit p st b sync = (st', Some e) \<longrightarrow>
      good st' \<and> view st' = view st) \<and>
    (\<forall>st lo hi. good st \<longrightarrow>
      (\<exists>kvs. pe_NewIter p st lo hi = Inr (kvs, None) \<and>
        lists_store kvs (range_view (Some \<lparr>LowerBound = lo, UpperBound = hi\<rparr>) (view st)))) \<and>
    (\<forall>st st' e. good st \<longrightarrow> pe_Flush p st = (st', e) \<longrightarrow> good st' \<and> view st' = view st)"

text \<open>A concrete engine on the reference store, to instantiate the parameter.\<close>

definition mem_pebble :: "(kvlist, BatchOp list) pebble_lib" where
  "mem_pebble = \<lparr>
     pe_Get = (\<lambda>st k. case map_of st k of None \<Rightarrow> Inl PebbleErrNotFound | Some v \<Rightarrow> Inr v),
     pe_NewBatch = (\<lambda>st. []),
     pe_BatchSet = (\<lambda>b k v. (b @ [OpSet k v], None)),
     pe_BatchDelete = (\<lambda>b k. (b @ [OpDelete k], None)),
     pe_BatchCommit = (\<lambda>st b sync. (kv_apply b st, None)),
     pe_NewIter = (\<lambda>st lo hi. Inr (kv_range lo hi st, None)),
     pe_Flush = (\<lambda>st. (st, None))\<rparr>"

section \<open>The adapter implements the storage contract\<close>

lemmas pebble_adapter_defs =
  Pebble_Get_def Pebble_NewBatch_def pebble_iter_def Pebble_NewIter_def Pebble_Scan_def
  pebbleBatch_Set_def pebbleBatch_Delete_def pebbleBatch_Commit_def Pebble_Flush_def

lemma Pebble_Scan_is_DB_Scan:
  "Pebble_Scan p st opts yield s = DB_Scan (pebble_DB p) st opts yield s"
  by (simp add: Pebble_Scan_def DB_Scan_def pebble_DB_def scan_loop_collect split: sum.split prod.split)

lemma pebble_contractD:
  assumes "pebble_contract p view pending good"
  shows "good st \<Longrightarrow>
      pe_Get p st k = (case view st k of None \<Rightarrow> Inl PebbleErrNotFound | Some v \<Rightarrow> Inr v)"
    and "pending (pe_NewBatch p st) = []"
    and "\<exists>b'. pe_BatchSet p b k v = (b', None) \<and> pending b' = pending b @ [OpSet k v]"
    and "\<exists>b'. pe_BatchDelete p b k = (b', None) \<and> pending b' = pending b @ [OpDelete k]"
    and "good st \<Longrightarrow> pe_BatchCommit p st b sync = (st', None) \<Longrightarrow>
      good st' \<and> view st' = apply_ops (pending b) (view st)"
    and "good st \<Longrightarrow> pe_BatchCommit p st b sync = (st', Some err) \<Longrightarrow>
      good st' \<and> view st' = view st"
    and "good st \<Longrightarrow> \<exists>kvs. pe_NewIter p st lo hi = Inr (kvs, None) \<and>
        lists_store kvs (range_view (Some \<lparr>LowerBound = lo, UpperBound = hi\<rparr>) (view st))"
    and "good st \<Longrightarrow> pe_Flush p st = (st', e) \<Longrightarrow> good st' \<and> view st' = view st"
  using assms unfolding pebble_contract_def by meson+

lemma pebble_iter_lists:
  assumes "pebble_contract p view pending good" and "good st"
  shows "\<exists>kvs. pebble_iter p st opts = Inr (kvs, None) \<and> lists_store kvs (range_view opts (view st))"
proof (cases opts)
  case None
  have "range_view (Some \<lparr>LowerBound = None, UpperBound = None\<rparr>) (view st) = view st"
    by (simp add: range_view_def in_bounds_def restrict_map_def)
  with pebble_contractD(7)[OF assms, of None None] None show ?thesis
    by (simp add: pebble_iter_def)
next
  case (Some opt)
  have "\<lparr>LowerBound = LowerBound opt, UpperBound = UpperBound opt\<rparr> = opt" by simp
  with pebble_contractD(7)[OF assms, of "LowerBound opt" "UpperBound opt"] Some show ?thesis
    by (simp add: pebble_iter_def)
qed

lemma pebble_storage_db:
  assumes C: "pebble_contract p view pending good"
  shows "storage_db (pebble_DB p) view pending good PebbleErrNotFound"
proof (unfold_locales, goal_cases)
  case (1 st k)
  then show ?case using pebble_contractD(1)[OF C] by (simp add: pebble_DB_def Pebble_Get_def)
next
  case (2 st)
  then show ?case using pebble_contractD(2)[OF C] by (simp add: pebble_DB_def Pebble_NewBatch_def)
next
  case (3 b k v b' e)
  then show ?case
    using pebble_contractD(3)[OF C, of b k v] by (auto simp: pebble_DB_def pebbleBatch_Set_def)
next
  case (4 b k b' e)
  then show ?case
    using pebble_contractD(4)[OF C, of b k] by (auto simp: pebble_DB_def pebbleBatch_Delete_def)
next
  case (5 st b m st')
  then show ?case
    using pebble_contractD(5)[OF C, of st b _ st']
    by (simp add: pebble_DB_def pebbleBatch_Commit_def split: SyncMode.splits)
next
  case (6 st b m st' err)
  then show ?case
    using pebble_contractD(6)[OF C, of st b _ st' err]
    by (simp add: pebble_DB_def pebbleBatch_Commit_def split: SyncMode.splits)
next
  case (7 st opts)
  then show ?case
    using pebble_iter_lists[OF C, of st opts] by (auto simp: pebble_DB_def Pebble_NewIter_def)
next
  case (8 st opts)
  then show ?case
    using pebble_iter_lists[OF C, of st opts]
    by (auto simp: pebble_DB_def Pebble_Scan_def scan_loop_collect)
next
  case (9 st st' e)
  then show ?case
    using pebble_contractD(8)[OF C, of st st' e] by (simp add: pebble_DB_def Pebble_Flush_def)
qed

lemma mem_pebble_contract: "pebble_contract mem_pebble map_of id sorted_entries"
  unfolding pebble_contract_def
  by (auto simp: mem_pebble_def kv_apply_view kv_range_lists)

interpretation memp: storage_db "pebble_DB mem_pebble" map_of id sorted_entries PebbleErrNotFound
  by (rule pebble_storage_db[OF mem_pebble_contract])


section \<open>Properties\<close>



end
