(* ===== verification/Bolt.thy ===== *)
theory Bolt
  imports Storage
begin

text \<open>
  The bbolt adapter, \<open>src/internal/storage/bbolt.go\<close>. The engine
  \<open>go.etcd.io/bbolt\<close> is third-party code: transactions, buckets and cursors are the
  fields of a record parameter, and \<open>bolt_contract\<close> states their documented
  behaviour. A cursor is given by the finite list of pairs from its position on: a
  \<open>Seek\<close> or \<open>First\<close> sets it, \<open>Next\<close> drops its head.
\<close>

section \<open>Definitions\<close>

record ('st, 'bk) bolt_lib =
  bo_Open :: "string \<Rightarrow> goerror + 'st"
  bo_CreateBucketIfNotExists :: "'st \<Rightarrow> bytes \<Rightarrow> goerror + 'st"
  bo_BeginErr :: "'st \<Rightarrow> goerror option"
  bo_Bucket :: "'st \<Rightarrow> bytes \<Rightarrow> 'bk option"
  bo_CommitBucket :: "'st \<Rightarrow> bytes \<Rightarrow> 'bk \<Rightarrow> 'st \<times> goerror option"
  bo_Get :: "'bk \<Rightarrow> bytes \<Rightarrow> bytes option"
  bo_Put :: "'bk \<Rightarrow> bytes \<Rightarrow> bytes \<Rightarrow> goerror + 'bk"
  bo_Delete :: "'bk \<Rightarrow> bytes \<Rightarrow> goerror + 'bk"
  bo_First :: "'bk \<Rightarrow> (bytes \<times> bytes) list"
  bo_Seek :: "'bk \<Rightarrow> bytes \<Rightarrow> (bytes \<times> bytes) list"

definition defaultBucket :: string where
  "defaultBucket = ''futureq''"

definition NewBoltDB :: "('st, 'bk) bolt_lib \<Rightarrow> string \<Rightarrow> string \<Rightarrow> goerror + 'st \<times> bytes" where
  "NewBoltDB l dataPath cfgBucket =
    (case bo_Open l dataPath of
       Inl err \<Rightarrow> Inl (Wrap ''bbolt: failed to open'' err)
     | Inr db \<Rightarrow>
        (let bname = (if cfgBucket = '''' then defaultBucket else cfgBucket) in
         case bo_CreateBucketIfNotExists l db (bytes_of_string bname) of
           Inl err \<Rightarrow> Inl (Wrap ''bbolt: failed to create bucket'' err)
         | Inr db' \<Rightarrow> Inr (db', bytes_of_string bname)))"

definition bucket_not_found :: goerror where
  "bucket_not_found = Errorf ''bbolt: bucket not found'' []"

definition boltDB_Get :: "('st, 'bk) bolt_lib \<Rightarrow> bytes \<Rightarrow> 'st \<Rightarrow> bytes \<Rightarrow> goerror + bytes" where
  "boltDB_Get l bucket st key =
    (case bo_BeginErr l st of Some e \<Rightarrow> Inl e
     | None \<Rightarrow>
        (case bo_Bucket l st bucket of None \<Rightarrow> Inl bucket_not_found
         | Some bkt \<Rightarrow> (case bo_Get l bkt key of None \<Rightarrow> Inl ErrNotFound | Some v \<Rightarrow> Inr v)))"

subsection \<open>Batches\<close>

record boltOp =
  op_del :: bool
  op_key :: bytes
  op_value :: bytes

text \<open>
  The fields \<open>db\<close> and \<open>bucket\<close> of a batch are those of the database that
  made it; they are arguments of \<open>Commit\<close>.
\<close>

record boltBatch =
  bb_ops :: "boltOp list"

definition boltDB_NewBatch :: "'st \<Rightarrow> boltBatch" where
  "boltDB_NewBatch st = \<lparr>bb_ops = []\<rparr>"

definition boltBatch_Set :: "boltBatch \<Rightarrow> bytes \<Rightarrow> bytes \<Rightarrow> boltBatch \<times> goerror option" where
  "boltBatch_Set bb key value =
    (bb\<lparr>bb_ops := bb_ops bb @ [\<lparr>op_del = False, op_key = key, op_value = value\<rparr>]\<rparr>, None)"

definition boltBatch_Delete :: "boltBatch \<Rightarrow> bytes \<Rightarrow> boltBatch \<times> goerror option" where
  "boltBatch_Delete bb key =
    (bb\<lparr>bb_ops := bb_ops bb @ [\<lparr>op_del = True, op_key = key, op_value = []\<rparr>]\<rparr>, None)"

text \<open>The loop over the operations inside the read-write transaction.\<close>

fun bolt_run_ops :: "('st, 'bk) bolt_lib \<Rightarrow> 'bk \<Rightarrow> boltOp list \<Rightarrow> goerror + 'bk" where
  "bolt_run_ops l bkt [] = Inr bkt"
| "bolt_run_ops l bkt (x # xs) =
    (case (if op_del x then bo_Delete l bkt (op_key x) else bo_Put l bkt (op_key x) (op_value x)) of
       Inl err \<Rightarrow> Inl err
     | Inr bkt' \<Rightarrow> bolt_run_ops l bkt' xs)"

text \<open>\<open>db.Update\<close>: an error of the callback rolls the transaction back.\<close>

definition boltBatch_Commit :: "('st, 'bk) bolt_lib \<Rightarrow> bytes \<Rightarrow> 'st \<Rightarrow> boltBatch \<Rightarrow> SyncMode \<Rightarrow> 'st \<times> goerror option" where
  "boltBatch_Commit l bucket st bb mode =
    (case bo_BeginErr l st of Some e \<Rightarrow> (st, Some e)
     | None \<Rightarrow>
        (case bo_Bucket l st bucket of None \<Rightarrow> (st, Some bucket_not_found)
         | Some bkt \<Rightarrow>
            (case bolt_run_ops l bkt (bb_ops bb) of
               Inl err \<Rightarrow> (st, Some err)
             | Inr bkt' \<Rightarrow> bo_CommitBucket l st bucket bkt')))"

definition boltBatch_Close :: "boltBatch \<Rightarrow> boltBatch" where
  "boltBatch_Close bb = bb\<lparr>bb_ops := []\<rparr>"

subsection \<open>Scan\<close>

fun bolt_scan_loop :: "IterOptions option \<Rightarrow> ('s \<Rightarrow> bytes \<Rightarrow> bytes \<Rightarrow> 's \<times> goerror option) \<Rightarrow> 's
    \<Rightarrow> (bytes \<times> bytes) list \<Rightarrow> 's \<times> goerror option" where
  "bolt_scan_loop opts yield s [] = (s, None)"
| "bolt_scan_loop opts yield s ((k, v) # c) =
    (if (case opts of None \<Rightarrow> False
         | Some opt \<Rightarrow> (case UpperBound opt of None \<Rightarrow> False | Some hi \<Rightarrow> hi \<le> k))
     then (s, None)
     else (case yield s k v of
             (s', Some err) \<Rightarrow> (s', Some (Wrap ''yield func'' err))
           | (s', None) \<Rightarrow> bolt_scan_loop opts yield s' c))"

definition boltDB_Scan :: "('st, 'bk) bolt_lib \<Rightarrow> bytes \<Rightarrow> 'st \<Rightarrow> IterOptions option
    \<Rightarrow> ('s \<Rightarrow> bytes \<Rightarrow> bytes \<Rightarrow> 's \<times> goerror option) \<Rightarrow> 's \<Rightarrow> 's \<times> goerror option" where
  "boltDB_Scan l bucket st opts yield s =
    (case bo_BeginErr l st of Some e \<Rightarrow> (s, Some e)
     | None \<Rightarrow>
        (case bo_Bucket l st bucket of None \<Rightarrow> (s, None)
         | Some bkt \<Rightarrow>
            (let c = (case opts of None \<Rightarrow> bo_First l bkt
                      | Some opt \<Rightarrow> (case LowerBound opt of
                                      None \<Rightarrow> bo_First l bkt
                                    | Some lo \<Rightarrow> bo_Seek l bkt lo))
             in bolt_scan_loop opts yield s c)))"

subsection \<open>Iterators\<close>

record 'bk boltIterator =
  bi_bkt :: 'bk
  bi_cursor :: "(bytes \<times> bytes) list"
  bi_lower :: "bytes option"
  bi_upper :: "bytes option"
  bi_curKey :: "bytes option"
  bi_curVal :: "bytes option"
  bi_done :: bool

definition boltDB_NewIter :: "('st, 'bk) bolt_lib \<Rightarrow> bytes \<Rightarrow> 'st \<Rightarrow> IterOptions option
    \<Rightarrow> goerror + 'bk boltIterator" where
  "boltDB_NewIter l bucket st opts =
    (case bo_BeginErr l st of Some e \<Rightarrow> Inl (Wrap ''bbolt: failed to begin read tx'' e)
     | None \<Rightarrow>
        (case bo_Bucket l st bucket of None \<Rightarrow> Inl bucket_not_found
         | Some bkt \<Rightarrow>
            Inr \<lparr>bi_bkt = bkt, bi_cursor = [],
                 bi_lower = (case opts of None \<Rightarrow> None | Some opt \<Rightarrow> LowerBound opt),
                 bi_upper = (case opts of None \<Rightarrow> None | Some opt \<Rightarrow> UpperBound opt),
                 bi_curKey = None, bi_curVal = None, bi_done = False\<rparr>))"

definition boltIterator_set :: "'bk boltIterator \<Rightarrow> (bytes \<times> bytes) option \<Rightarrow> 'bk boltIterator \<times> bool" where
  "boltIterator_set bi kv =
    (case kv of
       None \<Rightarrow> (bi\<lparr>bi_done := True, bi_curKey := None, bi_curVal := None\<rparr>, False)
     | Some (k, v) \<Rightarrow>
        (if (case bi_upper bi of None \<Rightarrow> False | Some hi \<Rightarrow> hi \<le> k)
         then (bi\<lparr>bi_done := True, bi_curKey := None, bi_curVal := None\<rparr>, False)
         else (bi\<lparr>bi_curKey := Some k, bi_curVal := Some v\<rparr>, True)))"

definition cursor_pair :: "(bytes \<times> bytes) list \<Rightarrow> (bytes \<times> bytes) option" where
  "cursor_pair c = (case c of [] \<Rightarrow> None | kv # _ \<Rightarrow> Some kv)"

definition boltIterator_First :: "('st, 'bk) bolt_lib \<Rightarrow> 'bk boltIterator \<Rightarrow> 'bk boltIterator \<times> bool" where
  "boltIterator_First l bi =
    (let c = (case bi_lower bi of None \<Rightarrow> bo_First l (bi_bkt bi) | Some lo \<Rightarrow> bo_Seek l (bi_bkt bi) lo)
     in boltIterator_set (bi\<lparr>bi_cursor := c\<rparr>) (cursor_pair c))"

definition boltIterator_Next :: "'bk boltIterator \<Rightarrow> 'bk boltIterator \<times> bool" where
  "boltIterator_Next bi =
    (if bi_done bi then (bi, False)
     else (let c = tl (bi_cursor bi)
           in boltIterator_set (bi\<lparr>bi_cursor := c\<rparr>) (cursor_pair c)))"

definition boltIterator_Valid :: "'bk boltIterator \<Rightarrow> bool" where
  "boltIterator_Valid bi \<longleftrightarrow> \<not> bi_done bi \<and> bi_curKey bi \<noteq> None"

definition boltIterator_Key :: "'bk boltIterator \<Rightarrow> bytes" where
  "boltIterator_Key bi = (case bi_curKey bi of None \<Rightarrow> [] | Some k \<Rightarrow> k)"

definition boltIterator_Value :: "'bk boltIterator \<Rightarrow> bytes" where
  "boltIterator_Value bi = (case bi_curVal bi of None \<Rightarrow> [] | Some v \<Rightarrow> v)"

text \<open>
  The pairs the loop \<open>for it.First(); it.Valid(); it.Next()\<close> visits, from a
  position on. Each turn drops a pair of the cursor, or finds it empty and ends.
\<close>

function bolt_iter_pairs :: "'bk boltIterator \<Rightarrow> (bytes \<times> bytes) list" where
  "bolt_iter_pairs bi =
    (if boltIterator_Valid bi
     then (boltIterator_Key bi, boltIterator_Value bi) # bolt_iter_pairs (fst (boltIterator_Next bi))
     else [])"
  by pat_completeness auto
termination
proof (relation "measure (\<lambda>bi. 2 * length (bi_cursor bi) + (if boltIterator_Valid bi then 1 else 0))")
  fix bi :: "'bk boltIterator"
  assume "boltIterator_Valid bi"
  then show "(fst (boltIterator_Next bi), bi)
      \<in> measure (\<lambda>bi. 2 * length (bi_cursor bi) + (if boltIterator_Valid bi then 1 else 0))"
    by (cases "bi_cursor bi")
      (auto simp: boltIterator_Valid_def boltIterator_Next_def boltIterator_set_def cursor_pair_def
        Let_def split: list.splits option.splits)
qed simp

definition bolt_Iter :: "('st, 'bk) bolt_lib \<Rightarrow> bytes \<Rightarrow> 'st \<Rightarrow> IterOptions option
    \<Rightarrow> goerror + (bytes \<times> bytes) list \<times> goerror option" where
  "bolt_Iter l bucket st opts =
    (case boltDB_NewIter l bucket st opts of
       Inl err \<Rightarrow> Inl err
     | Inr bi \<Rightarrow> Inr (bolt_iter_pairs (fst (boltIterator_First l bi)), None))"

text \<open>The method table of \<open>*boltDB\<close> as a \<open>storage.DB\<close>.\<close>

definition bolt_DB :: "('st, 'bk) bolt_lib \<Rightarrow> bytes \<Rightarrow> ('st, boltBatch) DB" where
  "bolt_DB l bucket = \<lparr>
     db_Get = boltDB_Get l bucket,
     db_NewBatch = boltDB_NewBatch,
     db_Set = boltBatch_Set,
     db_Delete = boltBatch_Delete,
     db_Commit = boltBatch_Commit l bucket,
     db_Iter = bolt_Iter l bucket,
     db_Scan = (\<lambda>st opts. boltDB_Scan l bucket st opts (\<lambda>acc k v. (acc @ [(k, v)], None)) []),
     db_Flush = (\<lambda>st. (st, None))\<rparr>"

subsection \<open>What the engine promises\<close>

text \<open>
  \<open>bk_view\<close> is the content of a bucket and \<open>bk_ok\<close> holds of the buckets of
  an uncorrupted file. A cursor visits the pairs in byte order; \<open>Seek\<close> starts at
  the first key not below its argument; committing a transaction makes the rewritten
  bucket the current one, and a failed commit changes nothing.
\<close>

definition bolt_contract :: "('st, 'bk) bolt_lib \<Rightarrow> ('bk \<Rightarrow> store) \<Rightarrow> ('bk \<Rightarrow> bool) \<Rightarrow> bool" where
  "bolt_contract l bk_view bk_ok \<longleftrightarrow>
    (\<forall>bk k. bk_ok bk \<longrightarrow> bo_Get l bk k = bk_view bk k) \<and>
    (\<forall>bk k v bk'. bk_ok bk \<longrightarrow> bo_Put l bk k v = Inr bk' \<longrightarrow>
      bk_ok bk' \<and> bk_view bk' = (bk_view bk)(k \<mapsto> v)) \<and>
    (\<forall>bk k bk'. bk_ok bk \<longrightarrow> bo_Delete l bk k = Inr bk' \<longrightarrow>
      bk_ok bk' \<and> bk_view bk' = (bk_view bk)(k := None)) \<and>
    (\<forall>bk. bk_ok bk \<longrightarrow> lists_store (bo_First l bk) (bk_view bk)) \<and>
    (\<forall>bk lo. bk_ok bk \<longrightarrow> bo_Seek l bk lo = dropWhile (\<lambda>p. fst p < lo) (bo_First l bk)) \<and>
    (\<forall>st name bk st'. bo_BeginErr l st = None \<longrightarrow> bo_CommitBucket l st name bk = (st', None) \<longrightarrow>
      bo_BeginErr l st' = None \<and> bo_Bucket l st' name = Some bk) \<and>
    (\<forall>st name bk st' e. bo_BeginErr l st = None \<longrightarrow> bo_CommitBucket l st name bk = (st', Some e) \<longrightarrow>
      bo_BeginErr l st' = None \<and> bo_Bucket l st' name = bo_Bucket l st name)"

definition bolt_good :: "('st, 'bk) bolt_lib \<Rightarrow> ('bk \<Rightarrow> bool) \<Rightarrow> bytes \<Rightarrow> 'st \<Rightarrow> bool" where
  "bolt_good l bk_ok bucket st \<longleftrightarrow>
    bo_BeginErr l st = None \<and> (\<exists>bk. bo_Bucket l st bucket = Some bk \<and> bk_ok bk)"

definition bolt_view :: "('st, 'bk) bolt_lib \<Rightarrow> ('bk \<Rightarrow> store) \<Rightarrow> bytes \<Rightarrow> 'st \<Rightarrow> store" where
  "bolt_view l bk_view bucket st =
    (case bo_Bucket l st bucket of None \<Rightarrow> (\<lambda>_. None) | Some bk \<Rightarrow> bk_view bk)"

definition bolt_pending :: "boltBatch \<Rightarrow> BatchOp list" where
  "bolt_pending bb =
    map (\<lambda>x. if op_del x then OpDelete (op_key x) else OpSet (op_key x) (op_value x)) (bb_ops bb)"

text \<open>
  A concrete engine on the reference store: the database is an optional bucket, and, as
  bbolt does, an empty path cannot be opened and an empty key is refused.
\<close>

definition mem_bolt :: "(kvlist option, kvlist) bolt_lib" where
  "mem_bolt = \<lparr>
     bo_Open = (\<lambda>path. if path = [] then Inl (LibError ''open: no such file or directory'') else Inr None),
     bo_CreateBucketIfNotExists = (\<lambda>st name. Inr (Some (case st of None \<Rightarrow> [] | Some bk \<Rightarrow> bk))),
     bo_BeginErr = (\<lambda>st. None),
     bo_Bucket = (\<lambda>st name. st),
     bo_CommitBucket = (\<lambda>st name bk. (Some bk, None)),
     bo_Get = map_of,
     bo_Put = (\<lambda>bk k v. if k = [] then Inl (LibError ''key required'') else Inr (kv_put k v bk)),
     bo_Delete = (\<lambda>bk k. Inr (kv_remove k bk)),
     bo_First = (\<lambda>bk. bk),
     bo_Seek = (\<lambda>bk lo. dropWhile (\<lambda>p. fst p < lo) bk)\<rparr>"

section \<open>The adapter implements the storage contract\<close>

lemma bolt_contractD:
  assumes "bolt_contract l bk_view bk_ok"
  shows "bk_ok bk \<Longrightarrow> bo_Get l bk k = bk_view bk k"
    and "bk_ok bk \<Longrightarrow> bo_Put l bk k v = Inr bk' \<Longrightarrow> bk_ok bk' \<and> bk_view bk' = (bk_view bk)(k \<mapsto> v)"
    and "bk_ok bk \<Longrightarrow> bo_Delete l bk k = Inr bk' \<Longrightarrow> bk_ok bk' \<and> bk_view bk' = (bk_view bk)(k := None)"
    and "bk_ok bk \<Longrightarrow> lists_store (bo_First l bk) (bk_view bk)"
    and "bk_ok bk \<Longrightarrow> bo_Seek l bk lo = dropWhile (\<lambda>p. fst p < lo) (bo_First l bk)"
    and "bo_BeginErr l st = None \<Longrightarrow> bo_CommitBucket l st name bk = (st', None) \<Longrightarrow>
      bo_BeginErr l st' = None \<and> bo_Bucket l st' name = Some bk"
    and "bo_BeginErr l st = None \<Longrightarrow> bo_CommitBucket l st name bk = (st', Some e) \<Longrightarrow>
      bo_BeginErr l st' = None \<and> bo_Bucket l st' name = bo_Bucket l st name"
  using assms unfolding bolt_contract_def by meson+

lemma bolt_pending_Cons:
  "bolt_pending \<lparr>bb_ops = x # xs\<rparr> =
    (if op_del x then OpDelete (op_key x) else OpSet (op_key x) (op_value x)) #
    bolt_pending \<lparr>bb_ops = xs\<rparr>"
  by (simp add: bolt_pending_def)

lemma bolt_run_ops_view:
  assumes "bolt_contract l bk_view bk_ok"
  shows "bk_ok bk \<Longrightarrow> bolt_run_ops l bk xs = Inr bk' \<Longrightarrow>
    bk_ok bk' \<and> bk_view bk' = apply_ops (bolt_pending \<lparr>bb_ops = xs\<rparr>) (bk_view bk)"
proof (induction xs arbitrary: bk)
  case (Cons x xs)
  show ?case
  proof (cases "op_del x")
    case True
    with Cons.prems obtain b1 where b1: "bo_Delete l bk (op_key x) = Inr b1" "bolt_run_ops l b1 xs = Inr bk'"
      by (auto split: sum.splits)
    then have "bk_ok b1 \<and> bk_view b1 = (bk_view bk)(op_key x := None)"
      using bolt_contractD(3)[OF assms Cons.prems(1)] by blast
    moreover from this have "bk_ok bk' \<and> bk_view bk' = apply_ops (bolt_pending \<lparr>bb_ops = xs\<rparr>) (bk_view b1)"
      using Cons.IH b1(2) by blast
    ultimately show ?thesis
      using True by (simp only: bolt_pending_Cons if_True apply_ops_Cons apply_op.simps)
  next
    case False
    with Cons.prems obtain b1 where
      b1: "bo_Put l bk (op_key x) (op_value x) = Inr b1" "bolt_run_ops l b1 xs = Inr bk'"
      by (auto split: sum.splits)
    then have "bk_ok b1 \<and> bk_view b1 = (bk_view bk)(op_key x \<mapsto> op_value x)"
      using bolt_contractD(2)[OF assms Cons.prems(1)] by blast
    moreover from this have "bk_ok bk' \<and> bk_view bk' = apply_ops (bolt_pending \<lparr>bb_ops = xs\<rparr>) (bk_view b1)"
      using Cons.IH b1(2) by blast
    ultimately show ?thesis
      using False by (simp only: bolt_pending_Cons if_False apply_ops_Cons apply_op.simps)
  qed
qed (simp add: bolt_pending_def)

text \<open>Skipping to the lower bound and stopping at the upper one selects the range.\<close>

lemma takeWhile_sorted_filter:
  assumes "\<And>x y. x < y \<Longrightarrow> U y \<Longrightarrow> U x"
  shows "sorted_entries kvs \<Longrightarrow> takeWhile (\<lambda>p. U (fst p)) kvs = filter (\<lambda>p. U (fst p)) kvs"
proof (induction kvs)
  case (Cons p kvs)
  have "sorted_entries kvs" and "\<forall>q \<in> set kvs. fst p < fst q"
    using Cons.prems by (simp_all add: sorted_entries_def)
  with Cons.IH assms show ?case by (auto simp: filter_empty_conv[symmetric] intro!: filter_False[symmetric])
qed simp

lemma window_filter:
  assumes L: "\<And>x y. x < y \<Longrightarrow> L x \<Longrightarrow> L y" and U: "\<And>x y. x < y \<Longrightarrow> U y \<Longrightarrow> U x"
  shows "sorted_entries kvs \<Longrightarrow>
    takeWhile (\<lambda>p. U (fst p)) (dropWhile (\<lambda>p. \<not> L (fst p)) kvs) =
    filter (\<lambda>p. L (fst p) \<and> U (fst p)) kvs"
proof (induction kvs)
  case (Cons p kvs)
  have rest: "sorted_entries kvs" "\<forall>q \<in> set kvs. fst p < fst q"
    using Cons.prems by (simp_all add: sorted_entries_def)
  show ?case
  proof (cases "L (fst p)")
    case True
    with rest L have "filter (\<lambda>p. L (fst p) \<and> U (fst p)) (p # kvs) = filter (\<lambda>p. U (fst p)) (p # kvs)"
      by (intro filter_cong) auto
    with True show ?thesis
      using takeWhile_sorted_filter[of U, OF U Cons.prems] by simp
  next
    case False
    with Cons.IH rest show ?thesis by simp
  qed
qed simp

lemma bolt_scan_loop_eq:
  "bolt_scan_loop opts yield s c =
    scan_loop yield s (takeWhile (\<lambda>p. in_bounds (map_option (\<lambda>opt. opt\<lparr>LowerBound := None\<rparr>) opts) (fst p)) c)"
proof (induction opts yield s c rule: bolt_scan_loop.induct)
  case (2 opts yield s k v c)
  have "(case opts of None \<Rightarrow> False
      | Some opt \<Rightarrow> (case UpperBound opt of None \<Rightarrow> False | Some hi \<Rightarrow> hi \<le> k)) \<longleftrightarrow>
    \<not> in_bounds (map_option (\<lambda>opt. opt\<lparr>LowerBound := None\<rparr>) opts) k"
    by (auto simp: in_bounds_def linorder_not_less split: option.splits)
  with 2 show ?case by (auto split: prod.splits option.splits)
qed simp

lemma bolt_start_eq:
  assumes "bolt_contract l bk_view bk_ok" and "bk_ok bk"
  shows "(case opts of None \<Rightarrow> bo_First l bk
      | Some opt \<Rightarrow> (case LowerBound opt of None \<Rightarrow> bo_First l bk | Some lo \<Rightarrow> bo_Seek l bk lo)) =
    dropWhile (\<lambda>p. \<not> in_bounds (map_option (\<lambda>opt. opt\<lparr>UpperBound := None\<rparr>) opts) (fst p)) (bo_First l bk)"
  using bolt_contractD(5)[OF assms]
  by (auto simp: in_bounds_def linorder_not_le split: option.splits)

lemma bolt_window:
  assumes "bolt_contract l bk_view bk_ok" and "bk_ok bk"
  shows "lists_store
    (takeWhile (\<lambda>p. in_bounds (map_option (\<lambda>opt. opt\<lparr>LowerBound := None\<rparr>) opts) (fst p))
      (dropWhile (\<lambda>p. \<not> in_bounds (map_option (\<lambda>opt. opt\<lparr>UpperBound := None\<rparr>) opts) (fst p)) (bo_First l bk)))
    (range_view opts (bk_view bk))"
proof -
  let ?U = "in_bounds (map_option (\<lambda>opt. opt\<lparr>LowerBound := None\<rparr>) opts)"
  let ?L = "in_bounds (map_option (\<lambda>opt. opt\<lparr>UpperBound := None\<rparr>) opts)"
  have F: "lists_store (bo_First l bk) (bk_view bk)" by (rule bolt_contractD(4)[OF assms])
  have "takeWhile (\<lambda>p. ?U (fst p)) (dropWhile (\<lambda>p. \<not> ?L (fst p)) (bo_First l bk)) =
    filter (\<lambda>p. ?L (fst p) \<and> ?U (fst p)) (bo_First l bk)"
    by (rule window_filter)
      (use F in \<open>auto simp: lists_store_def in_bounds_def split: option.splits dest: order.strict_trans
        intro: order.trans order.strict_implies_order\<close>)
  also have "\<dots> = filter (\<lambda>p. in_bounds opts (fst p)) (bo_First l bk)"
    by (rule filter_cong) (auto simp: in_bounds_def split: option.splits)
  finally show ?thesis
    using F by (simp add: lists_store_def sorted_entries_filter map_of_filter_key range_view_def)
qed

declare bolt_iter_pairs.simps [simp del]

lemma bolt_iter_pairs_set:
  "\<not> bi_done bi \<Longrightarrow>
    bolt_iter_pairs (fst (boltIterator_set (bi\<lparr>bi_cursor := c\<rparr>) (cursor_pair c))) =
    takeWhile (\<lambda>p. case bi_upper bi of None \<Rightarrow> True | Some hi \<Rightarrow> fst p < hi) c"
proof (induction c arbitrary: bi)
  case Nil
  then show ?case
    by (subst bolt_iter_pairs.simps)
      (simp add: boltIterator_set_def cursor_pair_def boltIterator_Valid_def)
next
  case (Cons p c)
  obtain k v where p: "p = (k, v)" by fastforce
  show ?case
  proof (cases "case bi_upper bi of None \<Rightarrow> True | Some hi \<Rightarrow> k < hi")
    case False
    with Cons.prems p show ?thesis
      by (subst bolt_iter_pairs.simps)
        (auto simp: boltIterator_set_def cursor_pair_def boltIterator_Valid_def split: option.splits)
  next
    case True
    let ?bi = "bi\<lparr>bi_cursor := p # c, bi_curKey := Some k, bi_curVal := Some v\<rparr>"
    have set: "fst (boltIterator_set (bi\<lparr>bi_cursor := p # c\<rparr>) (cursor_pair (p # c))) = ?bi"
      using True p by (auto simp: boltIterator_set_def cursor_pair_def split: option.splits)
    have "bolt_iter_pairs (fst (boltIterator_Next ?bi)) =
        takeWhile (\<lambda>p. case bi_upper bi of None \<Rightarrow> True | Some hi \<Rightarrow> fst p < hi) c"
      using Cons.IH[of ?bi] Cons.prems by (simp add: boltIterator_Next_def Let_def)
    moreover have "boltIterator_Valid ?bi" "boltIterator_Key ?bi = k" "boltIterator_Value ?bi = v"
      using Cons.prems by (simp_all add: boltIterator_Valid_def boltIterator_Key_def boltIterator_Value_def)
    ultimately have "bolt_iter_pairs ?bi =
        p # takeWhile (\<lambda>p. case bi_upper bi of None \<Rightarrow> True | Some hi \<Rightarrow> fst p < hi) c"
      using p by (subst bolt_iter_pairs.simps) simp
    with True p show ?thesis unfolding set by (cases "bi_upper bi") auto
  qed
qed

lemma bolt_iter_pairs_positioned:
  "\<not> bi_done bi \<Longrightarrow> bi_cursor bi = c \<Longrightarrow>
    bolt_iter_pairs (fst (boltIterator_set bi (cursor_pair c))) =
    takeWhile (\<lambda>p. case bi_upper bi of None \<Rightarrow> True | Some hi \<Rightarrow> fst p < hi) c"
  using bolt_iter_pairs_set[of bi c] by auto

lemma bolt_Iter_lists:
  assumes C: "bolt_contract l bk_view bk_ok" and G: "bolt_good l bk_ok bucket st"
  shows "\<exists>kvs. bolt_Iter l bucket st opts = Inr (kvs, None) \<and>
    lists_store kvs (range_view opts (bolt_view l bk_view bucket st))"
proof -
  obtain bk where bk: "bo_BeginErr l st = None" "bo_Bucket l st bucket = Some bk" "bk_ok bk"
    using G by (auto simp: bolt_good_def)
  let ?start = "case opts of None \<Rightarrow> bo_First l bk
      | Some opt \<Rightarrow> (case LowerBound opt of None \<Rightarrow> bo_First l bk | Some lo \<Rightarrow> bo_Seek l bk lo)"
  let ?kvs = "takeWhile (\<lambda>p. in_bounds (map_option (\<lambda>opt. opt\<lparr>LowerBound := None\<rparr>) opts) (fst p)) ?start"
  have "bolt_Iter l bucket st opts = Inr (?kvs, None)"
    by (auto simp: bolt_Iter_def boltDB_NewIter_def bk boltIterator_First_def Let_def
        bolt_iter_pairs_positioned in_bounds_def split: option.splits intro!: takeWhile_cong)
  moreover have "lists_store ?kvs (range_view opts (bk_view bk))"
    unfolding bolt_start_eq[OF C bk(3)] by (rule bolt_window[OF C bk(3)])
  ultimately show ?thesis by (simp add: bolt_view_def bk(2))
qed

lemma boltDB_Scan_eq:
  assumes C: "bolt_contract l bk_view bk_ok" and G: "bolt_good l bk_ok bucket st"
  shows "\<exists>kvs. lists_store kvs (range_view opts (bolt_view l bk_view bucket st)) \<and>
    (\<forall>yield (s :: 's). boltDB_Scan l bucket st opts yield s = scan_loop yield s kvs)"
proof -
  obtain bk where bk: "bo_BeginErr l st = None" "bo_Bucket l st bucket = Some bk" "bk_ok bk"
    using G by (auto simp: bolt_good_def)
  let ?kvs = "takeWhile (\<lambda>p. in_bounds (map_option (\<lambda>opt. opt\<lparr>LowerBound := None\<rparr>) opts) (fst p))
    (dropWhile (\<lambda>p. \<not> in_bounds (map_option (\<lambda>opt. opt\<lparr>UpperBound := None\<rparr>) opts) (fst p)) (bo_First l bk))"
  have "boltDB_Scan l bucket st opts yield s = scan_loop yield s ?kvs" for yield and s :: 's
    by (simp add: boltDB_Scan_def bk bolt_start_eq[OF C bk(3)] bolt_scan_loop_eq)
  then show ?thesis
    using bolt_window[OF C bk(3)] by (auto simp: bolt_view_def bk(2))
qed

lemma boltDB_Scan_is_DB_Scan:
  assumes C: "bolt_contract l bk_view bk_ok" and G: "bolt_good l bk_ok bucket st"
  shows "boltDB_Scan l bucket st opts yield s = DB_Scan (bolt_DB l bucket) st opts yield s"
proof -
  obtain kvs where "boltDB_Scan l bucket st opts yield s = scan_loop yield s kvs"
    and k1: "lists_store kvs (range_view opts (bolt_view l bk_view bucket st))"
    using boltDB_Scan_eq[OF C G] by metis
  moreover obtain kvs' where
    k2: "boltDB_Scan l bucket st opts (\<lambda>acc k v. (acc @ [(k, v)], None)) [] = (kvs', None)"
      "lists_store kvs' (range_view opts (bolt_view l bk_view bucket st))"
    using boltDB_Scan_eq[OF C G, where 's = "(bytes \<times> bytes) list"] by (metis append_Nil scan_loop_collect)
  moreover from k1 k2(2) have "kvs = kvs'" by (rule lists_store_unique)
  ultimately show ?thesis by (simp add: DB_Scan_def bolt_DB_def split: prod.split option.split)
qed

lemma bolt_storage_db:
  assumes C: "bolt_contract l bk_view bk_ok"
  shows "storage_db (bolt_DB l bucket) (bolt_view l bk_view bucket) bolt_pending
    (bolt_good l bk_ok bucket) ErrNotFound"
proof (unfold_locales, goal_cases)
  case (1 st k)
  then show ?case
    using bolt_contractD(1)[OF C] by (auto simp: bolt_DB_def boltDB_Get_def bolt_good_def bolt_view_def)
next
  case (2 st)
  then show ?case by (simp add: bolt_DB_def boltDB_NewBatch_def bolt_pending_def)
next
  case (3 b k v b' e)
  then show ?case by (auto simp: bolt_DB_def boltBatch_Set_def bolt_pending_def)
next
  case (4 b k b' e)
  then show ?case by (auto simp: bolt_DB_def boltBatch_Delete_def bolt_pending_def)
next
  case (5 st b m st')
  then obtain bk bk' where bk: "bo_BeginErr l st = None" "bo_Bucket l st bucket = Some bk" "bk_ok bk"
      "bolt_run_ops l bk (bb_ops b) = Inr bk'" "bo_CommitBucket l st bucket bk' = (st', None)"
    by (auto simp: bolt_DB_def boltBatch_Commit_def bolt_good_def split: sum.splits)
  moreover have "bk_ok bk' \<and> bk_view bk' = apply_ops (bolt_pending b) (bk_view bk)"
    using bolt_run_ops_view[OF C bk(3,4)] by (simp add: bolt_pending_def)
  moreover have "bo_BeginErr l st' = None \<and> bo_Bucket l st' bucket = Some bk'"
    by (rule bolt_contractD(6)[OF C bk(1,5)])
  ultimately show ?case by (simp add: bolt_good_def bolt_view_def)
next
  case (6 st b m st' err)
  then obtain bk where bk: "bo_BeginErr l st = None" "bo_Bucket l st bucket = Some bk" "bk_ok bk"
    by (auto simp: bolt_good_def)
  with 6 have "st' = st \<or> (\<exists>bk'. bo_CommitBucket l st bucket bk' = (st', Some err))"
    by (auto simp: bolt_DB_def boltBatch_Commit_def split: sum.splits)
  with bk bolt_contractD(7)[OF C] show ?case by (auto simp: bolt_good_def bolt_view_def)
next
  case (7 st opts)
  then show ?case using bolt_Iter_lists[OF C] by (simp add: bolt_DB_def)
next
  case (8 st opts)
  then show ?case
    using boltDB_Scan_eq[OF C, where 's = "(bytes \<times> bytes) list"]
    by (simp add: bolt_DB_def) (metis append_Nil scan_loop_collect)
next
  case (9 st st' e)
  then show ?case by (simp add: bolt_DB_def)
qed

lemma mem_bolt_contract: "bolt_contract mem_bolt map_of sorted_entries"
  unfolding bolt_contract_def
  by (auto simp: mem_bolt_def sorted_kv_put map_of_kv_put sorted_kv_remove map_of_kv_remove
      lists_store_def split: if_splits)

interpretation memb: storage_db "bolt_DB mem_bolt (bytes_of_string defaultBucket)"
    "bolt_view mem_bolt map_of (bytes_of_string defaultBucket)" bolt_pending
    "bolt_good mem_bolt sorted_entries (bytes_of_string defaultBucket)" ErrNotFound
  by (rule bolt_storage_db[OF mem_bolt_contract])


section \<open>Properties\<close>

text \<open>C17: the bbolt adapter implements the storage contract: its buffered batches, its
  bounded scan and its cursor-driven iterator act on one ordered map of keys, the content
  of its bucket, as \<open>contract.go\<close> says.\<close>

theorem bolt_implements_storage:
  assumes "bolt_contract l bk_view bk_ok"
  shows "storage_db (bolt_DB l bucket) (bolt_view l bk_view bucket) bolt_pending
      (bolt_good l bk_ok bucket) ErrNotFound \<and>
    (bolt_good l bk_ok bucket st \<longrightarrow>
      boltDB_Scan l bucket st opts yield s = DB_Scan (bolt_DB l bucket) st opts yield s)"
  using bolt_storage_db[OF assms] boltDB_Scan_is_DB_Scan[OF assms] by auto

theorem bolt_implements_storage_witness:
  "storage_db (bolt_DB mem_bolt [1]) (bolt_view mem_bolt map_of [1]) bolt_pending
    (bolt_good mem_bolt sorted_entries [1]) ErrNotFound"
  by (rule bolt_implements_storage[OF mem_bolt_contract, THEN conjunct1])

text \<open>A bbolt iterator that has run to its end cannot be restarted: \<open>First\<close> repositions
  the cursor but leaves the flag that ended the loop, so \<open>Valid\<close> stays false even when
  \<open>First\<close> itself reports a pair.\<close>

theorem bolt_iterator_not_restartable:
  assumes "bi_done bi"
  shows "\<not> boltIterator_Valid (fst (boltIterator_First l bi)) \<and>
    bolt_iter_pairs (fst (boltIterator_First l bi)) = [] \<and>
    (bi_lower bi = None \<longrightarrow> bi_upper bi = None \<longrightarrow>
      snd (boltIterator_First l bi) = (bo_First l (bi_bkt bi) \<noteq> []))"
proof -
  have "bi_done (fst (boltIterator_First l bi))"
    using assms by (auto simp: boltIterator_First_def boltIterator_set_def Let_def split: option.split)
  then have invalid: "\<not> boltIterator_Valid (fst (boltIterator_First l bi))"
    by (simp add: boltIterator_Valid_def)
  then have "bolt_iter_pairs (fst (boltIterator_First l bi)) = []"
    by (subst bolt_iter_pairs.simps) simp
  with invalid show ?thesis
    by (auto simp: boltIterator_First_def boltIterator_set_def cursor_pair_def Let_def split: list.split)
qed

theorem bolt_iterator_not_restartable_witness:
  "let bi = \<lparr>bi_bkt = [([1], [2])], bi_cursor = [], bi_lower = None, bi_upper = None,
      bi_curKey = None, bi_curVal = None, bi_done = True\<rparr>
   in snd (boltIterator_First mem_bolt bi) \<and> \<not> boltIterator_Valid (fst (boltIterator_First mem_bolt bi))"
  using bolt_iterator_not_restartable[of "\<lparr>bi_bkt = [([1], [2])], bi_cursor = [], bi_lower = None,
      bi_upper = None, bi_curKey = None, bi_curVal = None, bi_done = True\<rparr>" mem_bolt]
  by (simp add: Let_def mem_bolt_def)

end
