(* ===== verification/Messages.thy ===== *)
theory Messages
  imports Prelude
begin

text \<open>
  The protocol messages. Their Go types are generated by the module
  \<open>github.com/futureq-io/protocol\<close>, which is not part of the repository: the records
  below carry the fields the sources read and write, an index stays an abstract type
  \<open>'idx\<close>, and the wire encoding (\<open>proto.Marshal\<close>, \<open>proto.Unmarshal\<close>)
  is the record parameter \<open>proto_lib\<close> with the documented law that unmarshalling
  undoes marshalling.
\<close>

section \<open>Definitions\<close>

record 'idx StoredMessage =
  sm_Topic :: string
  sm_Payload :: bytes
  sm_EnqueuedAtUnixMs :: i64
  sm_DelayMs :: i64
  sm_TtlMs :: i64
  sm_Indexes :: "'idx list"

record 'idx PublishMessage =
  pm_Topic :: string
  pm_Payload :: bytes
  pm_DelayMs :: i64
  pm_TtlMs :: i64
  pm_Indexes :: "'idx list"

record QueueMessage =
  qm_Topic :: string
  qm_Payload :: bytes
  qm_DeliveryTag :: bytes
  qm_EnqueuedAtUnixMs :: i64
  qm_DelayMs :: i64

record 'idx proto_lib =
  proto_Marshal :: "'idx StoredMessage \<Rightarrow> goerror + bytes"
  proto_MarshalIndex :: "'idx \<Rightarrow> goerror + bytes"
  proto_Unmarshal :: "bytes \<Rightarrow> goerror + 'idx StoredMessage"

definition proto_contract :: "'idx proto_lib \<Rightarrow> bool" where
  "proto_contract pl \<longleftrightarrow>
    (\<forall>msg data. proto_Marshal pl msg = Inr data \<longrightarrow> proto_Unmarshal pl data = Inr msg)"

text \<open>
  A concrete codec to instantiate the parameter: every byte string is written byte by
  byte behind a continuation mark, so that no length has to fit a field.
\<close>

fun enc_bytes :: "bytes \<Rightarrow> bytes" where
  "enc_bytes [] = [0]"
| "enc_bytes (b # bs) = 1 # b # enc_bytes bs"

fun dec_bytes :: "bytes \<Rightarrow> (bytes \<times> bytes) option" where
  "dec_bytes (c # rest) =
    (if c = 0 then Some ([], rest)
     else case rest of
       b # rest' \<Rightarrow> (case dec_bytes rest' of None \<Rightarrow> None | Some (bs, r) \<Rightarrow> Some (b # bs, r))
     | [] \<Rightarrow> None)"
| "dec_bytes [] = None"

fun enc_list :: "bytes list \<Rightarrow> bytes" where
  "enc_list [] = [0]"
| "enc_list (x # xs) = 1 # enc_bytes x @ enc_list xs"

text \<open>Each element takes at least a byte: the input's length bounds the number of turns.\<close>

fun dec_list :: "nat \<Rightarrow> bytes \<Rightarrow> bytes list option" where
  "dec_list (Suc n) (c # rest) =
    (if c = 0 then Some []
     else case dec_bytes rest of None \<Rightarrow> None
       | Some (x, r) \<Rightarrow> map_option ((#) x) (dec_list n r))"
| "dec_list _ _ = None"

definition mem_proto :: "bytes proto_lib" where
  "mem_proto = \<lparr>
     proto_Marshal = (\<lambda>m. Inr (be_put 8 (sm_EnqueuedAtUnixMs m) @ be_put 8 (sm_DelayMs m) @
       be_put 8 (sm_TtlMs m) @ enc_bytes (bytes_of_string (sm_Topic m)) @
       enc_bytes (sm_Payload m) @ enc_list (sm_Indexes m))),
     proto_MarshalIndex = (\<lambda>idx. Inr idx),
     proto_Unmarshal = (\<lambda>bs. if length bs < 24 then Inl IoErrUnexpectedEOF else
       case dec_bytes (drop 24 bs) of None \<Rightarrow> Inl IoErrUnexpectedEOF
       | Some (t, r) \<Rightarrow> (case dec_bytes r of None \<Rightarrow> Inl IoErrUnexpectedEOF
         | Some (p, r') \<Rightarrow> (case dec_list (length r') r' of None \<Rightarrow> Inl IoErrUnexpectedEOF
           | Some idx \<Rightarrow> Inr \<lparr>sm_Topic = string_of_bytes t, sm_Payload = p,
               sm_EnqueuedAtUnixMs = be_get (slice_of bs 0 8), sm_DelayMs = be_get (slice_of bs 8 16),
               sm_TtlMs = be_get (slice_of bs 16 24), sm_Indexes = idx\<rparr>)))\<rparr>"

section \<open>Lemmas\<close>

lemma proto_contractD:
  "proto_contract pl \<Longrightarrow> proto_Marshal pl msg = Inr data \<Longrightarrow> proto_Unmarshal pl data = Inr msg"
  by (simp add: proto_contract_def)

lemma dec_enc_bytes [simp]: "dec_bytes (enc_bytes bs @ r) = Some (bs, r)"
  by (induction bs) auto

lemma dec_enc_list: "length (enc_list xs) \<le> n \<Longrightarrow> dec_list n (enc_list xs) = Some xs"
proof (induction xs arbitrary: n)
  case Nil
  then show ?case by (cases n) auto
next
  case (Cons x xs)
  then show ?case by (cases n) auto
qed

lemma mem_proto_contract: "proto_contract mem_proto"
  unfolding proto_contract_def
proof (intro allI impI)
  fix msg :: "bytes StoredMessage" and data
  assume "proto_Marshal mem_proto msg = Inr data"
  then have data: "data = be_put 8 (sm_EnqueuedAtUnixMs msg) @ be_put 8 (sm_DelayMs msg) @
      be_put 8 (sm_TtlMs msg) @ enc_bytes (bytes_of_string (sm_Topic msg)) @
      enc_bytes (sm_Payload msg) @ enc_list (sm_Indexes msg)"
    by (simp add: mem_proto_def)
  show "proto_Unmarshal mem_proto data = Inr msg"
    by (simp add: mem_proto_def data slice_of_def dec_enc_list)
qed

end
