(* ===== verification/Repository.thy ===== *)
theory Repository
  imports Pebble Bolt Keys Messages
begin

text \<open>
  The event repository, \<open>src/internal/repository/events.go\<close>: the counter of event
  identifiers and the batch entries one stored message produces. The engine is any
  method table \<open>DB\<close>; the message codec and the topic hash are parameters.

  The lemmas proved in the context of \<open>storage_db\<close> give the mutations each
  operation adds to a batch. The properties are the freshness of identifiers, the recovery
  of the counter after a restart, and what concurrent batches do to it.
\<close>

section \<open>Definitions\<close>

definition eventsLastIDKey :: bytes where
  "eventsLastIDKey = bytes_of_string ''metadata/event-repo/last-id''"

record EventRepository =
  lastID :: u64
  bucketSize :: i64

text \<open>\<open>binary.BigEndian.Uint64\<close> of a slice of any length: fewer than eight bytes panic.\<close>

definition Uint64 :: "bytes \<Rightarrow> u64 go" where
  "Uint64 bs = (if length bs < 8 then Panic ''runtime error: index out of range'' else Ret (be_get (take 8 bs)))"

definition NewEventRepository :: "('st, 'b) DB \<Rightarrow> 'st \<Rightarrow> i64 \<Rightarrow> (goerror + EventRepository) go" where
  "NewEventRepository D st bucketSize0 =
    (case db_Get D st eventsLastIDKey of
       Inl err \<Rightarrow>
         (if errors_Is err PebbleErrNotFound
          then Ret (Inr \<lparr>lastID = 0, bucketSize = bucketSize0\<rparr>)
          else Ret (Inl err))
     | Inr val \<Rightarrow>
         bind_go (Uint64 val) (\<lambda>i. Ret (Inr \<lparr>lastID = i, bucketSize = bucketSize0\<rparr>)))"

text \<open>The loops over the indexes of a message, raw and to be marshalled.\<close>

fun raw_indexes_loop :: "('st, 'b) DB \<Rightarrow> 'b \<Rightarrow> bytes \<Rightarrow> bytes list \<Rightarrow> 'b \<times> goerror option" where
  "raw_indexes_loop D b key [] = (b, None)"
| "raw_indexes_loop D b key (idx # indexes) =
    (case db_Set D b idx key of
       (b', Some err) \<Rightarrow> (b', Some err)
     | (b', None) \<Rightarrow> raw_indexes_loop D b' key indexes)"

fun msg_indexes_loop :: "('st, 'b) DB \<Rightarrow> 'idx proto_lib \<Rightarrow> 'b \<Rightarrow> bytes \<Rightarrow> 'idx list \<Rightarrow> 'b \<times> goerror option" where
  "msg_indexes_loop D pl b key [] = (b, None)"
| "msg_indexes_loop D pl b key (idx # indexes) =
    (case proto_MarshalIndex pl idx of
       Inl err \<Rightarrow> (b, Some (Wrap ''failed to marshal index to bytes'' err))
     | Inr idxBytes \<Rightarrow>
        (case db_Set D b idxBytes key of
           (b', Some err) \<Rightarrow> (b', Some err)
         | (b', None) \<Rightarrow> msg_indexes_loop D pl b' key indexes))"

definition StoreWithBatch :: "('st, 'b) DB \<Rightarrow> 'idx proto_lib \<Rightarrow> (string \<Rightarrow> u64) \<Rightarrow> EventRepository \<Rightarrow> 'b
    \<Rightarrow> 'idx StoredMessage \<Rightarrow> ((EventRepository \<times> 'b) \<times> (goerror + bytes)) go" where
  "StoreWithBatch D pl XXHash er b msg =
    (let nextID = lastID er + 1;
         er' = er\<lparr>lastID := nextID\<rparr>;
         fireAtMs = sm_EnqueuedAtUnixMs msg + sm_DelayMs msg
     in bind_go (CalculateBucket fireAtMs (bucketSize er)) (\<lambda>bucket.
       let topicHash = XXHash (sm_Topic msg);
           key = EventKey bucket topicHash nextID;
           idBytes = be_put 8 nextID
       in case db_Set D b eventsLastIDKey idBytes of
         (b1, Some err) \<Rightarrow> Ret ((er', b1), Inl err)
       | (b1, None) \<Rightarrow>
          (case proto_Marshal pl msg of
             Inl err \<Rightarrow> Ret ((er', b1), Inl (Wrap ''failed to marshal message for topic'' err))
           | Inr data \<Rightarrow>
              (case db_Set D b1 key data of
                 (b2, Some err) \<Rightarrow> Ret ((er', b2), Inl err)
               | (b2, None) \<Rightarrow>
                  (case msg_indexes_loop D pl b2 key (sm_Indexes msg) of
                     (b3, Some err) \<Rightarrow> Ret ((er', b3), Inl err)
                   | (b3, None) \<Rightarrow> Ret ((er', b3), Inr key))))))"

definition StoreRawWithBatch :: "('st, 'b) DB \<Rightarrow> EventRepository \<Rightarrow> 'b \<Rightarrow> u64 \<Rightarrow> u64 \<Rightarrow> bytes list \<Rightarrow> bytes
    \<Rightarrow> (EventRepository \<times> 'b) \<times> (goerror + bytes)" where
  "StoreRawWithBatch D er b bucket topicHash indexes msg =
    (let nextID = lastID er + 1;
         er' = er\<lparr>lastID := nextID\<rparr>;
         key = EventKey bucket topicHash nextID;
         idBytes = be_put 8 nextID
     in case db_Set D b eventsLastIDKey idBytes of
       (b1, Some err) \<Rightarrow> ((er', b1), Inl err)
     | (b1, None) \<Rightarrow>
        (case db_Set D b1 key msg of
           (b2, Some err) \<Rightarrow> ((er', b2), Inl err)
         | (b2, None) \<Rightarrow>
            (case raw_indexes_loop D b2 key indexes of
               (b3, Some err) \<Rightarrow> ((er', b3), Inl err)
             | (b3, None) \<Rightarrow> ((er', b3), Inr key))))"

definition DeleteWithBatch :: "('st, 'b) DB \<Rightarrow> 'b \<Rightarrow> bytes \<Rightarrow> 'b \<times> goerror option" where
  "DeleteWithBatch D b key = db_Delete D b key"

subsection \<open>EventBatch\<close>

text \<open>
  An \<open>EventBatch\<close> is a batch with a pointer to the shared repository, which every
  operation reads and updates: the repository is passed beside the batch.
\<close>

record 'b EventBatch =
  eb_b :: 'b

definition EventRepository_NewBatch :: "('st, 'b) DB \<Rightarrow> 'st \<Rightarrow> 'b EventBatch" where
  "EventRepository_NewBatch D st = \<lparr>eb_b = db_NewBatch D st\<rparr>"

definition EventBatch_Store :: "('st, 'b) DB \<Rightarrow> 'idx proto_lib \<Rightarrow> (string \<Rightarrow> u64) \<Rightarrow> EventRepository
    \<Rightarrow> 'b EventBatch \<Rightarrow> 'idx StoredMessage \<Rightarrow> ((EventRepository \<times> 'b EventBatch) \<times> (goerror + bytes)) go" where
  "EventBatch_Store D pl XXHash repo eb msg =
    (let nextID = lastID repo + 1;
         repo' = repo\<lparr>lastID := nextID\<rparr>;
         fireAtMs = sm_EnqueuedAtUnixMs msg + sm_DelayMs msg
     in bind_go (CalculateBucket fireAtMs (bucketSize repo)) (\<lambda>bucket.
       let topicHash = XXHash (sm_Topic msg);
           key = EventKey bucket topicHash nextID
       in case db_Set D (eb_b eb) eventsLastIDKey (be_put 8 nextID) of
         (b1, Some err) \<Rightarrow> Ret ((repo', eb\<lparr>eb_b := b1\<rparr>), Inl err)
       | (b1, None) \<Rightarrow>
          (case proto_Marshal pl msg of
             Inl err \<Rightarrow> Ret ((repo', eb\<lparr>eb_b := b1\<rparr>), Inl (Wrap ''failed to marshal message for topic'' err))
           | Inr data \<Rightarrow>
              (case db_Set D b1 key data of
                 (b2, Some err) \<Rightarrow> Ret ((repo', eb\<lparr>eb_b := b2\<rparr>), Inl err)
               | (b2, None) \<Rightarrow>
                  (case msg_indexes_loop D pl b2 key (sm_Indexes msg) of
                     (b3, Some err) \<Rightarrow> Ret ((repo', eb\<lparr>eb_b := b3\<rparr>), Inl err)
                   | (b3, None) \<Rightarrow> Ret ((repo', eb\<lparr>eb_b := b3\<rparr>), Inr key))))))"

definition EventBatch_StoreRaw :: "('st, 'b) DB \<Rightarrow> EventRepository \<Rightarrow> 'b EventBatch \<Rightarrow> u64 \<Rightarrow> u64
    \<Rightarrow> bytes list \<Rightarrow> bytes \<Rightarrow> (EventRepository \<times> 'b EventBatch) \<times> (goerror + bytes)" where
  "EventBatch_StoreRaw D repo eb bucket topicHash indexes msg =
    (let nextID = lastID repo + 1;
         repo' = repo\<lparr>lastID := nextID\<rparr>;
         key = EventKey bucket topicHash nextID
     in case db_Set D (eb_b eb) eventsLastIDKey (be_put 8 nextID) of
       (b1, Some err) \<Rightarrow> ((repo', eb\<lparr>eb_b := b1\<rparr>), Inl err)
     | (b1, None) \<Rightarrow>
        (case db_Set D b1 key msg of
           (b2, Some err) \<Rightarrow> ((repo', eb\<lparr>eb_b := b2\<rparr>), Inl err)
         | (b2, None) \<Rightarrow>
            (case raw_indexes_loop D b2 key indexes of
               (b3, Some err) \<Rightarrow> ((repo', eb\<lparr>eb_b := b3\<rparr>), Inl err)
             | (b3, None) \<Rightarrow> ((repo', eb\<lparr>eb_b := b3\<rparr>), Inr key))))"

definition EventBatch_Delete :: "('st, 'b) DB \<Rightarrow> 'b EventBatch \<Rightarrow> bytes \<Rightarrow> 'b EventBatch \<times> goerror option" where
  "EventBatch_Delete D eb key = (case db_Delete D (eb_b eb) key of (b', e) \<Rightarrow> (eb\<lparr>eb_b := b'\<rparr>, e))"

definition EventBatch_Commit :: "('st, 'b) DB \<Rightarrow> 'st \<Rightarrow> 'b EventBatch \<Rightarrow> SyncMode \<Rightarrow> 'st \<times> goerror option" where
  "EventBatch_Commit D st eb mode = db_Commit D st (eb_b eb) mode"

subsection \<open>Specification\<close>

text \<open>The mutations that store one message under identifier \<open>i\<close>.\<close>

definition store_ops :: "u64 \<Rightarrow> u64 \<Rightarrow> u64 \<Rightarrow> bytes list \<Rightarrow> bytes \<Rightarrow> BatchOp list" where
  "store_ops i bucket topicHash indexes msg =
    OpSet eventsLastIDKey (be_put 8 i) # OpSet (EventKey bucket topicHash i) msg #
    map (\<lambda>idx. OpSet idx (EventKey bucket topicHash i)) indexes"

text \<open>The counter a store holds, and the indexes that cannot be taken for other keys.\<close>

definition stored_last :: "store \<Rightarrow> u64" where
  "stored_last m = (case m eventsLastIDKey of None \<Rightarrow> 0 | Some v \<Rightarrow> be_get v)"

definition index_ok :: "bytes \<Rightarrow> bool" where
  "index_ok idx \<longleftrightarrow> length idx \<noteq> 24 \<and> idx \<noteq> eventsLastIDKey"

text \<open>
  The invariant of the repository and its store: the stored counter is well formed and not
  ahead of the one in memory, and no event has an identifier above the stored counter.
\<close>

definition repo_inv :: "EventRepository \<Rightarrow> store \<Rightarrow> bool" where
  "repo_inv er m \<longleftrightarrow>
    (\<forall>v. m eventsLastIDKey = Some v \<longrightarrow> length v = 8) \<and>
    stored_last m \<le> lastID er \<and>
    (\<forall>b h i. m (EventKey b h i) \<noteq> None \<longrightarrow> i \<le> stored_last m)"


section \<open>Lemmas\<close>

lemma length_eventsLastIDKey [simp]: "length eventsLastIDKey = 27"
  by (simp add: eventsLastIDKey_def)

lemma EventKey_not_lastID [simp]: "EventKey b h i \<noteq> eventsLastIDKey" "eventsLastIDKey \<noteq> EventKey b h i"
  by (metis length_EventKey length_eventsLastIDKey numeral_eq_iff semiring_norm(88,90))+

lemma Uint64_be_put [simp]: "Uint64 (be_put 8 i) = Ret i"
  by (simp add: Uint64_def)

lemma apply_index_ops:
  "apply_ops (map (\<lambda>idx. OpSet idx v) indexes) m k = (if k \<in> set indexes then Some v else m k)"
  by (induction indexes arbitrary: m) auto

lemma apply_store_ops:
  "apply_ops (store_ops i bucket h indexes msg) m k =
    (if k \<in> set indexes then Some (EventKey bucket h i)
     else if k = EventKey bucket h i then Some msg
     else if k = eventsLastIDKey then Some (be_put 8 i)
     else m k)"
  by (simp add: store_ops_def apply_index_ops)

lemma stored_last_store_ops:
  "\<forall>idx\<in>set indexes. index_ok idx \<Longrightarrow>
    stored_last (apply_ops (store_ops i bucket h indexes msg) m) = i"
  by (auto simp: stored_last_def apply_store_ops index_ok_def)

text \<open>Storing under the next identifier keeps the invariant and never hits an existing event.\<close>

lemma fresh_key:
  assumes "repo_inv er m" and "lastID er \<noteq> - 1"
  shows "m (EventKey bucket h (lastID er + 1)) = None"
proof (rule ccontr)
  assume "m (EventKey bucket h (lastID er + 1)) \<noteq> None"
  with assms(1) have "lastID er + 1 \<le> stored_last m" and "stored_last m \<le> lastID er"
    unfolding repo_inv_def by blast+
  then have "lastID er + 1 \<le> lastID er" by (rule order_trans)
  with assms(2) show False by (simp add: less_plus_one_iff flip: not_less)
qed

lemma repo_inv_store:
  assumes inv: "repo_inv er m" and max: "lastID er \<noteq> - 1"
    and idx: "\<forall>idx\<in>set indexes. index_ok idx"
  shows "repo_inv (er\<lparr>lastID := lastID er + 1\<rparr>)
    (apply_ops (store_ops (lastID er + 1) bucket h indexes msg) m)"
proof -
  have le: "i \<le> lastID er + 1" if "i \<le> stored_last m" for i
    using that inv less_plus_one_iff[OF max, of "lastID er"] by (auto simp: repo_inv_def)
  have "m (EventKey b g i) \<noteq> None \<Longrightarrow> i \<le> lastID er + 1" for b g i
    using inv le by (simp add: repo_inv_def)
  then show ?thesis
    using idx by (auto simp: repo_inv_def stored_last_store_ops apply_store_ops index_ok_def split: if_splits)
qed

text \<open>The two write paths and the two batch types are the same operation.\<close>

lemma msg_indexes_loop_raw:
  "map (proto_MarshalIndex pl) idxs = map Inr indexes \<Longrightarrow>
    msg_indexes_loop D pl b key idxs = raw_indexes_loop D b key indexes"
proof (induction idxs arbitrary: b indexes)
  case (Cons idx idxs)
  then show ?case by (auto simp: Cons_eq_map_conv split: prod.split option.split)
qed simp

lemma StoreWithBatch_raw:
  assumes "CalculateBucket (sm_EnqueuedAtUnixMs msg + sm_DelayMs msg) (bucketSize er) = Ret bucket"
    and "proto_Marshal pl msg = Inr data"
    and "map (proto_MarshalIndex pl) (sm_Indexes msg) = map Inr indexes"
  shows "StoreWithBatch D pl XXHash er b msg =
    Ret (StoreRawWithBatch D er b bucket (XXHash (sm_Topic msg)) indexes data)"
  using assms by (simp add: StoreWithBatch_def StoreRawWithBatch_def Let_def msg_indexes_loop_raw
      split: prod.split option.split)

context storage_db
begin

lemma raw_indexes_loop_ops:
  "\<exists>b'. raw_indexes_loop D b key indexes = (b', None) \<and>
    pending b' = pending b @ map (\<lambda>idx. OpSet idx key) indexes"
proof (induction indexes arbitrary: b)
  case (Cons idx indexes)
  obtain b1 where b1: "db_Set D b idx key = (b1, None)" "pending b1 = pending b @ [OpSet idx key]"
    using Set_eq by blast
  with Cons[of b1] show ?case by auto
qed simp

lemma StoreRawWithBatch_ops:
  "\<exists>b'. StoreRawWithBatch D er b bucket h indexes msg =
      ((er\<lparr>lastID := lastID er + 1\<rparr>, b'), Inr (EventKey bucket h (lastID er + 1))) \<and>
    pending b' = pending b @ store_ops (lastID er + 1) bucket h indexes msg"
proof -
  let ?k = "EventKey bucket h (lastID er + 1)"
  obtain b1 where b1: "db_Set D b eventsLastIDKey (be_put 8 (lastID er + 1)) = (b1, None)"
      "pending b1 = pending b @ [OpSet eventsLastIDKey (be_put 8 (lastID er + 1))]"
    using Set_eq by blast
  obtain b2 where b2: "db_Set D b1 ?k msg = (b2, None)" "pending b2 = pending b1 @ [OpSet ?k msg]"
    using Set_eq by blast
  obtain b3 where b3: "raw_indexes_loop D b2 ?k indexes = (b3, None)"
      "pending b3 = pending b2 @ map (\<lambda>idx. OpSet idx ?k) indexes"
    using raw_indexes_loop_ops by blast
  show ?thesis
    by (rule exI[of _ b3]) (simp add: StoreRawWithBatch_def Let_def b1 b2 b3 store_ops_def)
qed

lemma NewEventRepository_ok:
  assumes "good st" and "repo_inv er (view st)" and "view st eventsLastIDKey \<noteq> None \<or> notfound = PebbleErrNotFound"
  shows "NewEventRepository D st bs = Ret (Inr \<lparr>lastID = stored_last (view st), bucketSize = bs\<rparr>)"
  using assms
  by (auto simp: NewEventRepository_def Get repo_inv_def stored_last_def Uint64_def split: option.splits)

lemma NewEventRepository_missing:
  "good st \<Longrightarrow> view st eventsLastIDKey = None \<Longrightarrow> \<not> errors_Is notfound PebbleErrNotFound \<Longrightarrow>
    NewEventRepository D st bs = Ret (Inl notfound)"
  by (simp add: NewEventRepository_def Get)

end


section \<open>Properties\<close>

text \<open>The standalone write path is the Raft write path: when the message and its indexes
  marshal, \<open>StoreWithBatch\<close> does what \<open>StoreRawWithBatch\<close> does with the computed
  bucket, topic hash and bytes, on every engine and on every error; the two operations of
  \<open>EventBatch\<close> repeat them.\<close>

theorem store_paths_agree:
  assumes "CalculateBucket (sm_EnqueuedAtUnixMs msg + sm_DelayMs msg) (bucketSize er) = Ret bucket"
    and "proto_Marshal pl msg = Inr data"
    and "map (proto_MarshalIndex pl) (sm_Indexes msg) = map Inr indexes"
  shows "StoreWithBatch D pl XXHash er b msg =
      Ret (StoreRawWithBatch D er b bucket (XXHash (sm_Topic msg)) indexes data) \<and>
    EventBatch_StoreRaw D er \<lparr>eb_b = b\<rparr> bucket (XXHash (sm_Topic msg)) indexes data =
      (case StoreRawWithBatch D er b bucket (XXHash (sm_Topic msg)) indexes data of
         ((er', b'), r) \<Rightarrow> ((er', \<lparr>eb_b = b'\<rparr>), r)) \<and>
    EventBatch_Store D pl XXHash er \<lparr>eb_b = b\<rparr> msg =
      Ret (EventBatch_StoreRaw D er \<lparr>eb_b = b\<rparr> bucket (XXHash (sm_Topic msg)) indexes data)"
  using assms by (simp add: StoreWithBatch_raw EventBatch_Store_def EventBatch_StoreRaw_def
      StoreRawWithBatch_def Let_def msg_indexes_loop_raw split: prod.split option.split)

theorem store_paths_agree_witness:
  "StoreWithBatch (pebble_DB mem_pebble) mem_proto (\<lambda>_. 7) \<lparr>lastID = 4, bucketSize = 0\<rparr> []
    \<lparr>sm_Topic = ''t'', sm_Payload = [1], sm_EnqueuedAtUnixMs = 5, sm_DelayMs = 6, sm_TtlMs = 0, sm_Indexes = [[9]]\<rparr> =
   Ret (StoreRawWithBatch (pebble_DB mem_pebble) \<lparr>lastID = 4, bucketSize = 0\<rparr> [] 11 7 [[9]]
     (be_put 8 (5 :: i64) @ be_put 8 (6 :: i64) @ be_put 8 (0 :: i64) @ [1, 116, 0, 1, 1, 0, 1, 1, 9, 0, 0]))"
  by (rule store_paths_agree[of "\<lparr>sm_Topic = ''t'', sm_Payload = [1], sm_EnqueuedAtUnixMs = 5, sm_DelayMs = 6,
      sm_TtlMs = 0, sm_Indexes = [[9]]\<rparr>" _ _ mem_proto, THEN conjunct1])
    (simp_all add: CalculateBucket_def mem_proto_def bytes_of_string_def)

text \<open>C15: a stored message gets a fresh key and is then found under it: on every engine that
  meets the contract, committing the batch of one \<open>StoreRawWithBatch\<close> adds the message
  under a key no event had, points its indexes to it, leaves every other event as it was,
  and keeps the invariant that no event has an identifier above the stored counter.\<close>

theorem store_fresh_and_found:
  assumes S: "storage_db D view pending good notfound" and G: "good st"
    and inv: "repo_inv er (view st)" and max: "lastID er \<noteq> - 1"
    and idx: "list_all index_ok indexes"
    and store: "StoreRawWithBatch D er (db_NewBatch D st) bucket h indexes msg = ((er', b), r)"
    and commit: "db_Commit D st b mode = (st', None)"
  shows "\<exists>key. r = Inr key \<and> ParseEventKey key = Inr (h, bucket, lastID er + 1) \<and>
    view st key = None \<and> view st' key = Some msg \<and>
    list_all (\<lambda>i. view st' i = Some key) indexes \<and>
    (\<forall>k. length k = 24 \<longrightarrow> k \<noteq> key \<longrightarrow> view st' k = view st k) \<and>
    good st' \<and> repo_inv er' (view st')"
proof -
  let ?key = "EventKey bucket h (lastID er + 1)"
  have idx': "\<forall>i\<in>set indexes. index_ok i" using idx by (simp add: list_all_iff)
  have b: "er' = er\<lparr>lastID := lastID er + 1\<rparr>" "r = Inr ?key"
      "pending b = store_ops (lastID er + 1) bucket h indexes msg"
    using storage_db.StoreRawWithBatch_ops[OF S, of er "db_NewBatch D st" bucket h indexes msg]
      storage_db.NewBatch[OF S, of st] store by auto
  have st': "good st'" "view st' = apply_ops (pending b) (view st)"
    using storage_db.Commit_ok[OF S G commit] by auto
  have "view st ?key = None" by (rule fresh_key[OF inv max])
  moreover have "repo_inv er' (view st')"
    unfolding b st'(2) by (rule repo_inv_store[OF inv max idx'])
  moreover have "?key \<notin> set indexes" using idx' length_EventKey by (fastforce simp: index_ok_def)
  ultimately show ?thesis
    using idx' st' b(2,3)
    by (intro exI[of _ ?key]) (auto simp: list_all_iff apply_store_ops index_ok_def)
qed

theorem store_fresh_and_found_witness:
  "\<exists>key. ParseEventKey key = Inr (7, 11, 1) \<and>
    map_of (kv_apply (store_ops 1 11 7 [[9]] [5]) []) key = Some [5]"
proof -
  have D: "db_Commit (pebble_DB mem_pebble) [] (store_ops 1 11 7 [[9]] [5]) Sync =
      (kv_apply (store_ops 1 11 7 [[9]] [5]) [], None)"
    by (simp add: pebble_DB_def pebbleBatch_Commit_def mem_pebble_def)
  have S: "StoreRawWithBatch (pebble_DB mem_pebble) \<lparr>lastID = 0, bucketSize = 0\<rparr>
      (db_NewBatch (pebble_DB mem_pebble) []) 11 7 [[9]] [5] =
      ((\<lparr>lastID = 1, bucketSize = 0\<rparr>, store_ops 1 11 7 [[9]] [5]), Inr (EventKey 11 7 1))"
    by (simp add: StoreRawWithBatch_def Let_def pebble_DB_def Pebble_NewBatch_def pebbleBatch_Set_def mem_pebble_def
        store_ops_def)
  have "\<exists>key. Inr (EventKey 11 7 1) = (Inr key :: goerror + bytes) \<and> ParseEventKey key = Inr (7, 11, 0 + 1) \<and>
      map_of [] key = None \<and> map_of (kv_apply (store_ops 1 11 7 [[9]] [5]) []) key = Some [5]"
    using store_fresh_and_found[OF memp.storage_db_axioms _ _ _ _ S D]
    by (simp add: sorted_entries_def repo_inv_def stored_last_def index_ok_def eventsLastIDKey_def
        bytes_of_string_def)
  then show ?thesis by (metis add_0)
qed

text \<open>A restart recovers the counter: on an engine whose missing-key error is Pebble's,
  \<open>NewEventRepository\<close> succeeds on every store that satisfies the invariant, whatever
  the counter in memory was before, and the new repository satisfies it too.\<close>

theorem restart_recovers_counter:
  assumes S: "storage_db D view pending good PebbleErrNotFound" and G: "good st"
    and inv: "repo_inv er (view st)"
  shows "\<exists>er'. NewEventRepository D st bs = Ret (Inr er') \<and> bucketSize er' = bs \<and>
    lastID er' \<le> lastID er \<and> repo_inv er' (view st)"
  using storage_db.NewEventRepository_ok[OF S G inv] inv by (simp add: repo_inv_def)

theorem restart_recovers_counter_witness:
  "\<exists>er'. NewEventRepository (pebble_DB mem_pebble) [(eventsLastIDKey, be_put 8 (3 :: u64))] 0 = Ret (Inr er') \<and>
    lastID er' \<le> 8"
  using restart_recovers_counter[OF memp.storage_db_axioms,
      of "[(eventsLastIDKey, be_put 8 (3 :: u64))]" "\<lparr>lastID = 8, bucketSize = 0\<rparr>" 0]
  by (auto simp: sorted_entries_def repo_inv_def stored_last_def)

text \<open>C35: on bbolt a fresh broker does not start: the adapter reports a missing key with the
  storage sentinel while the repository compares with Pebble's, so \<open>NewEventRepository\<close>
  fails on every healthy bbolt database that has no counter yet.\<close>

theorem bolt_fresh_start_fails:
  assumes C: "bolt_contract l bk_view bk_ok" and G: "bolt_good l bk_ok bucket st"
    and "bolt_view l bk_view bucket st eventsLastIDKey = None"
  shows "NewEventRepository (bolt_DB l bucket) st bs = Ret (Inl ErrNotFound)"
  using storage_db.NewEventRepository_missing[OF bolt_storage_db[OF C] G] assms(3) by simp

theorem bolt_fresh_start_fails_witness:
  "NewEventRepository (bolt_DB mem_bolt [1]) (Some []) 0 = Ret (Inl ErrNotFound)"
  by (rule bolt_fresh_start_fails[OF mem_bolt_contract])
    (simp_all add: bolt_good_def bolt_view_def mem_bolt_def sorted_entries_def)

text \<open>Concurrent batches can persist a counter below an identifier in use: when a batch
  that took the smaller identifier commits after the one that took the larger, a repository
  opened on the result hands out the larger identifier again, and storing a message with the
  same bucket and topic replaces the one already there.\<close>

theorem interleaved_batches_reuse_id:
  assumes S: "storage_db D view pending good notfound" and G: "good st"
    and store1: "StoreRawWithBatch D er (db_NewBatch D st) bucket1 h1 [] msg1 = ((er1, b1), r1)"
    and store2: "StoreRawWithBatch D er1 (db_NewBatch D st) bucket h [] msg2 = ((er2, b2), r2)"
    and commit2: "db_Commit D st b2 Sync = (st2, None)"
    and commit1: "db_Commit D st2 b1 Sync = (st1, None)"
  shows "\<exists>er3 key. NewEventRepository D st1 bs = Ret (Inr er3) \<and> r2 = Inr key \<and>
    view st1 key = Some msg2 \<and>
    (\<forall>b msg. snd (StoreRawWithBatch D er3 b bucket h [] msg) = Inr key)"
proof -
  let ?i = "lastID er + 1"
  have 1: "er1 = er\<lparr>lastID := ?i\<rparr>" "pending b1 = store_ops ?i bucket1 h1 [] msg1"
    using storage_db.StoreRawWithBatch_ops[OF S, of er "db_NewBatch D st" bucket1 h1 "[]" msg1]
      storage_db.NewBatch[OF S, of st] store1 by auto
  have 2: "r2 = Inr (EventKey bucket h (?i + 1))" "pending b2 = store_ops (?i + 1) bucket h [] msg2"
    using storage_db.StoreRawWithBatch_ops[OF S, of er1 "db_NewBatch D st" bucket h "[]" msg2]
      storage_db.NewBatch[OF S, of st] store2 1(1) by auto
  have st2: "good st2" "view st2 = apply_ops (pending b2) (view st)"
    using storage_db.Commit_ok[OF S G commit2] by auto
  have st1: "good st1" "view st1 = apply_ops (pending b1) (view st2)"
    using storage_db.Commit_ok[OF S st2(1) commit1] by auto
  have "NewEventRepository D st1 bs = Ret (Inr \<lparr>lastID = ?i, bucketSize = bs\<rparr>)"
    using st1 1(2) by (simp add: NewEventRepository_def storage_db.Get[OF S] apply_store_ops)
  moreover have "view st1 (EventKey bucket h (?i + 1)) = Some msg2"
    using st1 st2 1(2) 2(2) by (simp add: apply_store_ops)
  moreover have "snd (StoreRawWithBatch D \<lparr>lastID = ?i, bucketSize = bs\<rparr> b bucket h [] msg) =
      Inr (EventKey bucket h (?i + 1))" for b msg
    using storage_db.StoreRawWithBatch_ops[OF S, of "\<lparr>lastID = ?i, bucketSize = bs\<rparr>" b bucket h "[]" msg]
    by auto
  ultimately show ?thesis using 2(1) by blast
qed

theorem interleaved_batches_reuse_id_witness:
  "\<exists>er3 key. NewEventRepository (pebble_DB mem_pebble)
      (kv_apply (store_ops 1 4 7 [] [8]) (kv_apply (store_ops 2 4 7 [] [9]) [])) 0 = Ret (Inr er3) \<and>
    map_of (kv_apply (store_ops 1 4 7 [] [8]) (kv_apply (store_ops 2 4 7 [] [9]) [])) key = Some [9] \<and>
    (\<forall>b msg. snd (StoreRawWithBatch (pebble_DB mem_pebble) er3 b 4 7 [] msg) = Inr key)"
proof -
  let ?D = "pebble_DB mem_pebble"
  have "StoreRawWithBatch ?D \<lparr>lastID = 0, bucketSize = 0\<rparr> (db_NewBatch ?D []) 4 7 [] [8] =
      ((\<lparr>lastID = 1, bucketSize = 0\<rparr>, store_ops 1 4 7 [] [8]), Inr (EventKey 4 7 1))"
    "StoreRawWithBatch ?D \<lparr>lastID = 1, bucketSize = 0\<rparr> (db_NewBatch ?D []) 4 7 [] [9] =
      ((\<lparr>lastID = 2, bucketSize = 0\<rparr>, store_ops 2 4 7 [] [9]), Inr (EventKey 4 7 2))"
    "db_Commit ?D [] (store_ops 2 4 7 [] [9]) Sync = (kv_apply (store_ops 2 4 7 [] [9]) [], None)"
    "db_Commit ?D (kv_apply (store_ops 2 4 7 [] [9]) []) (store_ops 1 4 7 [] [8]) Sync =
      (kv_apply (store_ops 1 4 7 [] [8]) (kv_apply (store_ops 2 4 7 [] [9]) []), None)"
    by (simp_all add: StoreRawWithBatch_def Let_def pebble_DB_def Pebble_NewBatch_def pebbleBatch_Set_def
        pebbleBatch_Commit_def mem_pebble_def store_ops_def)
  from interleaved_batches_reuse_id[OF memp.storage_db_axioms _ this, of 0]
  show ?thesis by (auto simp: sorted_entries_def)
qed

end
