(* ===== verification/EventSM.thy ===== *)
theory EventSM
  imports Repository EventCommands
begin

text \<open>
  The replicated state machine of the event shard,
  \<open>src/internal/raft/event/statemachine.go\<close>. Its state is the engine state, the shared
  repository and the last applied index. Dragonboat's \<open>Entry\<close> carries an index, a
  command and a result. The stop channel of the snapshot operations is a function that
  tells, for each poll, whether it is closed; the writer is a function on a writer state,
  the reader a byte string.

  The specification maps a command to the mutations it makes, and the operations refine
  it; the properties are determinism of the replicas, recovery, and the snapshots.
\<close>

section \<open>Definitions\<close>

definition appliedIndexKey :: bytes where
  "appliedIndexKey = bytes_of_string ''metadata/raft/applied-index''"

record Entry =
  e_Index :: u64
  e_Cmd :: bytes
  e_Result :: u64

record 'st EventStateMachine =
  es_db :: 'st
  es_repo :: EventRepository
  es_lastApplied :: u64

definition EventStateMachine_Open :: "('st, 'b) DB \<Rightarrow> 'st EventStateMachine
    \<Rightarrow> ('st EventStateMachine \<times> (goerror + u64)) go" where
  "EventStateMachine_Open D s =
    (case db_Get D (es_db s) appliedIndexKey of
       Inl err \<Rightarrow>
         (if errors_Is err PebbleErrNotFound then Ret (s\<lparr>es_lastApplied := 0\<rparr>, Inr 0)
          else Ret (s, Inl err))
     | Inr val \<Rightarrow> bind_go (Uint64 val) (\<lambda>i. Ret (s\<lparr>es_lastApplied := i\<rparr>, Inr i)))"

subsection \<open>Applying entries\<close>

fun store_items_loop :: "('st, 'b) DB \<Rightarrow> EventRepository \<Rightarrow> 'b \<Rightarrow> StoreBatchItem list
    \<Rightarrow> (EventRepository \<times> 'b) \<times> goerror option" where
  "store_items_loop D repo b [] = ((repo, b), None)"
| "store_items_loop D repo b (it # items) =
    (case StoreRawWithBatch D repo b (Bucket it) (TopicHash it) (Indexes it) (Msg it) of
       ((repo', b'), Inl err) \<Rightarrow> ((repo', b'), Some err)
     | ((repo', b'), Inr _) \<Rightarrow> store_items_loop D repo' b' items)"

fun delete_keys_loop :: "('st, 'b) DB \<Rightarrow> 'b \<Rightarrow> bytes list \<Rightarrow> bytes list \<Rightarrow> 'b \<times> bytes list" where
  "delete_keys_loop D b deleted [] = (b, deleted)"
| "delete_keys_loop D b deleted (k # keys) =
    (case db_Delete D b k of
       (b', Some err) \<Rightarrow> delete_keys_loop D b' deleted keys
     | (b', None) \<Rightarrow> delete_keys_loop D b' (deleted @ [k]) keys)"

definition applyEntry :: "('st, 'b) DB \<Rightarrow> EventRepository \<Rightarrow> 'b \<Rightarrow> bytes
    \<Rightarrow> ((EventRepository \<times> 'b) \<times> u64 \<times> bytes list) go" where
  "applyEntry D repo batch cmd =
    (if length cmd = 0 then Ret ((repo, batch), 0, [])
     else if cmd ! 0 = StoreBatchCmd then
       bind_go (UnmarshalStoreBatchCmd cmd) (\<lambda>r. case r of
         Inl err \<Rightarrow> Ret ((repo, batch), 0, [])
       | Inr items \<Rightarrow>
          (case store_items_loop D repo batch items of
             ((repo', batch'), Some err) \<Rightarrow> Ret ((repo', batch'), 0, [])
           | ((repo', batch'), None) \<Rightarrow> Ret ((repo', batch'), of_nat (length items), [])))
     else if cmd ! 0 = DeleteBatchCmd then
       bind_go (UnmarshalDeleteBatchCmd cmd) (\<lambda>r. case r of
         Inl err \<Rightarrow> Ret ((repo, batch), 0, [])
       | Inr keys \<Rightarrow>
          (case delete_keys_loop D batch [] keys of
             (batch', deleted) \<Rightarrow> Ret ((repo, batch'), of_nat (length deleted), deleted)))
     else Ret ((repo, batch), 0, []))"

text \<open>The loop of \<open>Update\<close>: repository, batch, last index, entries with results, deleted keys.\<close>

fun update_loop :: "('st, 'b) DB \<Rightarrow> EventRepository \<Rightarrow> 'b \<Rightarrow> u64 \<Rightarrow> Entry list \<Rightarrow> bytes list \<Rightarrow> Entry list
    \<Rightarrow> (EventRepository \<times> 'b \<times> u64 \<times> Entry list \<times> bytes list) go" where
  "update_loop D repo b lastApplied done allDeleted [] = Ret (repo, b, lastApplied, done, allDeleted)"
| "update_loop D repo b lastApplied done allDeleted (e # entries) =
    bind_go (applyEntry D repo b (e_Cmd e)) (\<lambda>((repo', b'), result, deletedKeys).
      update_loop D repo' b' (e_Index e) (done @ [e\<lparr>e_Result := result\<rparr>]) (allDeleted @ deletedKeys) entries)"

text \<open>
  \<open>Update\<close> returns the state, the entries with their results or an error, and the
  keys it hands to \<open>OnDeleteKeys\<close> (none when the callback is nil or not called).
\<close>

definition EventStateMachine_Update :: "('st, 'b) DB \<Rightarrow> bool \<Rightarrow> 'st EventStateMachine \<Rightarrow> Entry list
    \<Rightarrow> ('st EventStateMachine \<times> (goerror + Entry list) \<times> bytes list) go" where
  "EventStateMachine_Update D onDeleteKeys s entries =
    bind_go (update_loop D (es_repo s) (db_NewBatch D (es_db s)) (es_lastApplied s) [] [] entries)
      (\<lambda>(repo', b, lastApplied', entries', allDeleted).
        let s1 = s\<lparr>es_repo := repo', es_lastApplied := lastApplied'\<rparr> in
        case db_Set D b appliedIndexKey (be_put 8 lastApplied') of
          (b', Some err) \<Rightarrow> Ret (s1, Inl err, [])
        | (b', None) \<Rightarrow>
           (case db_Commit D (es_db s) b' NoSync of
              (st', Some err) \<Rightarrow> Ret (s1\<lparr>es_db := st'\<rparr>, Inl err, [])
            | (st', None) \<Rightarrow>
               Ret (s1\<lparr>es_db := st'\<rparr>, Inr entries', if onDeleteKeys then allDeleted else [])))"

definition EventStateMachine_Sync :: "('st, 'b) DB \<Rightarrow> 'st EventStateMachine \<Rightarrow> 'st EventStateMachine \<times> goerror option" where
  "EventStateMachine_Sync D s = (case db_Flush D (es_db s) of (st', e) \<Rightarrow> (s\<lparr>es_db := st'\<rparr>, e))"

definition EventStateMachine_PrepareSnapshot :: "'st EventStateMachine \<Rightarrow> goerror + u64" where
  "EventStateMachine_PrepareSnapshot s = Inr (es_lastApplied s)"

definition EventStateMachine_Close :: "('st, 'b) DB \<Rightarrow> 'st EventStateMachine \<Rightarrow> 'st EventStateMachine \<times> goerror option" where
  "EventStateMachine_Close D s = (case db_Flush D (es_db s) of (st', e) \<Rightarrow> (s\<lparr>es_db := st'\<rparr>, e))"

subsection \<open>Snapshots\<close>

text \<open>The callback of \<open>SaveSnapshot\<close>; its state is the writer and the number of polls.\<close>

definition save_yield :: "('w \<Rightarrow> bytes \<Rightarrow> 'w \<times> goerror option) \<Rightarrow> (nat \<Rightarrow> bool) \<Rightarrow> 'w \<times> nat \<Rightarrow> bytes \<Rightarrow> bytes
    \<Rightarrow> ('w \<times> nat) \<times> goerror option" where
  "save_yield write stopc wn key val =
    (case wn of (w, n) \<Rightarrow>
      if stopc n then ((w, n + 1), Some ErrSnapshotStopped)
      else case write w (le_put 4 (of_nat (length key) :: u32)) of
        (w1, Some err) \<Rightarrow> ((w1, n + 1), Some err)
      | (w1, None) \<Rightarrow>
         (case write w1 key of
            (w2, Some err) \<Rightarrow> ((w2, n + 1), Some err)
          | (w2, None) \<Rightarrow>
             (case write w2 (le_put 4 (of_nat (length val) :: u32)) of
                (w3, Some err) \<Rightarrow> ((w3, n + 1), Some err)
              | (w3, None) \<Rightarrow>
                 (case write w3 val of
                    (w4, Some err) \<Rightarrow> ((w4, n + 1), Some err)
                  | (w4, None) \<Rightarrow> ((w4, n + 1), None)))))"

definition EventStateMachine_SaveSnapshot :: "('st, 'b) DB \<Rightarrow> 'st EventStateMachine
    \<Rightarrow> ('w \<Rightarrow> bytes \<Rightarrow> 'w \<times> goerror option) \<Rightarrow> (nat \<Rightarrow> bool) \<Rightarrow> 'w \<Rightarrow> 'w \<times> goerror option" where
  "EventStateMachine_SaveSnapshot D s write stopc w =
    (case DB_Scan D (es_db s) None (save_yield write stopc) (w, 0) of ((w', n), e) \<Rightarrow> (w', e))"

text \<open>\<open>io.ReadFull\<close> of \<open>n\<close> bytes from a reader that holds \<open>r\<close>.\<close>

definition io_ReadFull :: "bytes \<Rightarrow> nat \<Rightarrow> goerror + bytes \<times> bytes" where
  "io_ReadFull r n =
    (if n = 0 then Inr ([], r)
     else if r = [] then Inl IoEOF
     else if length r < n then Inl IoErrUnexpectedEOF
     else Inr (take n r, drop n r))"

fun clear_loop :: "('st, 'b) DB \<Rightarrow> (nat \<Rightarrow> bool) \<Rightarrow> nat \<Rightarrow> 'b \<Rightarrow> (bytes \<times> bytes) list \<Rightarrow> 'b \<times> nat \<times> goerror option" where
  "clear_loop D stopc n b [] = (b, n, None)"
| "clear_loop D stopc n b ((k, v) # kvs) =
    (if stopc n then (b, n + 1, Some ErrSnapshotStopped)
     else case db_Delete D b k of
       (b', Some err) \<Rightarrow> (b', n + 1, Some err)
     | (b', None) \<Rightarrow> clear_loop D stopc (n + 1) b' kvs)"

definition clearDB :: "('st, 'b) DB \<Rightarrow> (nat \<Rightarrow> bool) \<Rightarrow> nat \<Rightarrow> 'st \<Rightarrow> 'st \<times> nat \<times> goerror option" where
  "clearDB D stopc n st =
    (case db_Iter D st None of
       Inl err \<Rightarrow> (st, n, Some err)
     | Inr (kvs, ierr) \<Rightarrow>
        (case clear_loop D stopc n (db_NewBatch D st) kvs of
           (b, n', Some err) \<Rightarrow> (st, n', Some err)
         | (b, n', None) \<Rightarrow>
            (case ierr of
               Some err \<Rightarrow> (st, n', Some err)
             | None \<Rightarrow> (case db_Commit D st b NoSync of (st', e) \<Rightarrow> (st', n', e)))))"

text \<open>
  The reading loop of \<open>RecoverFromSnapshot\<close>. Every turn consumes the four bytes of a
  key length, or ends.
\<close>

function recover_loop :: "('st, 'b) DB \<Rightarrow> (nat \<Rightarrow> bool) \<Rightarrow> nat \<Rightarrow> 'b \<Rightarrow> bytes \<Rightarrow> 'b \<times> goerror option" where
  "recover_loop D stopc n b r =
    (if stopc n then (b, Some ErrSnapshotStopped)
     else case io_ReadFull r 4 of
       Inl err \<Rightarrow> if err = IoEOF then (b, None) else (b, Some err)
     | Inr (kl, r1) \<Rightarrow>
        (case io_ReadFull r1 (unat (le_get kl :: u32)) of
           Inl err \<Rightarrow> (b, Some err)
         | Inr (k, r2) \<Rightarrow>
            (case io_ReadFull r2 4 of
               Inl err \<Rightarrow> (b, Some err)
             | Inr (vl, r3) \<Rightarrow>
                (case io_ReadFull r3 (unat (le_get vl :: u32)) of
                   Inl err \<Rightarrow> (b, Some err)
                 | Inr (v, r4) \<Rightarrow>
                    (case db_Set D b k v of
                       (b', Some err) \<Rightarrow> (b', Some err)
                     | (b', None) \<Rightarrow> recover_loop D stopc (n + 1) b' r4)))))"
  by pat_completeness auto
termination
  by (relation "measure (\<lambda>(D, stopc, n, b, r). length r)")
    (auto simp: io_ReadFull_def split: if_splits)

definition EventStateMachine_RecoverFromSnapshot :: "('st, 'b) DB \<Rightarrow> 'st EventStateMachine \<Rightarrow> bytes \<Rightarrow> (nat \<Rightarrow> bool)
    \<Rightarrow> ('st EventStateMachine \<times> goerror option) go" where
  "EventStateMachine_RecoverFromSnapshot D s r stopc =
    (case clearDB D stopc 0 (es_db s) of
       (st1, n, Some err) \<Rightarrow> Ret (s\<lparr>es_db := st1\<rparr>, Some err)
     | (st1, n, None) \<Rightarrow>
        (case recover_loop D stopc n (db_NewBatch D st1) r of
           (b, Some err) \<Rightarrow> Ret (s\<lparr>es_db := st1\<rparr>, Some err)
         | (b, None) \<Rightarrow>
            (case db_Commit D st1 b Sync of
               (st2, Some err) \<Rightarrow> Ret (s\<lparr>es_db := st2\<rparr>, Some err)
             | (st2, None) \<Rightarrow>
                (case db_Get D st2 appliedIndexKey of
                   Inr val \<Rightarrow> bind_go (Uint64 val) (\<lambda>i. Ret (s\<lparr>es_db := st2, es_lastApplied := i\<rparr>, None))
                 | Inl err \<Rightarrow>
                    (if errors_Is err PebbleErrNotFound then Ret (s\<lparr>es_db := st2\<rparr>, None)
                     else Ret (s\<lparr>es_db := st2\<rparr>, Some err))))))"

declare recover_loop.simps [simp del]

subsection \<open>Specification\<close>

fun store_items_ops :: "u64 \<Rightarrow> StoreBatchItem list \<Rightarrow> BatchOp list" where
  "store_items_ops i [] = []"
| "store_items_ops i (it # items) =
    store_ops (i + 1) (Bucket it) (TopicHash it) (Indexes it) (Msg it) @ store_items_ops (i + 1) items"

text \<open>
  What a command does, as a function of the counter: the new counter, the mutations, the
  result value and the deleted keys.
\<close>

definition entry_effect :: "bytes \<Rightarrow> u64 \<Rightarrow> (u64 \<times> BatchOp list \<times> u64 \<times> bytes list) go" where
  "entry_effect cmd i =
    (if cmd = [] then Ret (i, [], 0, [])
     else if cmd ! 0 = StoreBatchCmd then
       bind_go (UnmarshalStoreBatchCmd cmd) (\<lambda>r. Ret (case r of Inl _ \<Rightarrow> (i, [], 0, [])
         | Inr items \<Rightarrow> (i + of_nat (length items), store_items_ops i items, of_nat (length items), [])))
     else if cmd ! 0 = DeleteBatchCmd then
       bind_go (UnmarshalDeleteBatchCmd cmd) (\<lambda>r. Ret (case r of Inl _ \<Rightarrow> (i, [], 0, [])
         | Inr keys \<Rightarrow> (i, map OpDelete keys, of_nat (length keys), keys)))
     else Ret (i, [], 0, []))"

text \<open>The effect of a log: counter, mutations, entries with results, deleted keys.\<close>

fun log_effect :: "Entry list \<Rightarrow> u64 \<Rightarrow> (u64 \<times> BatchOp list \<times> Entry list \<times> bytes list) go" where
  "log_effect [] i = Ret (i, [], [], [])"
| "log_effect (e # es) i =
    bind_go (entry_effect (e_Cmd e) i) (\<lambda>(i1, ops, res, del).
    bind_go (log_effect es i1) (\<lambda>(i2, ops', es', del').
      Ret (i2, ops @ ops', e\<lparr>e_Result := res\<rparr> # es', del @ del')))"

text \<open>The index after a log, and the runs of a replica that is given a log in batches.\<close>

definition last_index :: "u64 \<Rightarrow> Entry list \<Rightarrow> u64" where
  "last_index i es = (if es = [] then i else e_Index (last es))"

inductive replica_run :: "('st, 'b) DB \<Rightarrow> 'st EventStateMachine \<Rightarrow> Entry list list \<Rightarrow> 'st EventStateMachine \<Rightarrow> bool"
  for D where
  run_refl: "replica_run D s [] s"
| run_step: "EventStateMachine_Update D cb s es = Ret (s', Inr es', del) \<Longrightarrow> replica_run D s' batches s'' \<Longrightarrow>
    replica_run D s (es # batches) s''"

text \<open>The bytes of a snapshot: every pair with its lengths in front.\<close>

definition snapshot_bytes :: "(bytes \<times> bytes) list \<Rightarrow> bytes" where
  "snapshot_bytes kvs = concat (map (\<lambda>(k, v).
    le_put 4 (of_nat (length k) :: u32) @ k @ le_put 4 (of_nat (length v) :: u32) @ v) kvs)"


text \<open>A concrete message, a log entry that stores it and an empty replica.\<close>

definition store_item :: StoreBatchItem where
  "store_item = \<lparr>Bucket = 3, TopicHash = 7, Indexes = [[9]], Msg = [1, 2]\<rparr>"

definition store_entry :: "u64 \<Rightarrow> Entry" where
  "store_entry n = \<lparr>e_Index = n, e_Cmd = wire_store [store_item], e_Result = 0\<rparr>"

definition mem_replica :: "kvlist EventStateMachine" where
  "mem_replica = \<lparr>es_db = [], es_repo = \<lparr>lastID = 0, bucketSize = 0\<rparr>, es_lastApplied = 0\<rparr>"

section \<open>The operations refine the specification\<close>

context storage_db
begin

lemma store_items_loop_ops:
  "\<exists>b'. store_items_loop D repo b items =
      ((repo\<lparr>lastID := lastID repo + of_nat (length items)\<rparr>, b'), None) \<and>
    pending b' = pending b @ store_items_ops (lastID repo) items"
proof (induction items arbitrary: repo b)
  case (Cons it items)
  obtain b1 where b1: "StoreRawWithBatch D repo b (Bucket it) (TopicHash it) (Indexes it) (Msg it) =
      ((repo\<lparr>lastID := lastID repo + 1\<rparr>, b1), Inr (EventKey (Bucket it) (TopicHash it) (lastID repo + 1)))"
      "pending b1 = pending b @ store_ops (lastID repo + 1) (Bucket it) (TopicHash it) (Indexes it) (Msg it)"
    using StoreRawWithBatch_ops by blast
  with Cons.IH[of "repo\<lparr>lastID := lastID repo + 1\<rparr>" b1] show ?case by (auto simp: algebra_simps)
qed simp

lemma delete_keys_loop_ops:
  "\<exists>b'. delete_keys_loop D b deleted keys = (b', deleted @ keys) \<and>
    pending b' = pending b @ map OpDelete keys"
proof (induction keys arbitrary: b deleted)
  case (Cons k keys)
  obtain b1 where "db_Delete D b k = (b1, None)" "pending b1 = pending b @ [OpDelete k]"
    using Delete_eq by blast
  with Cons.IH[of b1 "deleted @ [k]"] show ?case by auto
qed simp

lemma applyEntry_effect:
  "case entry_effect cmd (lastID repo) of
     Panic m \<Rightarrow> applyEntry D repo b cmd = Panic m
   | Ret (i, ops, res, del) \<Rightarrow> (\<exists>b'. applyEntry D repo b cmd = Ret ((repo\<lparr>lastID := i\<rparr>, b'), res, del) \<and>
       pending b' = pending b @ ops)"
proof -
  consider (empty) "cmd = []" | (store) "cmd \<noteq> []" "cmd ! 0 = StoreBatchCmd"
    | (delete) "cmd \<noteq> []" "cmd ! 0 = DeleteBatchCmd"
    | (other) "cmd \<noteq> []" "cmd ! 0 \<noteq> StoreBatchCmd" "cmd ! 0 \<noteq> DeleteBatchCmd" by blast
  then show ?thesis
  proof cases
    case store
    then show ?thesis
    proof (cases "UnmarshalStoreBatchCmd cmd")
      case (Ret r)
      with store show ?thesis
      proof (cases r)
        case (Inr items)
        then show ?thesis
          using store Ret store_items_loop_ops[of repo b items]
          by (auto simp: applyEntry_def entry_effect_def)
      qed (simp add: applyEntry_def entry_effect_def)
    qed (simp add: applyEntry_def entry_effect_def)
  next
    case delete
    then have tag: "cmd ! 0 \<noteq> StoreBatchCmd" by (simp add: StoreBatchCmd_def DeleteBatchCmd_def)
    show ?thesis
    proof (cases "UnmarshalDeleteBatchCmd cmd")
      case (Ret r)
      with delete tag show ?thesis
      proof (cases r)
        case (Inr keys)
        then show ?thesis
          using delete tag Ret delete_keys_loop_ops[of b "[]" keys]
          by (auto simp: applyEntry_def entry_effect_def)
      qed (simp add: applyEntry_def entry_effect_def)
    qed (use delete tag in \<open>simp add: applyEntry_def entry_effect_def\<close>)
  qed (simp_all add: applyEntry_def entry_effect_def)
qed

lemma update_loop_effect:
  "case log_effect es (lastID repo) of
     Panic m \<Rightarrow> update_loop D repo b la acc del0 es = Panic m
   | Ret (i, ops, es', del) \<Rightarrow> (\<exists>b'. update_loop D repo b la acc del0 es =
       Ret (repo\<lparr>lastID := i\<rparr>, b', last_index la es, acc @ es', del0 @ del) \<and> pending b' = pending b @ ops)"
proof (induction es arbitrary: repo b la acc del0)
  case Nil
  then show ?case by (simp add: last_index_def)
next
  case (Cons e es)
  show ?case
  proof (cases "entry_effect (e_Cmd e) (lastID repo)")
    case (Panic m)
    then show ?thesis using applyEntry_effect[where cmd = "e_Cmd e" and repo = repo and b = b] by simp
  next
    case (Ret eff)
    obtain i ops res del where eff: "eff = (i, ops, res, del)" by (cases eff)
    obtain b1 where b1: "applyEntry D repo b (e_Cmd e) = Ret ((repo\<lparr>lastID := i\<rparr>, b1), res, del)"
        "pending b1 = pending b @ ops"
      using applyEntry_effect[where cmd = "e_Cmd e" and repo = repo and b = b] Ret eff by auto
    have "last_index (e_Index e) es = last_index la (e # es)" by (simp add: last_index_def)
    then show ?thesis
      using Cons.IH[where repo = "repo\<lparr>lastID := i\<rparr>" and b = b1 and la = "e_Index e"
        and acc = "acc @ [e\<lparr>e_Result := res\<rparr>]" and ?del0.0 = "del0 @ del"] Ret eff b1
      by (cases "log_effect es i") auto
  qed
qed

lemma Update_panic:
  "log_effect es (lastID (es_repo s)) = Panic m \<Longrightarrow> EventStateMachine_Update D cb s es = Panic m"
  using update_loop_effect[where es = es and repo = "es_repo s" and b = "db_NewBatch D (es_db s)"
      and la = "es_lastApplied s" and acc = "[]" and ?del0.0 = "[]"]
  by (simp add: EventStateMachine_Update_def)

text \<open>An update commits all of its effect together with the index, or nothing.\<close>

lemma Update_cases:
  assumes G: "good (es_db s)" and eff: "log_effect es (lastID (es_repo s)) = Ret (i, ops, es', del)"
  shows "\<exists>s' r. EventStateMachine_Update D cb s es = Ret (s', r, if cb \<and> \<not> isl r then del else []) \<and>
    good (es_db s') \<and> es_repo s' = (es_repo s)\<lparr>lastID := i\<rparr> \<and>
    es_lastApplied s' = last_index (es_lastApplied s) es \<and>
    (case r of
       Inr es1 \<Rightarrow> es1 = es' \<and>
         view (es_db s') = (apply_ops ops (view (es_db s)))(appliedIndexKey \<mapsto> be_put 8 (es_lastApplied s'))
     | Inl err \<Rightarrow> view (es_db s') = view (es_db s))"
proof -
  let ?la = "last_index (es_lastApplied s) es"
  obtain b1 where b1: "update_loop D (es_repo s) (db_NewBatch D (es_db s)) (es_lastApplied s) [] [] es =
      Ret ((es_repo s)\<lparr>lastID := i\<rparr>, b1, ?la, es', del)" "pending b1 = ops"
    using update_loop_effect[where es = es and repo = "es_repo s" and b = "db_NewBatch D (es_db s)"
      and la = "es_lastApplied s" and acc = "[]" and ?del0.0 = "[]"] eff
    by (auto simp: NewBatch)
  obtain b2 where b2: "db_Set D b1 appliedIndexKey (be_put 8 ?la) = (b2, None)"
      "pending b2 = ops @ [OpSet appliedIndexKey (be_put 8 ?la)]"
    using Set_eq[of b1 appliedIndexKey "be_put 8 ?la"] b1(2) by auto
  obtain st' eo where st': "db_Commit D (es_db s) b2 NoSync = (st', eo)" by fastforce
  show ?thesis
  proof (cases eo)
    case None
    then show ?thesis
      using Commit_ok[OF G] st' b1(1) b2 by (simp add: EventStateMachine_Update_def Let_def)
  next
    case (Some err)
    then show ?thesis
      using Commit_err[OF G] st' b1(1) b2 by (simp add: EventStateMachine_Update_def Let_def)
  qed
qed

lemma Update_ok:
  assumes G: "good (es_db s)"
    and U: "EventStateMachine_Update D cb s es = Ret (s', Inr es', del')"
  shows "\<exists>i ops del. log_effect es (lastID (es_repo s)) = Ret (i, ops, es', del) \<and>
    del' = (if cb then del else []) \<and> good (es_db s') \<and>
    es_repo s' = (es_repo s)\<lparr>lastID := i\<rparr> \<and> es_lastApplied s' = last_index (es_lastApplied s) es \<and>
    view (es_db s') = (apply_ops ops (view (es_db s)))(appliedIndexKey \<mapsto> be_put 8 (es_lastApplied s'))"
proof (cases "log_effect es (lastID (es_repo s))")
  case (Panic m)
  then show ?thesis using U Update_panic[of es s m cb] by simp
next
  case (Ret eff)
  obtain i ops es1 del where eff: "eff = (i, ops, es1, del)" by (cases eff)
  show ?thesis
    using Update_cases[OF G, of es i ops es1 del cb] U Ret eff by auto
qed

text \<open>One command that stores a batch.\<close>

lemma Update_store:
  assumes G: "good (es_db s)" and fits: "list_all wire_fits items" "length items * 64 \<le> 2 ^ 48"
    and cmd: "MarshalStoreBatchCmd items = Ret (Inr cmd)"
    and U: "EventStateMachine_Update D cb s [\<lparr>e_Index = n, e_Cmd = cmd, e_Result = 0\<rparr>] = Ret (s', Inr es, del)"
  shows "es = [\<lparr>e_Index = n, e_Cmd = cmd, e_Result = of_nat (length items)\<rparr>]"
    and "es_repo s' = (es_repo s)\<lparr>lastID := lastID (es_repo s) + of_nat (length items)\<rparr>"
    and "view (es_db s') = (apply_ops (store_items_ops (lastID (es_repo s)) items) (view (es_db s)))(appliedIndexKey \<mapsto> be_put 8 (es_lastApplied s'))"
    and "good (es_db s')"
proof -
  let ?i = "lastID (es_repo s)"
  have dec: "UnmarshalStoreBatchCmd cmd = Ret (Inr items)"
    using store_cmd.decode_marshalled[OF _ cmd] fits by simp
  then have "entry_effect cmd ?i = Ret (?i + of_nat (length items), store_items_ops ?i items, of_nat (length items), [])"
    using store_cmd.tagged[OF dec] by (simp add: entry_effect_def)
  then show "es = [\<lparr>e_Index = n, e_Cmd = cmd, e_Result = of_nat (length items)\<rparr>]"
      "es_repo s' = (es_repo s)\<lparr>lastID := ?i + of_nat (length items)\<rparr>"
      "view (es_db s') = (apply_ops (store_items_ops ?i items) (view (es_db s)))(appliedIndexKey \<mapsto> be_put 8 (es_lastApplied s'))"
      "good (es_db s')"
    using Update_ok[OF G U] by auto
qed

end

section \<open>Runs and logs\<close>

lemma length_appliedIndexKey [simp]: "length appliedIndexKey = 27"
  by (simp add: appliedIndexKey_def)

lemma EventKey_not_applied [simp]: "EventKey b h i \<noteq> appliedIndexKey" "appliedIndexKey \<noteq> EventKey b h i"
  by (metis length_EventKey length_appliedIndexKey numeral_eq_iff semiring_norm(88,90))+

lemma lastID_not_applied [simp]: "eventsLastIDKey \<noteq> appliedIndexKey"
  by (simp add: eventsLastIDKey_def appliedIndexKey_def bytes_of_string_def)

lemma apply_op_cong: "m k = m' k \<Longrightarrow> apply_op x m k = apply_op x m' k"
  by (cases x) auto

lemma apply_ops_cong: "m k = m' k \<Longrightarrow> apply_ops ops m k = apply_ops ops m' k"
proof (induction ops arbitrary: m m')
  case (Cons x ops)
  from apply_op_cong[of m k m' x] Cons.prems have "apply_op x m k = apply_op x m' k" by blast
  then show ?case using Cons.IH[of "apply_op x m" "apply_op x m'"] by simp
qed simp

lemma log_effect_append:
  "log_effect es1 i = Ret (i1, ops1, res1, del1) \<Longrightarrow> log_effect es2 i1 = Ret (i2, ops2, res2, del2) \<Longrightarrow>
    log_effect (es1 @ es2) i = Ret (i2, ops1 @ ops2, res1 @ res2, del1 @ del2)"
proof (induction es1 arbitrary: i i1 ops1 res1 del1)
  case (Cons e es1)
  from Cons.prems(1) obtain j ops res del ops' res' del' where
    "entry_effect (e_Cmd e) i = Ret (j, ops, res, del)" "log_effect es1 j = Ret (i1, ops', res', del')"
    "ops1 = ops @ ops'" "res1 = e\<lparr>e_Result := res\<rparr> # res'" "del1 = del @ del'"
    by (auto simp: bind_go_eq_Ret)
  with Cons.IH[of j i1 ops' res' del'] Cons.prems(2) show ?case by simp
qed simp

lemma last_index_append: "last_index (last_index i es1) es2 = last_index i (es1 @ es2)"
  by (simp add: last_index_def)

inductive_cases replica_run_NilE: "replica_run D s [] s'"
inductive_cases replica_run_ConsE: "replica_run D s (es # batches) s'"

context storage_db
begin

lemma replica_run_effect:
  assumes "replica_run D s batches s'" and "good (es_db s)"
  shows "\<exists>i ops res del. log_effect (concat batches) (lastID (es_repo s)) = Ret (i, ops, res, del) \<and>
    good (es_db s') \<and> lastID (es_repo s') = i \<and>
    es_lastApplied s' = last_index (es_lastApplied s) (concat batches) \<and>
    (\<forall>k. k \<noteq> appliedIndexKey \<longrightarrow> view (es_db s') k = apply_ops ops (view (es_db s)) k) \<and>
    (batches \<noteq> [] \<longrightarrow> view (es_db s') appliedIndexKey = Some (be_put 8 (es_lastApplied s')))"
  using assms
proof (induction rule: replica_run.induct)
  case (run_refl s)
  then show ?case by (simp add: last_index_def)
next
  case (run_step cb s es s1 es' del batches s2)
  obtain i1 ops1 d1 where U: "log_effect es (lastID (es_repo s)) = Ret (i1, ops1, es', d1)" "good (es_db s1)"
      "es_repo s1 = (es_repo s)\<lparr>lastID := i1\<rparr>" "es_lastApplied s1 = last_index (es_lastApplied s) es"
      "view (es_db s1) = (apply_ops ops1 (view (es_db s)))(appliedIndexKey \<mapsto> be_put 8 (es_lastApplied s1))"
    using Update_ok[OF run_step.prems run_step.hyps(1)] by blast
  obtain i2 ops2 res2 d2 where R: "log_effect (concat batches) i1 = Ret (i2, ops2, res2, d2)"
      "good (es_db s2)" "lastID (es_repo s2) = i2"
      "es_lastApplied s2 = last_index (es_lastApplied s1) (concat batches)"
      "\<forall>k. k \<noteq> appliedIndexKey \<longrightarrow> view (es_db s2) k = apply_ops ops2 (view (es_db s1)) k"
      "batches \<noteq> [] \<longrightarrow> view (es_db s2) appliedIndexKey = Some (be_put 8 (es_lastApplied s2))"
    using run_step.IH[OF U(2)] U(3) by auto
  have "view (es_db s2) k = apply_ops (ops1 @ ops2) (view (es_db s)) k" if "k \<noteq> appliedIndexKey" for k
    using R(5) that U(5) apply_ops_cong[of "view (es_db s1)" k "apply_ops ops1 (view (es_db s))" ops2] by simp
  moreover have "view (es_db s2) appliedIndexKey = Some (be_put 8 (es_lastApplied s2))"
    using R(6) run_step.hyps(2) U(5) by (cases "batches = []") (auto elim: replica_run_NilE)
  ultimately show ?case
    using log_effect_append[OF U(1) R(1)] R(2,3,4) U(4) by (simp add: last_index_append)
qed

end

text \<open>The messages of a batch are found under consecutive fresh identifiers.\<close>

lemma store_items_ops_other:
  assumes "\<forall>it\<in>set items. k \<notin> set (Indexes it)" and "k \<noteq> eventsLastIDKey"
    and "\<forall>j<length items. k \<noteq> EventKey (Bucket (items ! j)) (TopicHash (items ! j)) (i + of_nat (Suc j))"
  shows "apply_ops (store_items_ops i items) m k = m k"
  using assms
proof (induction items arbitrary: i m)
  case (Cons it items)
  have "k \<noteq> EventKey (Bucket it) (TopicHash it) (i + 1)"
    using Cons.prems(3)[rule_format, of 0] by simp
  moreover have "k \<noteq> EventKey (Bucket (items ! j)) (TopicHash (items ! j)) (i + 1 + of_nat (Suc j))"
    if "j < length items" for j
    using Cons.prems(3)[rule_format, of "Suc j"] that by (simp add: algebra_simps)
  ultimately show ?case
    using Cons.IH[of "i + 1"] Cons.prems by (simp add: apply_store_ops)
qed simp

lemma store_items_ops_lookup:
  assumes "\<forall>it\<in>set items. list_all index_ok (Indexes it)" and "length items < 2 ^ 64" and "j < length items"
  shows "apply_ops (store_items_ops i items) m
      (EventKey (Bucket (items ! j)) (TopicHash (items ! j)) (i + of_nat (Suc j))) = Some (Msg (items ! j))"
  using assms
proof (induction items arbitrary: i j m)
  case (Cons it items)
  show ?case
  proof (cases j)
    case 0
    let ?k = "EventKey (Bucket it) (TopicHash it) (i + 1)"
    have "(of_nat (Suc n) :: u64) \<noteq> 0" if "n < length items" for n
    proof
      assume z: "(of_nat (Suc n) :: u64) = 0"
      have "unat (of_nat (Suc n) :: u64) = Suc n"
        using that Cons.prems(2) by (intro unat_length_word) simp
      then show False by (simp only: z unsigned_0 nat.distinct)
    qed
    then have "?k \<noteq> EventKey (Bucket (items ! n)) (TopicHash (items ! n)) (i + 1 + of_nat (Suc n))"
      if "n < length items" for n
      using that by (auto simp only: EventKey_inject add_cancel_right_right)
    moreover have "?k \<notin> set (Indexes x)" if "x \<in> set (it # items)" for x
      using Cons.prems(1) that length_EventKey unfolding list_all_iff index_ok_def by blast
    ultimately have "apply_ops (store_items_ops (i + 1) items)
        (apply_ops (store_ops (i + 1) (Bucket it) (TopicHash it) (Indexes it) (Msg it)) m) ?k = Some (Msg it)"
      by (subst store_items_ops_other) (simp_all add: apply_store_ops)
    then show ?thesis using 0 by simp
  next
    case (Suc j')
    then show ?thesis
      using Cons.IH[of j' "i + 1"] Cons.prems by (simp add: algebra_simps)
  qed
qed simp


lemma store_items_inv:
  assumes "repo_inv er m" and "unat (lastID er) + length items < 2 ^ 64"
    and "\<forall>it\<in>set items. list_all index_ok (Indexes it)"
  shows "repo_inv (er\<lparr>lastID := lastID er + of_nat (length items)\<rparr>) (apply_ops (store_items_ops (lastID er) items) m)"
  using assms
proof (induction items arbitrary: er m)
  case (Cons it items)
  let ?er = "er\<lparr>lastID := lastID er + 1\<rparr>"
  have max: "lastID er \<noteq> - 1"
    using Cons.prems(2) by (auto simp: unsigned_minus_1_eq_mask mask_eq_exp_minus_1)
  have "repo_inv ?er (apply_ops (store_ops (lastID er + 1) (Bucket it) (TopicHash it) (Indexes it) (Msg it)) m)"
    using Cons.prems by (intro repo_inv_store max) (simp_all add: list_all_iff)
  moreover have "unat (lastID er + 1) = unat (lastID er) + 1"
    using Cons.prems(2) by (simp add: unat_word_ariths)
  ultimately show ?case
    using Cons.IH[of ?er] Cons.prems by (simp add: algebra_simps)
qed simp

lemma fresh_above:
  assumes "repo_inv er m" and "unat (lastID er) + Suc j < 2 ^ 64"
  shows "m (EventKey b h (lastID er + of_nat (Suc j))) = None"
proof (rule ccontr)
  assume "m (EventKey b h (lastID er + of_nat (Suc j))) \<noteq> None"
  then have "lastID er + of_nat (Suc j) \<le> stored_last m" and "stored_last m \<le> lastID er"
    using assms(1) unfolding repo_inv_def by blast+
  then have "lastID er + of_nat (Suc j) \<le> lastID er" by (rule order_trans)
  moreover have "unat (of_nat (Suc j) :: u64) = Suc j"
    using assms(2) by (intro unat_length_word) simp
  then have "unat (lastID er + of_nat (Suc j)) = unat (lastID er) + Suc j"
    using assms(2) by (simp only: unat_word_ariths) simp
  ultimately show False by (simp only: word_le_nat_alt)
qed

lemma repo_inv_applied: "repo_inv er m \<Longrightarrow> repo_inv er (m(appliedIndexKey \<mapsto> v))"
  by (simp add: repo_inv_def stored_last_def)

lemma repo_inv_delete: "repo_inv er m \<Longrightarrow> list_all (\<lambda>k. length k = 24) keys \<Longrightarrow> repo_inv er (m |` (- set keys))"
  unfolding repo_inv_def stored_last_def list_all_iff restrict_map_def
  using length_eventsLastIDKey by (auto split: if_splits)

section \<open>Snapshots\<close>

lemma save_loop:
  "scan_loop (save_yield (\<lambda>w bs. (w @ bs, None)) (\<lambda>_. False)) (w, n) kvs =
    ((w @ snapshot_bytes kvs, n + length kvs), None)"
  by (induction kvs arbitrary: w n) (auto simp: save_yield_def snapshot_bytes_def)

lemma length_snapshot_bytes_Cons:
  "snapshot_bytes ((k, v) # kvs) =
    le_put 4 (of_nat (length k) :: u32) @ k @ le_put 4 (of_nat (length v) :: u32) @ v @ snapshot_bytes kvs"
  by (simp add: snapshot_bytes_def)

lemma io_ReadFull_append: "n = length xs \<Longrightarrow> io_ReadFull (xs @ r) n = Inr (xs, r)"
  by (auto simp: io_ReadFull_def)

context storage_db
begin

lemma recover_loop_snapshot:
  "\<forall>(k, v)\<in>set kvs. length k < 2 ^ 32 \<and> length v < 2 ^ 32 \<Longrightarrow>
    \<exists>b'. recover_loop D (\<lambda>_. False) n b (snapshot_bytes kvs) = (b', None) \<and>
      pending b' = pending b @ map (\<lambda>(k, v). OpSet k v) kvs"
proof (induction kvs arbitrary: n b)
  case Nil
  then show ?case by (simp add: snapshot_bytes_def recover_loop.simps io_ReadFull_def)
next
  case (Cons kv kvs)
  obtain k v where kv: "kv = (k, v)" by (cases kv)
  obtain b1 where b1: "db_Set D b k v = (b1, None)" "pending b1 = pending b @ [OpSet k v]"
    using Set_eq by blast
  have len: "unat (of_nat (length k) :: u32) = length k" "unat (of_nat (length v) :: u32) = length v"
    using Cons.prems kv by (simp_all add: unat_length_word)
  have "recover_loop D (\<lambda>_. False) n b (snapshot_bytes (kv # kvs)) =
      recover_loop D (\<lambda>_. False) (n + 1) b1 (snapshot_bytes kvs)"
    unfolding kv length_snapshot_bytes_Cons
    by (subst recover_loop.simps) (simp add: io_ReadFull_append len b1)
  then show ?case using Cons.IH[of "n + 1" b1] Cons.prems b1(2) kv by auto
qed

lemma clear_loop_ops:
  "\<exists>b'. clear_loop D (\<lambda>_. False) n b kvs = (b', n + length kvs, None) \<and>
    pending b' = pending b @ map OpDelete (map fst kvs)"
proof (induction kvs arbitrary: n b)
  case (Cons kv kvs)
  obtain k v where kv: "kv = (k, v)" by (cases kv)
  obtain b1 where "db_Delete D b k = (b1, None)" "pending b1 = pending b @ [OpDelete k]"
    using Delete_eq by blast
  with Cons.IH[of "n + 1" b1] kv show ?case by auto
qed simp

lemma clearDB_ops:
  assumes G: "good st"
  shows "\<exists>b n. clearDB D (\<lambda>_. False) 0 st = (case db_Commit D st b NoSync of (st', e) \<Rightarrow> (st', n, e)) \<and>
    apply_ops (pending b) (view st) = (\<lambda>_. None)"
proof -
  obtain kvs where kvs: "db_Iter D st None = Inr (kvs, None)" "lists_store kvs (view st)"
    using Iter[OF G, of None] by auto
  obtain b where b: "clear_loop D (\<lambda>_. False) 0 (db_NewBatch D st) kvs = (b, length kvs, None)"
      "pending b = map OpDelete (map fst kvs)"
    using clear_loop_ops[of 0 "db_NewBatch D st" kvs] by (auto simp: NewBatch)
  have "view st k = None" if "k \<notin> fst ` set kvs" for k
    using kvs(2) that by (auto simp: lists_store_def map_of_eq_None_iff[symmetric])
  then have "apply_ops (pending b) (view st) = (\<lambda>_. None)"
    unfolding b(2) apply_deletes by (auto simp: restrict_map_def fun_eq_iff)
  then show ?thesis
    by (intro exI[of _ b] exI[of _ "length kvs"]) (simp add: clearDB_def kvs(1) b(1))
qed

lemma clearDB_cleared:
  assumes "good st" and "clearDB D (\<lambda>_. False) 0 st = (st', n, None)"
  shows "good st' \<and> view st' = (\<lambda>_. None)"
proof -
  obtain b n' where b: "apply_ops (pending b) (view st) = (\<lambda>_. None)"
    and "clearDB D (\<lambda>_. False) 0 st = (case db_Commit D st b NoSync of (st', e) \<Rightarrow> (st', n', e))"
    using clearDB_ops[OF assms(1)] by blast
  with assms(2) have "db_Commit D st b NoSync = (st', None)"
    by (cases "db_Commit D st b NoSync") simp
  from Commit_ok[OF assms(1) this] b show ?thesis by simp
qed

lemma SaveSnapshot_bytes:
  assumes "good (es_db s)"
  shows "\<exists>kvs. lists_store kvs (view (es_db s)) \<and>
    EventStateMachine_SaveSnapshot D s (\<lambda>w bs. (w @ bs, None)) (\<lambda>_. False) [] = (snapshot_bytes kvs, None)"
proof -
  obtain kvs where kvs: "lists_store kvs (range_view None (view (es_db s)))"
    and scan: "\<And>yield (a :: bytes \<times> nat). DB_Scan D (es_db s) None yield a = scan_loop yield a kvs"
    using Scan_spec[OF assms, of None] by metis
  then show ?thesis
    by (intro exI[of _ kvs]) (simp add: EventStateMachine_SaveSnapshot_def scan save_loop)
qed

lemma Recover_snapshot:
  assumes G: "good (es_db s)" and commits: "\<forall>st b m. snd (db_Commit D st b m) = None"
    and kvs: "sorted_entries kvs" "\<forall>(k, v)\<in>set kvs. length k < 2 ^ 32 \<and> length v < 2 ^ 32"
    and idx: "map_of kvs appliedIndexKey = Some (be_put 8 i)"
  shows "\<exists>s'. EventStateMachine_RecoverFromSnapshot D s (snapshot_bytes kvs) (\<lambda>_. False) = Ret (s', None) \<and>
    good (es_db s') \<and> view (es_db s') = map_of kvs \<and> es_lastApplied s' = i \<and> es_repo s' = es_repo s"
proof -
  obtain st1 n where st1: "clearDB D (\<lambda>_. False) 0 (es_db s) = (st1, n, None)"
    using clearDB_ops[OF G] commits by (metis (mono_tags, lifting) prod.collapse split_conv)
  have cleared: "good st1" "view st1 = (\<lambda>_. None)" using clearDB_cleared[OF G st1] by auto
  obtain b where b: "recover_loop D (\<lambda>_. False) n (db_NewBatch D st1) (snapshot_bytes kvs) = (b, None)"
      "pending b = map (\<lambda>(k, v). OpSet k v) kvs"
    using recover_loop_snapshot[OF kvs(2)] NewBatch by (metis append_Nil)
  obtain st2 where st2: "db_Commit D st1 b Sync = (st2, None)"
    using commits by (metis prod.collapse)
  have view2: "good st2" "view st2 = map_of kvs"
    using Commit_ok[OF cleared(1) st2] apply_sets[OF sorted_entries_distinct[OF kvs(1)]]
    by (simp_all add: b(2) cleared(2))
  show ?thesis
    using st1 b(1) st2 view2 idx
    by (simp add: EventStateMachine_RecoverFromSnapshot_def Get)
qed

end


section \<open>A concrete replica\<close>

lemma mem_update:
  assumes "log_effect es (lastID (es_repo s)) = Ret (i, ops, es', del)" and "sorted_entries (es_db s)"
  shows "\<exists>s'. EventStateMachine_Update (pebble_DB mem_pebble) cb s es = Ret (s', Inr es', if cb then del else []) \<and>
    sorted_entries (es_db s') \<and> lastID (es_repo s') = i"
proof -
  have "\<not> isl r" if "EventStateMachine_Update (pebble_DB mem_pebble) cb s es = Ret (s', r, d)" for s' r d
    using that by (auto simp: EventStateMachine_Update_def bind_go_eq_Ret Let_def pebble_DB_def pebbleBatch_Set_def
        pebbleBatch_Commit_def mem_pebble_def)
  then show ?thesis
    using memp.Update_cases[OF assms(2,1), of cb] by (fastforce split: sum.splits)
qed

lemma mem_commits: "\<forall>st b m. snd (db_Commit (pebble_DB mem_pebble) st b m) = None"
  by (simp add: pebble_DB_def pebbleBatch_Commit_def mem_pebble_def split: SyncMode.split)

lemma store_entry_effect:
  "entry_effect (e_Cmd (store_entry n)) i = Ret (i + 1, store_items_ops i [store_item], 1, [])"
proof -
  have dec: "UnmarshalStoreBatchCmd (wire_store [store_item]) = Ret (Inr [store_item])"
    using UnmarshalStoreBatchCmd_wire[of "[store_item]" "[]"] by (simp add: store_item_def wire_fits_def)
  then show ?thesis
    using store_cmd.tagged[OF dec] by (simp add: entry_effect_def store_entry_def)
qed

lemma store_log_effect:
  "\<forall>e\<in>set es. \<exists>n. e = store_entry n \<Longrightarrow> \<exists>j ops es' del. log_effect es i = Ret (j, ops, es', del)"
proof (induction es arbitrary: i)
  case (Cons e es)
  then obtain n where e: "e = store_entry n" by auto
  from Cons.IH[of "i + 1"] Cons.prems obtain j ops es' del where "log_effect es (i + 1) = Ret (j, ops, es', del)"
    by auto
  then show ?case by (simp add: e store_entry_effect)
qed simp

lemma mem_store_update:
  "sorted_entries (es_db s) \<Longrightarrow>
    \<exists>s' es'. EventStateMachine_Update (pebble_DB mem_pebble) cb s [store_entry n] = Ret (s', Inr es', [])"
  using mem_update[of "[store_entry n]" s _ _ _ _ cb] by (fastforce simp: store_entry_effect)

lemma mem_replica_run:
  "sorted_entries (es_db s) \<Longrightarrow> \<forall>es\<in>set batches. \<forall>e\<in>set es. \<exists>n. e = store_entry n \<Longrightarrow>
    \<exists>s'. replica_run (pebble_DB mem_pebble) s batches s'"
proof (induction batches arbitrary: s)
  case (Cons es batches)
  obtain i ops es' del where "log_effect es (lastID (es_repo s)) = Ret (i, ops, es', del)"
    using store_log_effect[of es "lastID (es_repo s)"] Cons.prems(2) by auto
  from mem_update[OF this Cons.prems(1), of True]
  obtain s1 where "EventStateMachine_Update (pebble_DB mem_pebble) True s es = Ret (s1, Inr es', del)"
      "sorted_entries (es_db s1)"
    by auto
  with Cons.IH[of s1] Cons.prems(2) show ?case by (auto intro: replica_run.intros)
qed (auto intro: replica_run.intros)

section \<open>Properties\<close>

text \<open>C7: \<open>Update\<close> implements the log semantics atomically: on every engine that meets the
  contract, applying entries commits exactly the mutations of the log together with the new
  applied index, or, when the commit fails, none of them; results, the identifier counter
  and the keys reported to \<open>OnDeleteKeys\<close> are those of the log.\<close>

theorem update_refines_log:
  assumes "storage_db D view pending good notfound" and "good (es_db s)"
    and "log_effect es (lastID (es_repo s)) = Ret (i, ops, es', del)"
  shows "\<exists>s' r. EventStateMachine_Update D cb s es = Ret (s', r, if cb \<and> \<not> isl r then del else []) \<and>
    good (es_db s') \<and> es_repo s' = (es_repo s)\<lparr>lastID := i\<rparr> \<and>
    es_lastApplied s' = last_index (es_lastApplied s) es \<and>
    (case r of
       Inr es1 \<Rightarrow> es1 = es' \<and>
         view (es_db s') = (apply_ops ops (view (es_db s)))(appliedIndexKey \<mapsto> be_put 8 (es_lastApplied s'))
     | Inl err \<Rightarrow> view (es_db s') = view (es_db s))"
  by (rule storage_db.Update_cases[OF assms])

theorem update_refines_log_witness:
  "\<exists>s' r. EventStateMachine_Update (pebble_DB mem_pebble) True
      \<lparr>es_db = [], es_repo = \<lparr>lastID = 0, bucketSize = 0\<rparr>, es_lastApplied = 0\<rparr>
      [\<lparr>e_Index = 5, e_Cmd = wire_delete [], e_Result = 0\<rparr>] = Ret (s', r, if True \<and> \<not> isl r then [] else []) \<and>
    es_lastApplied s' = 5"
proof -
  let ?e = "\<lparr>e_Index = 5, e_Cmd = wire_delete [], e_Result = 0\<rparr>"
  have "UnmarshalDeleteBatchCmd (wire_delete []) = Ret (Inr [])"
    using UnmarshalDeleteBatchCmd_wire[of "[]" "[]"] by simp
  then have "log_effect [?e] 0 = Ret (0, [], [?e], [])"
    by (simp add: entry_effect_def wire_delete_def StoreBatchCmd_def DeleteBatchCmd_def)
  then show ?thesis
    using update_refines_log[OF memp.storage_db_axioms, of "\<lparr>es_db = [], es_repo = \<lparr>lastID = 0, bucketSize = 0\<rparr>,
        es_lastApplied = 0\<rparr>" "[?e]" 0 "[]" "[?e]" "[]" True]
    by (auto simp: sorted_entries_def last_index_def)
qed

text \<open>C8: replicas agree: two replicas that start from the same content and counter and apply
  the same log reach the same content, counter and applied index, however the log is cut
  into calls of \<open>Update\<close> and whichever storage engines they run on.\<close>

theorem replicas_agree:
  assumes S1: "storage_db D1 view1 pending1 good1 nf1" and S2: "storage_db D2 view2 pending2 good2 nf2"
    and G: "good1 (es_db s1)" "good2 (es_db s2)"
    and same: "view1 (es_db s1) = view2 (es_db s2)" "lastID (es_repo s1) = lastID (es_repo s2)"
    and runs: "replica_run D1 s1 batches1 s1'" "replica_run D2 s2 batches2 s2'"
    and log: "concat batches1 = concat batches2" "concat batches1 \<noteq> []"
  shows "view1 (es_db s1') = view2 (es_db s2') \<and> lastID (es_repo s1') = lastID (es_repo s2') \<and>
    es_lastApplied s1' = es_lastApplied s2'"
proof -
  obtain i1 ops1 r1 d1 where R1: "log_effect (concat batches1) (lastID (es_repo s1)) = Ret (i1, ops1, r1, d1)"
      "lastID (es_repo s1') = i1" "es_lastApplied s1' = last_index (es_lastApplied s1) (concat batches1)"
      "\<forall>k. k \<noteq> appliedIndexKey \<longrightarrow> view1 (es_db s1') k = apply_ops ops1 (view1 (es_db s1)) k"
      "batches1 \<noteq> [] \<longrightarrow> view1 (es_db s1') appliedIndexKey = Some (be_put 8 (es_lastApplied s1'))"
    using storage_db.replica_run_effect[OF S1 runs(1) G(1)] by blast
  obtain i2 ops2 r2 d2 where R2: "log_effect (concat batches2) (lastID (es_repo s2)) = Ret (i2, ops2, r2, d2)"
      "lastID (es_repo s2') = i2" "es_lastApplied s2' = last_index (es_lastApplied s2) (concat batches2)"
      "\<forall>k. k \<noteq> appliedIndexKey \<longrightarrow> view2 (es_db s2') k = apply_ops ops2 (view2 (es_db s2)) k"
      "batches2 \<noteq> [] \<longrightarrow> view2 (es_db s2') appliedIndexKey = Some (be_put 8 (es_lastApplied s2'))"
    using storage_db.replica_run_effect[OF S2 runs(2) G(2)] by blast
  have eff: "i1 = i2" "ops1 = ops2" using R1(1) R2(1) log(1) same(2) by simp_all
  have la: "es_lastApplied s1' = es_lastApplied s2'"
    using R1(3) R2(3) log(2) unfolding log(1)[symmetric] last_index_def by (simp only: if_False)
  have "batches1 \<noteq> []" "batches2 \<noteq> []" using log by auto
  then have "view1 (es_db s1') k = view2 (es_db s2') k" for k
    using R1(4,5) R2(4,5) eff la same(1) by (cases "k = appliedIndexKey") simp_all
  then show ?thesis using R1(2) R2(2) eff la by auto
qed

theorem replicas_agree_witness:
  "\<exists>s1 s2. replica_run (pebble_DB mem_pebble) mem_replica [[store_entry 4, store_entry 5]] s1 \<and>
    replica_run (pebble_DB mem_pebble) mem_replica [[store_entry 4], [store_entry 5]] s2 \<and>
    map_of (es_db s1) = map_of (es_db s2)"
proof -
  obtain s1 where s1: "replica_run (pebble_DB mem_pebble) mem_replica [[store_entry 4, store_entry 5]] s1"
    using mem_replica_run[of mem_replica "[[store_entry 4, store_entry 5]]"]
    by (auto simp: mem_replica_def sorted_entries_def)
  obtain s2 where s2: "replica_run (pebble_DB mem_pebble) mem_replica [[store_entry 4], [store_entry 5]] s2"
    using mem_replica_run[of mem_replica "[[store_entry 4], [store_entry 5]]"]
    by (auto simp: mem_replica_def sorted_entries_def)
  have "map_of (es_db s1) = map_of (es_db s2)"
    by (rule replicas_agree[OF memp.storage_db_axioms memp.storage_db_axioms _ _ refl refl s1 s2, THEN conjunct1])
      (simp_all add: mem_replica_def sorted_entries_def)
  with s1 s2 show ?thesis by blast
qed

text \<open>Applying a committed \<open>StoreBatchCmd\<close> stores every message of the batch: the
  result is the number of messages, message \<open>j\<close> is found under its bucket and topic with
  identifier \<open>lastID + j + 1\<close>, under which nothing was before, and the identifier
  invariant is kept.\<close>

theorem update_stores_batch:
  assumes S: "storage_db D view pending good notfound" and G: "good (es_db s)"
    and inv: "repo_inv (es_repo s) (view (es_db s))"
    and fits: "list_all wire_fits items" "length items * 64 \<le> 2 ^ 48" "unat (lastID (es_repo s)) + length items < 2 ^ 64"
    and idx: "list_all (\<lambda>it. list_all index_ok (Indexes it)) items"
    and cmd: "MarshalStoreBatchCmd items = Ret (Inr cmd)"
    and U: "EventStateMachine_Update D cb s [\<lparr>e_Index = n, e_Cmd = cmd, e_Result = 0\<rparr>] = Ret (s', Inr es, del)"
  shows "es = [\<lparr>e_Index = n, e_Cmd = cmd, e_Result = of_nat (length items)\<rparr>] \<and>
    (\<forall>j. j < length items \<longrightarrow>
      (let key = EventKey (Bucket (items ! j)) (TopicHash (items ! j)) (lastID (es_repo s) + of_nat (Suc j))
       in view (es_db s) key = None \<and> view (es_db s') key = Some (Msg (items ! j)))) \<and>
    repo_inv (es_repo s') (view (es_db s'))"
proof -
  let ?i = "lastID (es_repo s)"
  note eff = storage_db.Update_store[OF S G fits(1,2) cmd U]
  have idx': "\<forall>it\<in>set items. list_all index_ok (Indexes it)" using idx by (simp add: list_all_iff)
  have len: "length items < 2 ^ 64" using fits(3) by simp
  have "repo_inv (es_repo s') (view (es_db s'))"
    unfolding eff(2,3) by (intro repo_inv_applied store_items_inv inv fits(3) idx')
  moreover have "view (es_db s) (EventKey b h (?i + of_nat (Suc j))) = None" if "j < length items" for j b h
    using that fits(3) by (intro fresh_above[OF inv]) simp
  moreover have "view (es_db s') (EventKey (Bucket (items ! j)) (TopicHash (items ! j)) (?i + of_nat (Suc j))) =
      Some (Msg (items ! j))" if "j < length items" for j
    using store_items_ops_lookup[OF idx' len that] by (simp only: eff(3) fun_upd_other[OF EventKey_not_applied(1)])
  ultimately show ?thesis using eff(1) by (simp only: Let_def) blast
qed

theorem update_stores_batch_witness:
  "\<exists>s' es. EventStateMachine_Update (pebble_DB mem_pebble) True mem_replica [store_entry 4] = Ret (s', Inr es, []) \<and>
    map e_Result es = [1] \<and> map_of (es_db s') (EventKey 3 7 1) = Some [1, 2]"
proof -
  obtain s' where U: "EventStateMachine_Update (pebble_DB mem_pebble) True mem_replica
      [\<lparr>e_Index = 4, e_Cmd = wire_store [store_item], e_Result = 0\<rparr>] =
      Ret (s', Inr [\<lparr>e_Index = 4, e_Cmd = wire_store [store_item], e_Result = 1\<rparr>], [])"
    using mem_update[of "[store_entry 4]" mem_replica] store_entry_effect[of 4 0]
    by (auto simp: mem_replica_def sorted_entries_def store_entry_def)
  have "let key = EventKey (Bucket ([store_item] ! 0)) (TopicHash ([store_item] ! 0)) (lastID (es_repo mem_replica) + of_nat (Suc 0))
      in map_of (es_db mem_replica) key = None \<and> map_of (es_db s') key = Some (Msg ([store_item] ! 0))"
    by (rule update_stores_batch[OF memp.storage_db_axioms _ _ _ _ _ _ MarshalStoreBatchCmd_wire U,
          THEN conjunct2, THEN conjunct1, rule_format])
      (simp_all add: mem_replica_def sorted_entries_def repo_inv_def stored_last_def store_item_def wire_fits_def
        index_ok_def eventsLastIDKey_def bytes_of_string_def)
  then have "map_of (es_db s') (EventKey 3 7 1) = Some [1, 2]"
    by (simp add: mem_replica_def store_item_def)
  with U show ?thesis by (simp add: store_entry_def)
qed

text \<open>Applying a committed \<open>DeleteBatchCmd\<close> removes exactly its keys: every other
  entry but the applied index is kept, the identifier counter is not touched, the result is
  the number of keys, and the callback receives exactly these keys.\<close>

theorem update_deletes_batch:
  assumes S: "storage_db D view pending good notfound" and G: "good (es_db s)"
    and n: "length keys * 24 \<le> 2 ^ 48"
    and cmd: "MarshalDeleteBatchCmd keys = Ret (Inr cmd)"
    and U: "EventStateMachine_Update D cb s [\<lparr>e_Index = n, e_Cmd = cmd, e_Result = 0\<rparr>] = Ret (s', Inr es, del)"
  shows "map e_Result es = [of_nat (length keys)] \<and> del = (if cb then keys else []) \<and> es_repo s' = es_repo s \<and>
    view (es_db s') = (view (es_db s) |` (- set keys))(appliedIndexKey \<mapsto> be_put 8 n) \<and>
    (repo_inv (es_repo s) (view (es_db s)) \<longrightarrow> repo_inv (es_repo s') (view (es_db s')))"
proof -
  have keys: "list_all (\<lambda>k. length k = 24) keys"
    using cmd MarshalDeleteBatchCmd_eq(2)[of keys] by auto
  then have dec: "UnmarshalDeleteBatchCmd cmd = Ret (Inr keys)"
    using delete_cmd.decode_marshalled[OF _ cmd] n by simp
  then have "entry_effect cmd i = Ret (i, map OpDelete keys, of_nat (length keys), keys)" for i
    using delete_cmd.tagged[OF dec] by (simp add: entry_effect_def StoreBatchCmd_def DeleteBatchCmd_def)
  then have eff: "es = [\<lparr>e_Index = n, e_Cmd = cmd, e_Result = of_nat (length keys)\<rparr>]" "es_repo s' = es_repo s"
      "del = (if cb then keys else [])" "es_lastApplied s' = n"
      "view (es_db s') = (view (es_db s) |` (- set keys))(appliedIndexKey \<mapsto> be_put 8 n)"
    using storage_db.Update_ok[OF S G U] by (auto simp: apply_deletes last_index_def)
  show ?thesis
    unfolding eff using repo_inv_applied repo_inv_delete[OF _ keys] by simp
qed

theorem update_deletes_batch_witness:
  "\<exists>s' es. EventStateMachine_Update (pebble_DB mem_pebble) True
      (mem_replica\<lparr>es_db := [(EventKey 3 7 1, [1]), (EventKey 3 7 2, [2])]\<rparr>)
      [\<lparr>e_Index = 6, e_Cmd = wire_delete [EventKey 3 7 1], e_Result = 0\<rparr>] = Ret (s', Inr es, [EventKey 3 7 1]) \<and>
    map_of (es_db s') (EventKey 3 7 1) = None \<and> map_of (es_db s') (EventKey 3 7 2) = Some [2]"
proof -
  let ?s = "mem_replica\<lparr>es_db := [(EventKey 3 7 1, [1]), (EventKey 3 7 2, [2])]\<rparr>"
  let ?e = "\<lparr>e_Index = 6, e_Cmd = wire_delete [EventKey 3 7 1], e_Result = 0\<rparr>"
  have good: "sorted_entries (es_db ?s)" by (simp add: sorted_entries_def EventKey_less_iff)
  have "UnmarshalDeleteBatchCmd (wire_delete [EventKey 3 7 1]) = Ret (Inr [EventKey 3 7 1])"
    using UnmarshalDeleteBatchCmd_wire[of "[EventKey 3 7 1]" "[]"] by simp
  then have "log_effect [?e] 0 = Ret (0, [OpDelete (EventKey 3 7 1)], [?e\<lparr>e_Result := 1\<rparr>], [EventKey 3 7 1])"
    by (simp add: entry_effect_def wire_delete_def StoreBatchCmd_def DeleteBatchCmd_def)
  then obtain s' where U: "EventStateMachine_Update (pebble_DB mem_pebble) True ?s [?e] =
      Ret (s', Inr [?e\<lparr>e_Result := 1\<rparr>], [EventKey 3 7 1])"
    using mem_update[of "[?e]" ?s _ _ _ _ True] good by (auto simp: mem_replica_def)
  have "map_of (es_db s') = (map_of (es_db ?s) |` (- set [EventKey 3 7 1]))(appliedIndexKey \<mapsto> be_put 8 (6 :: u64))"
    using update_deletes_batch[OF memp.storage_db_axioms good _ MarshalDeleteBatchCmd_eq(1) U] by simp
  with U show ?thesis by simp
qed


text \<open>After a successful \<open>Update\<close> the state machine reopens where it stopped: \<open>Open\<close>
  on the engine state returns the index of the last applied entry, whatever the machine in
  memory holds, so Dragonboat replays no entry twice.\<close>

theorem reopen_after_update:
  assumes S: "storage_db D view pending good notfound" and G: "good (es_db s)"
    and U: "EventStateMachine_Update D cb s (es @ [e]) = Ret (s', Inr es', del)"
  shows "EventStateMachine_Open D (t\<lparr>es_db := es_db s'\<rparr>) =
    Ret (t\<lparr>es_db := es_db s', es_lastApplied := e_Index e\<rparr>, Inr (e_Index e))"
proof -
  have "good (es_db s')" "view (es_db s') appliedIndexKey = Some (be_put 8 (e_Index e))"
    using storage_db.Update_ok[OF S G U] by (auto simp: last_index_def)
  then show ?thesis by (simp add: EventStateMachine_Open_def storage_db.Get[OF S])
qed

theorem reopen_after_update_witness:
  "\<exists>s' :: kvlist EventStateMachine. EventStateMachine_Open (pebble_DB mem_pebble) (mem_replica\<lparr>es_db := es_db s'\<rparr>) =
    Ret (mem_replica\<lparr>es_db := es_db s', es_lastApplied := 5\<rparr>, Inr 5)"
proof -
  have "\<exists>eff. log_effect ([store_entry 4] @ [store_entry 5]) 0 = Ret eff"
    using store_log_effect[of "[store_entry 4] @ [store_entry 5]" 0] by auto
  then obtain i ops es' del where "log_effect ([store_entry 4] @ [store_entry 5]) (lastID (es_repo mem_replica)) =
      Ret (i, ops, es', del)"
    by (auto simp: mem_replica_def)
  from mem_update[OF this, of False] obtain s' where
    U: "EventStateMachine_Update (pebble_DB mem_pebble) False mem_replica ([store_entry 4] @ [store_entry 5]) =
      Ret (s', Inr es', [])"
    by (auto simp: mem_replica_def sorted_entries_def)
  from reopen_after_update[OF memp.storage_db_axioms _ U, of mem_replica] show ?thesis
    by (auto simp: mem_replica_def sorted_entries_def store_entry_def)
qed

text \<open>C19: a snapshot transfers the whole content of a replica: what \<open>SaveSnapshot\<close> writes
  on one engine, \<open>RecoverFromSnapshot\<close> turns into the same content and applied index on
  another, whatever was there before, as long as keys and values are shorter than 4 GiB and
  the receiving engine commits.\<close>

theorem snapshot_roundtrip:
  assumes S1: "storage_db D1 view1 pending1 good1 nf1" and S2: "storage_db D2 view2 pending2 good2 nf2"
    and G: "good1 (es_db s1)" "good2 (es_db s2)"
    and commits: "\<forall>st b m. snd (db_Commit D2 st b m) = None"
    and idx: "view1 (es_db s1) appliedIndexKey = Some (be_put 8 (i :: u64))"
    and small: "\<forall>k v. view1 (es_db s1) k = Some v \<longrightarrow> length k < 2 ^ 32 \<and> length v < 2 ^ 32"
    and save: "EventStateMachine_SaveSnapshot D1 s1 (\<lambda>w bs. (w @ bs, None)) (\<lambda>_. False) [] = (w, e)"
  shows "e = None \<and> (\<exists>s2'. EventStateMachine_RecoverFromSnapshot D2 s2 w (\<lambda>_. False) = Ret (s2', None) \<and>
    view2 (es_db s2') = view1 (es_db s1) \<and> es_lastApplied s2' = i)"
proof -
  obtain kvs where kvs: "lists_store kvs (view1 (es_db s1))" and w: "w = snapshot_bytes kvs" "e = None"
    using storage_db.SaveSnapshot_bytes[OF S1 G(1)] save by auto
  then have "sorted_entries kvs" "map_of kvs = view1 (es_db s1)" by (simp_all add: lists_store_def)
  moreover have "\<forall>(k, v)\<in>set kvs. length k < 2 ^ 32 \<and> length v < 2 ^ 32"
    using small lists_store_set[OF kvs] by blast
  ultimately show ?thesis
    using storage_db.Recover_snapshot[OF S2 G(2) commits, of kvs i] idx w by auto
qed

theorem snapshot_roundtrip_witness:
  "\<exists>s2'. EventStateMachine_RecoverFromSnapshot (pebble_DB mem_pebble) mem_replica
      (snapshot_bytes [(appliedIndexKey, be_put 8 (9 :: u64))]) (\<lambda>_. False) = Ret (s2', None) \<and>
    map_of (es_db s2') = [appliedIndexKey \<mapsto> be_put 8 (9 :: u64)] \<and> es_lastApplied s2' = 9"
proof -
  let ?st = "[(appliedIndexKey, be_put 8 (9 :: u64))]"
  have "EventStateMachine_SaveSnapshot (bolt_DB mem_bolt [1]) \<lparr>es_db = Some ?st, es_repo = \<lparr>lastID = 4, bucketSize = 0\<rparr>, es_lastApplied = 9\<rparr>
      (\<lambda>w bs. (w @ bs, None)) (\<lambda>_. False) [] = (snapshot_bytes ?st, None)"
    by (simp add: EventStateMachine_SaveSnapshot_def DB_Scan_def bolt_DB_def boltDB_Scan_def mem_bolt_def save_loop
        split: prod.split option.split)
  from snapshot_roundtrip[OF bolt_storage_db[OF mem_bolt_contract] memp.storage_db_axioms _ _ mem_commits _ _ this,
      of mem_replica 9]
  show ?thesis
    by (simp add: bolt_good_def bolt_view_def mem_bolt_def mem_replica_def sorted_entries_def)
qed

text \<open>C34: recovery from a snapshot does not refresh the identifier counter, so the recovered
  replica diverges: after a snapshot transfer both replicas have the same content, yet when
  their counters differ, applying the same store command leaves a message under one
  identifier on the source and under another on the recovered replica.\<close>

theorem snapshot_recovery_diverges:
  assumes S1: "storage_db D1 view1 pending1 good1 nf1" and S2: "storage_db D2 view2 pending2 good2 nf2"
    and G: "good1 (es_db s1)" "good2 (es_db s2)"
    and commits: "\<forall>st b m. snd (db_Commit D2 st b m) = None"
    and kvs: "lists_store kvs (view1 (es_db s1))" "\<forall>(k, v)\<in>set kvs. length k < 2 ^ 32 \<and> length v < 2 ^ 32"
    and idx: "map_of kvs appliedIndexKey = Some (be_put 8 (i :: u64))"
    and recover: "EventStateMachine_RecoverFromSnapshot D2 s2 (snapshot_bytes kvs) (\<lambda>_. False) = Ret (s2', e)"
    and counters: "lastID (es_repo s1) \<noteq> lastID (es_repo s2)"
    and item: "wire_fits it" "list_all index_ok (Indexes it)"
      "view1 (es_db s1) (EventKey (Bucket it) (TopicHash it) (lastID (es_repo s1) + 1)) = None"
    and U1: "EventStateMachine_Update D1 cb s1 [\<lparr>e_Index = n, e_Cmd = wire_store [it], e_Result = 0\<rparr>] = Ret (s1', Inr es1, d1)"
    and U2: "EventStateMachine_Update D2 cb s2' [\<lparr>e_Index = n, e_Cmd = wire_store [it], e_Result = 0\<rparr>] = Ret (s2'', Inr es2, d2)"
  shows "view2 (es_db s2') = view1 (es_db s1) \<and>
    view1 (es_db s1') (EventKey (Bucket it) (TopicHash it) (lastID (es_repo s1) + 1)) = Some (Msg it) \<and>
    view2 (es_db s2'') (EventKey (Bucket it) (TopicHash it) (lastID (es_repo s1) + 1)) = None"
proof -
  let ?k = "EventKey (Bucket it) (TopicHash it) (lastID (es_repo s1) + 1)"
  have same: "good2 (es_db s2')" "view2 (es_db s2') = view1 (es_db s1)" "es_repo s2' = es_repo s2"
    using storage_db.Recover_snapshot[OF S2 G(2) commits, of kvs i] kvs idx recover by (auto simp: lists_store_def)
  have dec: "UnmarshalStoreBatchCmd (wire_store [it]) = Ret (Inr [it])"
    using UnmarshalStoreBatchCmd_wire[of "[it]" "[]"] item(1) by simp
  then have eff: "entry_effect (wire_store [it]) j = Ret (j + 1, store_items_ops j [it], 1, [])" for j
    using store_cmd.tagged[OF dec] by (simp add: entry_effect_def)
  have "?k \<notin> set (Indexes it)"
    using item(2) length_EventKey unfolding list_all_iff index_ok_def by blast
  moreover have "view1 (es_db s1') = (apply_ops (store_items_ops (lastID (es_repo s1)) [it]) (view1 (es_db s1)))
      (appliedIndexKey \<mapsto> be_put 8 (es_lastApplied s1'))"
    using storage_db.Update_ok[OF S1 G(1) U1] by (auto simp: eff)
  moreover have "view2 (es_db s2'') = (apply_ops (store_items_ops (lastID (es_repo s2)) [it]) (view1 (es_db s1)))
      (appliedIndexKey \<mapsto> be_put 8 (es_lastApplied s2''))"
    using storage_db.Update_ok[OF S2 same(1) U2] same by (auto simp: eff)
  ultimately show ?thesis
    using same(2) counters item(3) by (simp add: apply_store_ops)
qed

theorem snapshot_recovery_diverges_witness:
  "\<exists>s2' s1' s2'' es1 es2 d1 d2.
    EventStateMachine_RecoverFromSnapshot (pebble_DB mem_pebble) mem_replica
      (snapshot_bytes [(appliedIndexKey, be_put 8 (9 :: u64))]) (\<lambda>_. False) = Ret (s2', None) \<and>
    EventStateMachine_Update (pebble_DB mem_pebble) False (mem_replica\<lparr>es_db := [(appliedIndexKey, be_put 8 (9 :: u64))],
      es_repo := \<lparr>lastID = 4, bucketSize = 0\<rparr>\<rparr>) [store_entry 10] = Ret (s1', Inr es1, d1) \<and>
    EventStateMachine_Update (pebble_DB mem_pebble) False s2' [store_entry 10] = Ret (s2'', Inr es2, d2) \<and>
    map_of (es_db s1') (EventKey 3 7 5) = Some [1, 2] \<and> map_of (es_db s2'') (EventKey 3 7 5) = None"
proof -
  let ?D = "pebble_DB mem_pebble"
  let ?st = "[(appliedIndexKey, be_put 8 (9 :: u64))]"
  let ?s1 = "mem_replica\<lparr>es_db := ?st, es_repo := \<lparr>lastID = 4, bucketSize = 0\<rparr>\<rparr>"
  have small: "\<forall>(k, v)\<in>set ?st. length k < 2 ^ 32 \<and> length v < 2 ^ 32" by simp
  have idx: "map_of ?st appliedIndexKey = Some (be_put 8 (9 :: u64))" by simp
  obtain s2' where rec: "EventStateMachine_RecoverFromSnapshot ?D mem_replica (snapshot_bytes ?st) (\<lambda>_. False) = Ret (s2', None)"
      and s2': "sorted_entries (es_db s2')"
    using memp.Recover_snapshot[OF _ mem_commits _ small idx, of mem_replica]
    by (auto simp: mem_replica_def sorted_entries_def)
  obtain s1' es1 d1 where U1: "EventStateMachine_Update ?D False ?s1 [store_entry 10] = Ret (s1', Inr es1, d1)"
    using mem_store_update[of ?s1 False 10] by (auto simp: sorted_entries_def)
  obtain s2'' es2 d2 where U2: "EventStateMachine_Update ?D False s2' [store_entry 10] = Ret (s2'', Inr es2, d2)"
    using mem_store_update[OF s2', of False 10] by auto
  have "map_of (es_db s1') (EventKey 3 7 5) = Some [1, 2] \<and> map_of (es_db s2'') (EventKey 3 7 5) = None"
    using snapshot_recovery_diverges[OF memp.storage_db_axioms memp.storage_db_axioms _ _ mem_commits _ small idx rec _ _ _ _
        U1[unfolded store_entry_def] U2[unfolded store_entry_def]]
    by (simp add: mem_replica_def sorted_entries_def lists_store_def store_item_def wire_fits_def index_ok_def
        eventsLastIDKey_def bytes_of_string_def)
  with rec U1 U2 show ?thesis by blast
qed

text \<open>A recovery that fails while reading leaves an empty store: the old content is
  deleted and committed before the first byte of the snapshot is read, so a stream that
  breaks off inside a length field ends with an error, no data, and the old applied index
  in memory.\<close>

theorem failed_recovery_empties:
  assumes S: "storage_db D view pending good notfound" and G: "good (es_db s)"
    and commits: "\<forall>st b m. snd (db_Commit D st b m) = None"
    and short: "0 < length r" "length r < 4"
  shows "\<exists>s'. EventStateMachine_RecoverFromSnapshot D s r (\<lambda>_. False) = Ret (s', Some IoErrUnexpectedEOF) \<and>
    view (es_db s') = (\<lambda>_. None) \<and> es_lastApplied s' = es_lastApplied s"
proof -
  obtain st1 n where st1: "clearDB D (\<lambda>_. False) 0 (es_db s) = (st1, n, None)"
    using storage_db.clearDB_ops[OF S G] commits by (metis (mono_tags, lifting) prod.collapse split_conv)
  have "recover_loop D (\<lambda>_. False) n b r = (b, Some IoErrUnexpectedEOF)" for b
    using short by (subst recover_loop.simps) (auto simp: io_ReadFull_def)
  then show ?thesis
    using st1 storage_db.clearDB_cleared[OF S G st1] by (simp add: EventStateMachine_RecoverFromSnapshot_def)
qed


theorem failed_recovery_empties_witness:
  "\<exists>s'. EventStateMachine_RecoverFromSnapshot (pebble_DB mem_pebble)
      (mem_replica\<lparr>es_db := [(EventKey 3 7 1, [1])], es_lastApplied := 9\<rparr>) [0, 0] (\<lambda>_. False) =
      Ret (s', Some IoErrUnexpectedEOF) \<and> map_of (es_db s') = (\<lambda>_. None) \<and> es_lastApplied s' = 9"
  using failed_recovery_empties[OF memp.storage_db_axioms _ mem_commits,
      of "mem_replica\<lparr>es_db := [(EventKey 3 7 1, [1])], es_lastApplied := 9\<rparr>" "[0, 0]"]
  by (simp add: sorted_entries_def)

end
