(* ===== verification/MetaSM.thy ===== *)
theory MetaSM
  imports MetaCommands EventSM
begin

text \<open>
  The in-memory state machine of the metadata shard,
  \<open>src/pkg/raft/metadata/statemachine.go\<close>: topology of every shard, global epoch, and the
  registry of client addresses. A pointer to a topology is the topology itself: the state
  machine hands out copies only. Writer and reader of a snapshot are as in theory
  \<open>EventSM\<close>.

  The lemmas give the invariant of the reachable states, the effect of the commands, and the
  snapshot: what it restores, and that the global epoch is not part of it.
\<close>

section \<open>Definitions\<close>

record MetadataStateMachine =
  ms_topology :: TopologySnapshot
  ms_grpcAddrs :: node_map

definition NewMetadataStateMachine :: MetadataStateMachine where
  "NewMetadataStateMachine = \<lparr>ms_topology = \<lparr>tp_Shards = [], tp_Epoch = 0\<rparr>, ms_grpcAddrs = []\<rparr>"

text \<open>The two assignments \<open>Update\<close> and \<open>RecoverFromSnapshot\<close> make for a topology.\<close>

definition put_topology :: "TopologySnapshot \<Rightarrow> ShardTopology \<Rightarrow> TopologySnapshot" where
  "put_topology s topo =
    (let s1 = s\<lparr>tp_Shards := AList.update (t_ShardID topo) topo (tp_Shards s)\<rparr>
     in if t_Epoch topo > tp_Epoch s1 then s1\<lparr>tp_Epoch := t_Epoch topo\<rparr> else s1)"

definition MetadataSM_Update :: "MetadataStateMachine \<Rightarrow> bytes \<Rightarrow> MetadataStateMachine \<times> u64" where
  "MetadataSM_Update s cmd =
    (if length cmd = 0 then (s, 0)
     else if cmd ! 0 = UpdateTopologyCmd then
       (case UnmarshalUpdateTopologyCmd cmd of
          Inl err \<Rightarrow> (s, 0)
        | Inr topo \<Rightarrow> (s\<lparr>ms_topology := put_topology (ms_topology s) topo\<rparr>, 1))
     else if cmd ! 0 = RegisterNodeAddrCmd then
       (case UnmarshalRegisterNodeAddrCmd cmd of
          Inl err \<Rightarrow> (s, 0)
        | Inr (nodeID, grpcAddr) \<Rightarrow> (s\<lparr>ms_grpcAddrs := AList.update nodeID grpcAddr (ms_grpcAddrs s)\<rparr>, 1))
     else (s, 0))"

definition copyShardTopology :: "(nat \<Rightarrow> node_map \<Rightarrow> node_map) \<Rightarrow> ShardTopology \<Rightarrow> ShardTopology" where
  "copyShardTopology order t = t\<lparr>t_Nodes := copy_map [] (order 0 (t_Nodes t)), t_NonVotings := copy_map [] (order 1 (t_NonVotings t)),
     t_Witnesses := copy_map [] (order 2 (t_Witnesses t)), t_GrpcAddrs := copy_map [] (order 3 (t_GrpcAddrs t))\<rparr>"

definition copyTopology :: "(nat \<Rightarrow> node_map \<Rightarrow> node_map) \<Rightarrow> ((u64 \<times> ShardTopology) list \<Rightarrow> (u64 \<times> ShardTopology) list)
    \<Rightarrow> MetadataStateMachine \<Rightarrow> TopologySnapshot" where
  "copyTopology order sorder s =
    \<lparr>tp_Shards = copy_map [] (map (\<lambda>(i, shard). (i, copyShardTopology order shard)) (sorder (tp_Shards (ms_topology s)))),
     tp_Epoch = tp_Epoch (ms_topology s)\<rparr>"

text \<open>Queries and answers of \<open>Lookup\<close>: the dynamic types its switch distinguishes.\<close>

datatype query = QNil | QString string | QUint64 u64 | QOther
datatype answer = ATopology TopologySnapshot | AShard ShardTopology | ANil

definition MetadataSM_Lookup :: "(nat \<Rightarrow> node_map \<Rightarrow> node_map) \<Rightarrow> ((u64 \<times> ShardTopology) list \<Rightarrow> (u64 \<times> ShardTopology) list)
    \<Rightarrow> MetadataStateMachine \<Rightarrow> query \<Rightarrow> answer" where
  "MetadataSM_Lookup order sorder s q =
    (case q of
       QNil \<Rightarrow> ATopology (copyTopology order sorder s)
     | QString str \<Rightarrow> if str = ''topology'' then ATopology (copyTopology order sorder s) else ANil
     | QUint64 i \<Rightarrow> (case map_of (tp_Shards (ms_topology s)) i of Some shard \<Rightarrow> AShard (copyShardTopology order shard) | None \<Rightarrow> ANil)
     | QOther \<Rightarrow> ANil)"

definition GetTopology :: "(nat \<Rightarrow> node_map \<Rightarrow> node_map) \<Rightarrow> ((u64 \<times> ShardTopology) list \<Rightarrow> (u64 \<times> ShardTopology) list)
    \<Rightarrow> MetadataStateMachine \<Rightarrow> TopologySnapshot" where
  "GetTopology order sorder s = copyTopology order sorder s"

definition GetShardTopology :: "(nat \<Rightarrow> node_map \<Rightarrow> node_map) \<Rightarrow> MetadataStateMachine \<Rightarrow> u64 \<Rightarrow> ShardTopology option" where
  "GetShardTopology order s shardID =
    (case map_of (tp_Shards (ms_topology s)) shardID of Some shard \<Rightarrow> Some (copyShardTopology order shard) | None \<Rightarrow> None)"

definition GetGrpcAddrs :: "(node_map \<Rightarrow> node_map) \<Rightarrow> MetadataStateMachine \<Rightarrow> node_map" where
  "GetGrpcAddrs order s = copy_map [] (order (ms_grpcAddrs s))"

subsection \<open>Snapshots\<close>

definition writeUint32 :: "('w \<Rightarrow> bytes \<Rightarrow> 'w \<times> goerror option) \<Rightarrow> 'w \<Rightarrow> u32 \<Rightarrow> 'w \<times> goerror option" where
  "writeUint32 write w v = write w (be_put 4 v)"

definition readUint32 :: "bytes \<Rightarrow> goerror + u32 \<times> bytes" where
  "readUint32 r = (case io_ReadFull r 4 of Inl err \<Rightarrow> Inl err | Inr (b, r') \<Rightarrow> Inr (be_get b, r'))"

text \<open>One turn of either writing loop: encode, write the length, write the command.\<close>

definition save_cmd :: "('w \<Rightarrow> bytes \<Rightarrow> 'w \<times> goerror option) \<Rightarrow> 'w \<Rightarrow> (goerror + bytes) go \<Rightarrow> ('w \<times> goerror option) go" where
  "save_cmd write w marshalled =
    bind_go marshalled (\<lambda>r. case r of
      Inl err \<Rightarrow> Ret (w, Some err)
    | Inr cmd \<Rightarrow>
       (case writeUint32 write w (of_nat (length cmd)) of
          (w1, Some err) \<Rightarrow> Ret (w1, Some err)
        | (w1, None) \<Rightarrow> Ret (write w1 cmd)))"

fun save_cmds :: "('w \<Rightarrow> bytes \<Rightarrow> 'w \<times> goerror option) \<Rightarrow> 'w \<Rightarrow> (goerror + bytes) go list \<Rightarrow> ('w \<times> goerror option) go" where
  "save_cmds write w [] = Ret (w, None)"
| "save_cmds write w (m # ms) =
    bind_go (save_cmd write w m) (\<lambda>(w1, e). case e of Some err \<Rightarrow> Ret (w1, Some err) | None \<Rightarrow> save_cmds write w1 ms)"

definition MetadataSM_SaveSnapshot :: "(nat \<Rightarrow> node_map \<Rightarrow> node_map) \<Rightarrow> (node_map \<Rightarrow> node_map)
    \<Rightarrow> ((u64 \<times> ShardTopology) list \<Rightarrow> (u64 \<times> ShardTopology) list) \<Rightarrow> MetadataStateMachine
    \<Rightarrow> ('w \<Rightarrow> bytes \<Rightarrow> 'w \<times> goerror option) \<Rightarrow> 'w \<Rightarrow> ('w \<times> goerror option) go" where
  "MetadataSM_SaveSnapshot order gorder sorder s write w =
    (case writeUint32 write w (of_nat (length (ms_grpcAddrs s))) of
       (w1, Some err) \<Rightarrow> Ret (w1, Some err)
     | (w1, None) \<Rightarrow>
        bind_go (save_cmds write w1 (map (\<lambda>(nodeID, addr). MarshalRegisterNodeAddrCmd nodeID addr) (gorder (ms_grpcAddrs s))))
          (\<lambda>(w2, e2). case e2 of Some err \<Rightarrow> Ret (w2, Some err)
           | None \<Rightarrow>
              (case writeUint32 write w2 (of_nat (length (tp_Shards (ms_topology s)))) of
                 (w3, Some err) \<Rightarrow> Ret (w3, Some err)
               | (w3, None) \<Rightarrow>
                  save_cmds write w3 (map (\<lambda>(i, shard). MarshalUpdateTopologyCmd order shard) (sorder (tp_Shards (ms_topology s)))))))"

fun recover_addrs :: "nat \<Rightarrow> bytes \<Rightarrow> MetadataStateMachine \<Rightarrow> MetadataStateMachine \<times> (goerror + bytes)" where
  "recover_addrs 0 r s = (s, Inr r)"
| "recover_addrs (Suc n) r s =
    (case readUint32 r of
       Inl err \<Rightarrow> (s, Inl err)
     | Inr (cmdLen, r1) \<Rightarrow>
        (case io_ReadFull r1 (unat cmdLen) of
           Inl err \<Rightarrow> (s, Inl err)
         | Inr (cmd, r2) \<Rightarrow>
            (case UnmarshalRegisterNodeAddrCmd cmd of
               Inl err \<Rightarrow> (s, Inl err)
             | Inr (nodeID, addr) \<Rightarrow> recover_addrs n r2 (s\<lparr>ms_grpcAddrs := AList.update nodeID addr (ms_grpcAddrs s)\<rparr>))))"

fun recover_shards :: "nat \<Rightarrow> bytes \<Rightarrow> MetadataStateMachine \<Rightarrow> MetadataStateMachine \<times> (goerror + bytes)" where
  "recover_shards 0 r s = (s, Inr r)"
| "recover_shards (Suc n) r s =
    (case readUint32 r of
       Inl err \<Rightarrow> (s, Inl err)
     | Inr (cmdLen, r1) \<Rightarrow>
        (case io_ReadFull r1 (unat cmdLen) of
           Inl err \<Rightarrow> (s, Inl err)
         | Inr (cmd, r2) \<Rightarrow>
            (case UnmarshalUpdateTopologyCmd cmd of
               Inl err \<Rightarrow> (s, Inl err)
             | Inr topo \<Rightarrow> recover_shards n r2 (s\<lparr>ms_topology := put_topology (ms_topology s) topo\<rparr>))))"

definition MetadataSM_RecoverFromSnapshot :: "MetadataStateMachine \<Rightarrow> bytes \<Rightarrow> MetadataStateMachine \<times> goerror option" where
  "MetadataSM_RecoverFromSnapshot s r =
    (let s0 = NewMetadataStateMachine
     in case readUint32 r of
          Inl err \<Rightarrow> (s0, Some err)
        | Inr (grpcCount, r1) \<Rightarrow>
           (case recover_addrs (unat grpcCount) r1 s0 of
              (s1, Inl err) \<Rightarrow> (s1, Some err)
            | (s1, Inr r2) \<Rightarrow>
               (case readUint32 r2 of
                  Inl err \<Rightarrow> (s1, Some err)
                | Inr (shardCount, r3) \<Rightarrow>
                   (case recover_shards (unat shardCount) r3 s1 of
                      (s2, Inl err) \<Rightarrow> (s2, Some err)
                    | (s2, Inr r4) \<Rightarrow> (s2, None)))))"

subsection \<open>Specification\<close>

text \<open>The states a replica can be in.\<close>

inductive meta_reach :: "MetadataStateMachine \<Rightarrow> bool" where
  init: "meta_reach NewMetadataStateMachine"
| update: "meta_reach s \<Longrightarrow> meta_reach (fst (MetadataSM_Update s cmd))"
| recover: "MetadataSM_RecoverFromSnapshot s r = (s', e) \<Longrightarrow> meta_reach s'"

definition meta_inv :: "MetadataStateMachine \<Rightarrow> bool" where
  "meta_inv s \<longleftrightarrow>
    distinct (map fst (tp_Shards (ms_topology s))) \<and> distinct (map fst (ms_grpcAddrs s)) \<and>
    list_all (\<lambda>(i, t). t_ShardID t = i \<and> topology_fits t \<and> t_Epoch t \<le> tp_Epoch (ms_topology s)) (tp_Shards (ms_topology s)) \<and>
    list_all (\<lambda>(i, addr). length addr < 65536) (ms_grpcAddrs s)"

text \<open>Sizes that fit the four-byte fields of a snapshot.\<close>

definition snapshot_fits :: "MetadataStateMachine \<Rightarrow> bool" where
  "snapshot_fits s \<longleftrightarrow> length (ms_grpcAddrs s) < 2 ^ 32 \<and> length (tp_Shards (ms_topology s)) < 2 ^ 32 \<and>
    list_all (\<lambda>(i, t). length (wire_topology t) < 2 ^ 32) (tp_Shards (ms_topology s))"

text \<open>The bytes of a list of commands, each behind its length.\<close>

definition framed :: "bytes list \<Rightarrow> bytes" where
  "framed cmds = concat (map (\<lambda>cmd. be_put 4 (of_nat (length cmd) :: u32) @ cmd) cmds)"

text \<open>A writer that appends.\<close>

abbreviation append_writer :: "bytes \<Rightarrow> bytes \<Rightarrow> bytes \<times> goerror option" where
  "append_writer w bs \<equiv> (w @ bs, None)"

text \<open>A topology of shard one with an epoch.\<close>

definition sample_topology :: "u64 \<Rightarrow> ShardTopology" where
  "sample_topology e = \<lparr>t_ShardID = 1, t_LeaderID = 2, t_LeaderAddr = ''b'', t_Term = 3, t_Epoch = e, t_Nodes = [(1, ''x''), (2, ''y'')],
     t_NonVotings = [], t_Witnesses = [], t_GrpcAddrs = [(2, ''b'')], t_ConfigChangeID = 5\<rparr>"

section \<open>Invariant\<close>

lemma distinct_alist_update: "distinct (map fst m) \<Longrightarrow> distinct (map fst (AList.update k v m))"
  by (simp add: distinct_update)

lemma set_alist_update:
  assumes "(k', v') \<in> set (AList.update k v m)" and "distinct (map fst m)"
  shows "(k', v') = (k, v) \<or> (k', v') \<in> set m \<and> k' \<noteq> k"
proof -
  have "map_of (AList.update k v m) k' = Some v'"
    using assms by (intro map_of_is_SomeI) (simp_all add: distinct_update)
  then show ?thesis by (cases "k' = k") (auto simp: update_conv' dest: map_of_SomeD)
qed

lemma length_alist_update: "length (AList.update k v m) \<le> Suc (length m)"
  by (induction m) auto

lemma unmarshal_node_entries_fits:
  "unmarshal_node_entries data pos i n m = Inr (m', pos') \<Longrightarrow> distinct (map fst m) \<Longrightarrow>
    list_all (\<lambda>(i, addr). length addr < 65536) m \<Longrightarrow>
    distinct (map fst m') \<and> list_all (\<lambda>(i, addr). length addr < 65536) m' \<and> length m' \<le> length m + n"
proof (induction data pos i n m rule: unmarshal_node_entries.induct)
  case (2 data pos i n m)
  let ?id = "be_get (slice_of data pos (pos + 8)) :: u64" and ?l = "be_get (slice_of data (pos + 8) (pos + 10)) :: u16"
  let ?a = "string_of_bytes (slice_of data (pos + 10) (pos + 10 + unat ?l))"
  let ?m = "AList.update ?id ?a m"
  from "2.prems"(1) have le: "\<not> pos + 8 + 2 > length data" "\<not> pos + 10 + unat ?l > length data"
    and rec: "unmarshal_node_entries data (pos + 10 + unat ?l) (i + 1) n ?m = Inr (m', pos')"
    by (auto simp: Let_def split: if_splits)
  have "unat ?l < 65536" using unsigned_less[of ?l, where 'a = nat] by simp
  then have "length ?a < 65536" using le by (simp add: string_of_bytes_def)
  then have "list_all (\<lambda>(i, addr). length addr < 65536) ?m"
    using "2.prems"(2,3) by (auto simp: list_all_iff dest!: set_alist_update)
  with "2.IH"[OF le(1) refl refl le(2) rec] "2.prems"(2) length_alist_update[of ?id ?a m] show ?case
    by (simp add: distinct_alist_update)
qed simp

lemma unmarshalNodeMap_fits: "unmarshalNodeMap data pos = Inr (m, pos') \<Longrightarrow> node_map_fits m"
  using unmarshal_node_entries_fits[of data "pos + 2" 0 "unat (be_get (slice_of data pos (pos + 2)) :: u16)" "[]" m pos']
    unsigned_less[of "be_get (slice_of data pos (pos + 2)) :: u16", where 'a = nat]
  by (auto simp: unmarshalNodeMap_def node_map_fits_def split: if_splits)

lemma UnmarshalUpdateTopologyCmd_fits: "UnmarshalUpdateTopologyCmd data = Inr t \<Longrightarrow> topology_fits t"
proof -
  assume U: "UnmarshalUpdateTopologyCmd data = Inr t"
  let ?l = "be_get (slice_of data 41 43) :: u16"
  have "unat ?l < 65536" using unsigned_less[of ?l, where 'a = nat] by simp
  moreover from U have "43 + unat ?l \<le> length data"
    by (auto simp: UnmarshalUpdateTopologyCmd_def Let_def split: if_splits)
  moreover from U have "t_LeaderAddr t = string_of_bytes (slice_of data 43 (43 + unat ?l))"
    by (auto simp: UnmarshalUpdateTopologyCmd_def Let_def split: if_splits sum.splits)
  ultimately have "length (t_LeaderAddr t) < 65536" by (simp add: string_of_bytes_def)
  with U show ?thesis
    by (auto simp: UnmarshalUpdateTopologyCmd_def Let_def topology_fits_def split: if_splits sum.splits)
      (blast dest: unmarshalNodeMap_fits)+
qed

lemma UnmarshalRegisterNodeAddrCmd_fits: "UnmarshalRegisterNodeAddrCmd data = Inr (i, addr) \<Longrightarrow> length addr < 65536"
  using unsigned_less[of "be_get (slice_of data 9 11) :: u16", where 'a = nat]
  by (auto simp: UnmarshalRegisterNodeAddrCmd_def Let_def string_of_bytes_def split: if_splits)

lemma meta_inv_topology:
  assumes "meta_inv s" and "topology_fits topo"
  shows "meta_inv (s\<lparr>ms_topology := put_topology (ms_topology s) topo\<rparr>)"
  using assms set_alist_update[of _ _ "t_ShardID topo" topo "tp_Shards (ms_topology s)"]
  by (fastforce simp: meta_inv_def put_topology_def Let_def list_all_iff distinct_alist_update)

lemma meta_inv_addr:
  assumes "meta_inv s" and "length addr < 65536"
  shows "meta_inv (s\<lparr>ms_grpcAddrs := AList.update i addr (ms_grpcAddrs s)\<rparr>)"
  using assms set_alist_update[of _ _ i addr "ms_grpcAddrs s"]
  by (fastforce simp: meta_inv_def list_all_iff distinct_alist_update)

lemma recover_addrs_inv: "recover_addrs n r s = (s', res) \<Longrightarrow> meta_inv s \<Longrightarrow> meta_inv s'"
proof (induction n arbitrary: r s)
  case (Suc n)
  from Suc.prems show ?case
    by (auto split: sum.splits prod.splits elim!: Suc.IH intro!: meta_inv_addr dest: UnmarshalRegisterNodeAddrCmd_fits)
qed simp

lemma recover_shards_inv: "recover_shards n r s = (s', res) \<Longrightarrow> meta_inv s \<Longrightarrow> meta_inv s'"
proof (induction n arbitrary: r s)
  case (Suc n)
  from Suc.prems show ?case
    by (auto split: sum.splits prod.splits elim!: Suc.IH intro!: meta_inv_topology dest: UnmarshalUpdateTopologyCmd_fits)
qed simp

lemma meta_inv_new: "meta_inv NewMetadataStateMachine"
  by (simp add: meta_inv_def NewMetadataStateMachine_def)

lemma recover_inv: "MetadataSM_RecoverFromSnapshot s r = (s', e) \<Longrightarrow> meta_inv s'"
  by (auto simp: MetadataSM_RecoverFromSnapshot_def Let_def split: sum.splits prod.splits
      intro: meta_inv_new dest: recover_addrs_inv[OF _ meta_inv_new] recover_shards_inv)

lemma update_inv: "meta_inv s \<Longrightarrow> meta_inv (fst (MetadataSM_Update s cmd))"
  by (auto simp: MetadataSM_Update_def split: sum.splits intro: meta_inv_topology meta_inv_addr
      dest: UnmarshalUpdateTopologyCmd_fits UnmarshalRegisterNodeAddrCmd_fits)

lemma meta_reach_inv: "meta_reach s \<Longrightarrow> meta_inv s"
  by (induction rule: meta_reach.induct) (auto intro: meta_inv_new update_inv recover_inv)


section \<open>Snapshots\<close>

text \<open>C23: a well-formedness typing of the replica's state: whatever commands a replica applies
  and whatever bytes it recovers from (malformed ones included), its maps have each key once,
  every shard is stored under its own identifier, every topology and address fits the wire
  format it has to be written in, and the global epoch bounds the epoch of every shard.\<close>

theorem meta_state_well_formed:
  assumes "meta_reach s"
  shows "distinct (map fst (tp_Shards (ms_topology s))) \<and> distinct (map fst (ms_grpcAddrs s)) \<and>
    (\<forall>i t. map_of (tp_Shards (ms_topology s)) i = Some t \<longrightarrow>
       t_ShardID t = i \<and> topology_fits t \<and> t_Epoch t \<le> tp_Epoch (ms_topology s)) \<and>
    (\<forall>i addr. map_of (ms_grpcAddrs s) i = Some addr \<longrightarrow> length addr < 65536)"
  using meta_reach_inv[OF assms] by (auto simp: meta_inv_def list_all_iff dest!: map_of_SomeD)

theorem meta_state_well_formed_witness:
  "distinct (map fst (ms_grpcAddrs (fst (MetadataSM_Update NewMetadataStateMachine [1, 0, 0, 0, 0, 0, 0, 0, 7, 0, 1, 97])))) \<and>
    map_of (ms_grpcAddrs (fst (MetadataSM_Update NewMetadataStateMachine [1, 0, 0, 0, 0, 0, 0, 0, 7, 0, 1, 97]))) 7 = Some ''a''"
proof -
  let ?s = "fst (MetadataSM_Update NewMetadataStateMachine [1, 0, 0, 0, 0, 0, 0, 0, 7, 0, 1, 97])"
  have "map_of (ms_grpcAddrs ?s) 7 = Some ''a''" by code_simp
  moreover have "meta_reach ?s" by (rule meta_reach.update[OF meta_reach.init])
  from meta_state_well_formed[OF this] have "distinct (map fst (ms_grpcAddrs ?s))" by blast
  ultimately show ?thesis by blast
qed

lemma framed_Cons: "framed (cmd # cmds) = be_put 4 (of_nat (length cmd) :: u32) @ cmd @ framed cmds"
  by (simp add: framed_def)

lemma save_cmds_framed:
  "(\<And>x. f x = Ret (Inr (g x))) \<Longrightarrow> save_cmds append_writer w (map f xs) = Ret (w @ framed (map g xs), None)"
  by (induction xs arbitrary: w) (simp_all add: framed_def save_cmd_def writeUint32_def)

lemma readUint32_put: "readUint32 (be_put 4 v @ r) = Inr (v, r)"
proof -
  have "io_ReadFull (be_put 4 v @ r) 4 = Inr (be_put 4 v, r)" by (rule io_ReadFull_append) simp
  then show ?thesis by (simp add: readUint32_def)
qed

lemma recover_addrs_framed:
  "list_all (\<lambda>(i, addr). length addr < 65536) m \<Longrightarrow>
    recover_addrs (length m) (framed (map (\<lambda>(i, addr). wire_register i addr) m) @ r) s =
    (s\<lparr>ms_grpcAddrs := copy_map (ms_grpcAddrs s) m\<rparr>, Inr r)"
proof (induction m arbitrary: s)
  case (Cons ia m)
  obtain i addr where ia: "ia = (i, addr)" by fastforce
  have "length (wire_register i addr) < 2 ^ 32" using Cons.prems ia by (simp add: wire_register_def)
  moreover have "UnmarshalRegisterNodeAddrCmd (wire_register i addr) = Inr (i, addr)"
    using UnmarshalRegisterNodeAddrCmd_wire[of addr i "[]"] Cons.prems ia by simp
  ultimately show ?case
    using Cons ia by (simp add: framed_Cons readUint32_put unat_length_word io_ReadFull_append copy_map_def)
qed (simp add: framed_def copy_map_def)

lemma recover_shards_framed:
  "list_all (\<lambda>t. topology_fits t \<and> length (wire_topology t) < 2 ^ 32) ts \<Longrightarrow>
    recover_shards (length ts) (framed (map wire_topology ts) @ r) s =
    (s\<lparr>ms_topology := foldl put_topology (ms_topology s) ts\<rparr>, Inr r)"
proof (induction ts arbitrary: s)
  case (Cons t ts)
  have "UnmarshalUpdateTopologyCmd (wire_topology t) = Inr t"
    using UnmarshalUpdateTopologyCmd_wire[of t "[]"] Cons.prems by simp
  with Cons show ?case by (simp add: framed_Cons readUint32_put unat_length_word io_ReadFull_append)
qed (simp add: framed_def)

lemma put_topologies:
  "tp_Shards (foldl put_topology s ts) = copy_map (tp_Shards s) (map (\<lambda>t. (t_ShardID t, t)) ts)"
  "tp_Epoch (foldl put_topology s ts) = fold max (map t_Epoch ts) (tp_Epoch s)"
  by (induction ts arbitrary: s) (auto simp: copy_map_def put_topology_def Let_def max_def)

lemma length_wire_topology_reorder:
  "\<forall>n. range_order (order n) \<Longrightarrow> length (wire_topology (reorder order t)) = length (wire_topology t)"
  by (simp add: wire_topology_def reorder_def length_wire_node_map node_map_size_order)

lemma meta_invD:
  assumes "meta_inv s"
  shows "distinct (map fst (tp_Shards (ms_topology s)))" and "distinct (map fst (ms_grpcAddrs s))"
    and "(i, t) \<in> set (tp_Shards (ms_topology s)) \<Longrightarrow> t_ShardID t = i \<and> topology_fits t \<and> t_Epoch t \<le> tp_Epoch (ms_topology s)"
    and "list_all (\<lambda>(i, addr). length addr < 65536) (ms_grpcAddrs s)"
  using assms by (auto simp: meta_inv_def list_all_iff)

lemma meta_snapshot_bytes:
  assumes "\<forall>n. range_order (order n)"
  shows "MetadataSM_SaveSnapshot order gorder sorder s append_writer w =
    Ret (w @ be_put 4 (of_nat (length (ms_grpcAddrs s)) :: u32) @ framed (map (\<lambda>(i, addr). wire_register i addr) (gorder (ms_grpcAddrs s))) @
      be_put 4 (of_nat (length (tp_Shards (ms_topology s))) :: u32) @
      framed (map (\<lambda>(i, t). wire_topology (reorder order t)) (sorder (tp_Shards (ms_topology s)))), None)"
proof -
  have addrs: "save_cmds append_writer v (map (\<lambda>(i, addr). MarshalRegisterNodeAddrCmd i addr) xs) =
      Ret (v @ framed (map (\<lambda>(i, addr). wire_register i addr) xs), None)" for v xs
    by (rule save_cmds_framed) (simp add: MarshalRegisterNodeAddrCmd_wire split_def)
  have shards: "save_cmds append_writer v (map (\<lambda>(i, t). MarshalUpdateTopologyCmd order t) xs) =
      Ret (v @ framed (map (\<lambda>(i, t). wire_topology (reorder order t)) xs), None)" for v and xs :: "(u64 \<times> ShardTopology) list"
    by (rule save_cmds_framed) (use assms in \<open>simp add: MarshalUpdateTopologyCmd_wire split_def\<close>)
  show ?thesis by (simp add: MetadataSM_SaveSnapshot_def writeUint32_def addrs shards)
qed

lemma recover_saved:
  assumes inv: "meta_inv s" and fits: "snapshot_fits s"
    and ord: "\<forall>n. range_order (order n)" "range_order gorder" "range_order sorder"
    and w: "MetadataSM_SaveSnapshot order gorder sorder s append_writer [] = Ret (w, None)"
  shows "MetadataSM_RecoverFromSnapshot s0 (w @ r) =
    (\<lparr>ms_topology = \<lparr>tp_Shards = map (\<lambda>(i, t). (i, reorder order t)) (sorder (tp_Shards (ms_topology s))),
        tp_Epoch = Max (insert 0 (t_Epoch ` snd ` set (tp_Shards (ms_topology s))))\<rparr>,
      ms_grpcAddrs = gorder (ms_grpcAddrs s)\<rparr>, None)"
proof -
  note D = meta_invD[OF inv]
  let ?sh = "tp_Shards (ms_topology s)" and ?ts = "map (\<lambda>(i :: u64, t). reorder order t) (sorder (tp_Shards (ms_topology s)))"
  have gfit: "list_all (\<lambda>(i, addr). length addr < 65536) (gorder (ms_grpcAddrs s))"
    using D(4) range_orderD(1)[OF ord(2)] by (simp add: list_all_iff)
  have sfit: "list_all (\<lambda>t. topology_fits t \<and> length (wire_topology t) < 2 ^ 32) ?ts"
    using fits D(3) range_orderD(1)[OF ord(3)] topology_fits_reorder[of order] length_wire_topology_reorder[OF ord(1)] ord(1)
    by (fastforce simp: list_all_iff snapshot_fits_def)
  have keys: "map (\<lambda>t. (t_ShardID t, t)) ?ts = map (\<lambda>(i, t). (i, reorder order t)) (sorder ?sh)"
    using D(3) range_orderD(1)[OF ord(3)] by (auto simp: reorder_def)
  have "map fst (map (\<lambda>(i, t). (i, reorder order t)) (sorder ?sh)) = map fst (sorder ?sh)" by (simp add: split_def)
  then have "distinct (map fst ([] @ map (\<lambda>(i, t). (i, reorder order t)) (sorder ?sh)))"
    using D(1) range_orderD(5)[OF ord(3), of fst ?sh] by (simp only: append_Nil)
  then have shards: "copy_map [] (map (\<lambda>t. (t_ShardID t, t)) ?ts) = map (\<lambda>(i, t). (i, reorder order t)) (sorder ?sh)"
    unfolding keys by (subst copy_map_append) simp_all
  have addrs: "copy_map [] (gorder (ms_grpcAddrs s)) = gorder (ms_grpcAddrs s)"
    using D(2) range_orderD(5)[OF ord(2), of fst "ms_grpcAddrs s"] by (subst copy_map_append) simp_all
  have "set (map t_Epoch ?ts) = t_Epoch ` snd ` set ?sh"
    using range_orderD(1)[OF ord(3)] by (force simp: reorder_def)
  then have epoch: "fold max (map t_Epoch ?ts) 0 = Max (insert 0 (t_Epoch ` snd ` set ?sh))"
    using Max.set_eq_fold[of 0 "map t_Epoch ?ts"] by simp
  have w': "w = be_put 4 (of_nat (length (ms_grpcAddrs s)) :: u32) @
      framed (map (\<lambda>(i, addr). wire_register i addr) (gorder (ms_grpcAddrs s))) @
      be_put 4 (of_nat (length ?sh) :: u32) @ framed (map wire_topology ?ts)"
    using w meta_snapshot_bytes[OF ord(1), of gorder sorder s "[]"] by (simp add: comp_def split_def)
  have n: "unat (of_nat (length (ms_grpcAddrs s)) :: u32) = length (gorder (ms_grpcAddrs s))"
      "unat (of_nat (length ?sh) :: u32) = length ?ts"
    using fits by (simp_all add: snapshot_fits_def unat_length_word range_orderD(2) ord)
  have topo: "foldl put_topology \<lparr>tp_Shards = [], tp_Epoch = 0\<rparr> ?ts =
      \<lparr>tp_Shards = map (\<lambda>(i, t). (i, reorder order t)) (sorder ?sh), tp_Epoch = Max (insert 0 (t_Epoch ` snd ` set ?sh))\<rparr>"
    by (rule TopologySnapshot.equality) (use shards epoch in \<open>simp_all only: put_topologies TopologySnapshot.simps unit_eq\<close>)
  show ?thesis
    by (simp only: MetadataSM_RecoverFromSnapshot_def Let_def w' append_assoc readUint32_put sum.case prod.case n
        recover_addrs_framed[OF gfit] recover_shards_framed[OF sfit])
      (simp add: NewMetadataStateMachine_def addrs topo)
qed


section \<open>Reading\<close>

lemma copy_map_order: "range_order order \<Longrightarrow> distinct (map fst m) \<Longrightarrow> copy_map [] (order m) = order m"
  using range_orderD(5)[of order fst m] by (subst copy_map_append) simp_all

lemma copyShardTopology_reorder:
  assumes "\<forall>n. range_order (order n)" and "topology_fits t"
  shows "copyShardTopology order t = reorder order t"
  using assms by (simp add: copyShardTopology_def reorder_def topology_fits_def node_map_fits_def copy_map_order)

lemma GetShardTopology_reorder:
  assumes "\<forall>n. range_order (order n)" and "meta_inv s"
  shows "GetShardTopology order s i = map_option (reorder order) (map_of (tp_Shards (ms_topology s)) i)"
  using assms meta_invD(3)[OF assms(2)] map_of_SomeD[of "tp_Shards (ms_topology s)" i]
  by (auto simp: GetShardTopology_def copyShardTopology_reorder split: option.split)

lemma Update_topology:
  assumes ord: "\<forall>n. range_order (order n)" and fits: "topology_fits t"
    and cmd: "MarshalUpdateTopologyCmd order t = Ret (Inr cmd)"
  shows "MetadataSM_Update s cmd = (s\<lparr>ms_topology := put_topology (ms_topology s) (reorder order t)\<rparr>, 1)"
proof -
  have c: "cmd = wire_topology (reorder order t)" using cmd MarshalUpdateTopologyCmd_wire[of order t] ord by simp
  then have "UnmarshalUpdateTopologyCmd cmd = Inr (reorder order t)"
    using UnmarshalUpdateTopologyCmd_wire[of "reorder order t" "[]"] topology_fits_reorder[of order t] ord fits by simp
  moreover have "cmd \<noteq> []" "cmd ! 0 = UpdateTopologyCmd" by (simp_all add: c wire_topology_def)
  ultimately show ?thesis by (simp add: MetadataSM_Update_def)
qed

lemma reorder_fields: "t_ShardID (reorder order t) = t_ShardID t" "t_Epoch (reorder order t) = t_Epoch t"
  by (simp_all add: reorder_def)

lemma same_topology_reorder2:
  assumes "\<forall>n. range_order (order n)" "\<forall>n. range_order (order' n)" and "topology_fits t"
  shows "same_topology (reorder order' (reorder order t)) t"
proof -
  have "topology_fits (reorder order t)" using topology_fits_reorder[of order t] assms by simp
  then show ?thesis
    using same_topology_reorder[of order' "reorder order t"] same_topology_reorder[of order t] assms
    by (simp add: same_topology_def)
qed

section \<open>Properties\<close>

text \<open>After an applied topology, a query of the shard gives it and the others are as before.\<close>

lemma topology_update_get:
  assumes "meta_inv s" and "\<forall>n. range_order (order n)" and "\<forall>n. range_order (order' n)" and "topology_fits t"
    and "MarshalUpdateTopologyCmd order t = Ret (Inr cmd)"
  shows "\<exists>t'. GetShardTopology order' (fst (MetadataSM_Update s cmd)) (t_ShardID t) = Some t' \<and> same_topology t' t"
    and "i \<noteq> t_ShardID t \<Longrightarrow> GetShardTopology order' (fst (MetadataSM_Update s cmd)) i = GetShardTopology order' s i"
proof -
  let ?s = "fst (MetadataSM_Update s cmd)"
  have s': "?s = s\<lparr>ms_topology := put_topology (ms_topology s) (reorder order t)\<rparr>"
    using Update_topology[OF assms(2,4,5), of s] by simp
  then have shards: "map_of (tp_Shards (ms_topology ?s)) = (map_of (tp_Shards (ms_topology s)))(t_ShardID t \<mapsto> reorder order t)"
    by (simp add: put_topology_def Let_def update_conv' reorder_fields)
  then show "\<exists>t'. GetShardTopology order' ?s (t_ShardID t) = Some t' \<and> same_topology t' t"
    using same_topology_reorder2[OF assms(2-4)] by (simp add: GetShardTopology_reorder[OF assms(3) update_inv[OF assms(1)]])
  show "i \<noteq> t_ShardID t \<Longrightarrow> GetShardTopology order' ?s i = GetShardTopology order' s i"
    using shards by (simp add: GetShardTopology_def)
qed

text \<open>A topology that has been applied is what readers see: after the command for a shard,
  \<open>GetShardTopology\<close> and \<open>Lookup\<close> answer with that topology, the other
  shards are as before, and the global epoch is the larger of its old value and the
  topology's, whatever the iteration orders of the maps.\<close>

theorem topology_update_visible:
  assumes "meta_reach s" and "\<forall>n. range_order (order n)" and "\<forall>n. range_order (order' n)" and "topology_fits t"
    and "MarshalUpdateTopologyCmd order t = Ret (Inr cmd)" and "MetadataSM_Update s cmd = (s', v)"
  shows "v = 1 \<and> (\<exists>t'. GetShardTopology order' s' (t_ShardID t) = Some t' \<and> same_topology t' t \<and>
      MetadataSM_Lookup order' sorder s' (QUint64 (t_ShardID t)) = AShard t') \<and>
    (\<forall>i. i \<noteq> t_ShardID t \<longrightarrow> GetShardTopology order' s' i = GetShardTopology order' s i) \<and>
    tp_Epoch (GetTopology order' sorder s') = max (t_Epoch t) (tp_Epoch (GetTopology order' sorder s))"
proof -
  have s': "s' = s\<lparr>ms_topology := put_topology (ms_topology s) (reorder order t)\<rparr>" "v = 1"
    using Update_topology[OF assms(2,4,5), of s] assms(6) by simp_all
  have u: "fst (MetadataSM_Update s cmd) = s'" using assms(6) by simp
  note get = topology_update_get[OF meta_reach_inv[OF assms(1)] assms(2-5), unfolded u]
  obtain t' where t': "GetShardTopology order' s' (t_ShardID t) = Some t'" "same_topology t' t" using get(1) by blast
  then have "MetadataSM_Lookup order' sorder s' (QUint64 (t_ShardID t)) = AShard t'"
    by (auto simp: MetadataSM_Lookup_def GetShardTopology_def split: option.splits)
  moreover have "tp_Epoch (GetTopology order' sorder s') = max (t_Epoch t) (tp_Epoch (GetTopology order' sorder s))"
    by (auto simp: GetTopology_def copyTopology_def s' put_topology_def Let_def reorder_fields max_def)
  ultimately show ?thesis using get(2) s'(2) t' by blast
qed

lemma sample_topology_fits: "topology_fits (sample_topology e)" "length (wire_topology (sample_topology e)) < 2 ^ 32"
  by (simp_all add: sample_topology_def topology_fits_def node_map_fits_def wire_topology_def wire_node_map_def)

lemma sample_fields [simp]: "t_ShardID (sample_topology e) = 1" "t_Epoch (sample_topology e) = e"
  by (simp_all add: sample_topology_def)

lemma sample_marshal: "MarshalUpdateTopologyCmd (\<lambda>_. id) (sample_topology e) = Ret (Inr (wire_topology (sample_topology e)))"
  using MarshalUpdateTopologyCmd_wire[of "\<lambda>_. id" "sample_topology e"] by (simp add: reorder_def)

theorem topology_update_visible_witness:
  "\<exists>s'. MetadataSM_Update NewMetadataStateMachine (wire_topology (sample_topology 7)) = (s', 1) \<and>
    (\<exists>t'. GetShardTopology (\<lambda>_. rev) s' 1 = Some t' \<and> same_topology t' (sample_topology 7))"
proof -
  obtain s' v where s': "MetadataSM_Update NewMetadataStateMachine (wire_topology (sample_topology 7)) = (s', v)" by fastforce
  have "\<forall>n :: nat. range_order ((\<lambda>_. rev :: node_map \<Rightarrow> node_map) n)" by (simp add: range_order_def)
  from topology_update_visible[OF meta_reach.init _ this sample_topology_fits(1) sample_marshal s', of id] s' show ?thesis
    by (auto simp: sample_topology_def)
qed

text \<open>A snapshot of the metadata shard restores the whole topology: for every reachable state
  whose sizes fit, saving succeeds and recovery rebuilds the same address registry and, for
  every shard, the same topology, whatever was in the recovering machine and whatever the
  iteration orders; the global epoch comes back as the largest epoch of the stored shards.\<close>

theorem meta_snapshot_roundtrip:
  assumes "meta_reach s" and "snapshot_fits s"
    and "\<forall>n. range_order (order n)" and "range_order gorder" and "range_order sorder"
  shows "\<exists>w s'. MetadataSM_SaveSnapshot order gorder sorder s append_writer [] = Ret (w, None) \<and>
    MetadataSM_RecoverFromSnapshot s0 w = (s', None) \<and> map_of (ms_grpcAddrs s') = map_of (ms_grpcAddrs s) \<and>
    (\<forall>i. rel_option same_topology (map_of (tp_Shards (ms_topology s')) i) (map_of (tp_Shards (ms_topology s)) i)) \<and>
    tp_Epoch (ms_topology s') = Max (insert 0 (t_Epoch ` snd ` set (tp_Shards (ms_topology s)))) \<and>
    tp_Epoch (ms_topology s') \<le> tp_Epoch (ms_topology s)"
proof -
  have inv: "meta_inv s" by (rule meta_reach_inv[OF assms(1)])
  note D = meta_invD[OF inv]
  let ?sh = "tp_Shards (ms_topology s)"
  obtain w where w: "MetadataSM_SaveSnapshot order gorder sorder s append_writer [] = Ret (w, None)"
    using meta_snapshot_bytes[OF assms(3)] by blast
  note R = recover_saved[OF inv assms(2-5) w, of s0 "[]", simplified]
  have "map_of (map (\<lambda>(i, t). (i, reorder order t)) (sorder ?sh)) i = map_option (reorder order) (map_of ?sh i)" for i
    using range_order_map_of[OF assms(5) D(1)] by (simp add: map_of_map)
  moreover have "same_topology (reorder order t) t" if "map_of ?sh i = Some t" for i t
    using same_topology_reorder[of order t] assms(3) D(3)[OF map_of_SomeD[OF that]] by blast
  ultimately have shards: "rel_option same_topology (map_of (map (\<lambda>(i, t). (i, reorder order t)) (sorder ?sh)) i) (map_of ?sh i)" for i
    by (cases "map_of ?sh i") simp_all
  have "Max (insert 0 (t_Epoch ` snd ` set ?sh)) \<le> tp_Epoch (ms_topology s)"
    using D(3) by (subst Max_le_iff) auto
  then show ?thesis
    using w R shards range_order_map_of[OF assms(4) D(2)] by simp
qed

lemma sample_update: "MetadataSM_Update s (wire_topology (sample_topology e)) =
    (s\<lparr>ms_topology := put_topology (ms_topology s) (sample_topology e)\<rparr>, 1)"
  using Update_topology[OF _ sample_topology_fits(1) sample_marshal, of s e] by (simp add: reorder_def)

theorem meta_snapshot_roundtrip_witness:
  "\<exists>w s'. MetadataSM_SaveSnapshot (\<lambda>_. id) id id (fst (MetadataSM_Update NewMetadataStateMachine (wire_topology (sample_topology 7))))
      append_writer [] = Ret (w, None) \<and>
    MetadataSM_RecoverFromSnapshot NewMetadataStateMachine w = (s', None) \<and> tp_Epoch (ms_topology s') = 7"
proof -
  let ?s = "fst (MetadataSM_Update NewMetadataStateMachine (wire_topology (sample_topology 7)))"
  have s: "?s = \<lparr>ms_topology = \<lparr>tp_Shards = [(1, sample_topology 7)], tp_Epoch = 7\<rparr>, ms_grpcAddrs = []\<rparr>"
    unfolding sample_update by (simp add: NewMetadataStateMachine_def put_topology_def)
  have "meta_reach ?s" by (rule meta_reach.update[OF meta_reach.init])
  moreover have "snapshot_fits ?s" using sample_topology_fits by (simp add: s snapshot_fits_def)
  ultimately show ?thesis
    using meta_snapshot_roundtrip[of ?s "\<lambda>_. id" id id NewMetadataStateMachine] by (auto simp: s)
qed

text \<open>The global epoch does not survive a snapshot: when a shard's topology has been replaced by
  one with a smaller epoch, as happens after the publishing service restarts, a replica that
  recovers from a snapshot reports the smaller epoch while the replicas that applied the log
  report the larger one.\<close>

theorem snapshot_loses_epoch:
  assumes "\<forall>n. range_order (order n)" and "topology_fits t1" and "topology_fits t2" and "t_ShardID t1 = t_ShardID t2"
    and "t_Epoch t2 < t_Epoch t1" and "length (wire_topology t2) < 2 ^ 32"
    and "MarshalUpdateTopologyCmd order t1 = Ret (Inr cmd1)" and "MarshalUpdateTopologyCmd order t2 = Ret (Inr cmd2)"
    and "s = fst (MetadataSM_Update (fst (MetadataSM_Update NewMetadataStateMachine cmd1)) cmd2)"
  shows "tp_Epoch (ms_topology s) = t_Epoch t1 \<and>
    (\<exists>w s'. MetadataSM_SaveSnapshot order id id s append_writer [] = Ret (w, None) \<and>
      MetadataSM_RecoverFromSnapshot NewMetadataStateMachine w = (s', None) \<and> tp_Epoch (ms_topology s') = t_Epoch t2)"
proof -
  have s: "s = \<lparr>ms_topology = \<lparr>tp_Shards = [(t_ShardID t2, reorder order t2)], tp_Epoch = t_Epoch t1\<rparr>, ms_grpcAddrs = []\<rparr>"
    using assms(4,5) le_less_trans[OF word_zero_le assms(5)] unfolding assms(9) Update_topology[OF assms(1,2,7)] Update_topology[OF assms(1,3,8)] fst_conv
    by (auto simp: NewMetadataStateMachine_def put_topology_def Let_def reorder_fields)
  have inv: "meta_inv s" unfolding assms(9) by (intro update_inv meta_inv_new)
  have fits: "snapshot_fits s" using assms(1,6) by (simp add: s snapshot_fits_def length_wire_topology_reorder)
  obtain w where w: "MetadataSM_SaveSnapshot order id id s append_writer [] = Ret (w, None)"
    using meta_snapshot_bytes[OF assms(1)] by blast
  have "Max (insert 0 (t_Epoch ` snd ` set (tp_Shards (ms_topology s)))) = t_Epoch t2" by (simp add: s reorder_fields)
  with recover_saved[OF inv fits assms(1) id_order(1) id_order(1) w, of NewMetadataStateMachine "[]"] w show ?thesis
    by (simp add: s)
qed

theorem snapshot_loses_epoch_witness:
  "let s = fst (MetadataSM_Update (fst (MetadataSM_Update NewMetadataStateMachine (wire_topology (sample_topology 7)))) (wire_topology (sample_topology 1)))
   in tp_Epoch (ms_topology s) = 7 \<and>
    (\<exists>w s'. MetadataSM_SaveSnapshot (\<lambda>_. id) id id s append_writer [] = Ret (w, None) \<and>
      MetadataSM_RecoverFromSnapshot NewMetadataStateMachine w = (s', None) \<and> tp_Epoch (ms_topology s') = 1)"
  using snapshot_loses_epoch[OF _ sample_topology_fits(1) sample_topology_fits(1) _ _ sample_topology_fits(2) sample_marshal sample_marshal refl, of 7 1]
  unfolding Let_def by simp

end
