(* ===== verification/NodeHost.thy ===== *)
theory NodeHost
  imports MetaSM
begin

text \<open>
  What the sources call of the consensus library Dragonboat, which is not part of the
  repository: the record \<open>NodeHost\<close> has one function per call, on a state
  \<open>'w\<close> of the cluster, and the contracts state the documented behaviour the
  properties rely on. The in-memory cluster at the end is one concrete instance: two groups
  whose membership changes succeed, and a metadata replica that applies every proposal.
\<close>

section \<open>Definitions\<close>

record Membership =
  mb_ConfigChangeID :: u64
  mb_Nodes :: node_map
  mb_NonVotings :: node_map
  mb_Witnesses :: node_map

record 'w NodeHost =
  nh_SyncGetShardMembership :: "'w \<Rightarrow> u64 \<Rightarrow> goerror + Membership"
  nh_GetLeaderID :: "'w \<Rightarrow> u64 \<Rightarrow> goerror + u64 \<times> u64 \<times> bool"
  nh_SyncRequestAddNonVoting :: "'w \<Rightarrow> u64 \<Rightarrow> u64 \<Rightarrow> string \<Rightarrow> u64 \<Rightarrow> 'w \<times> goerror option"
  nh_SyncRequestAddReplica :: "'w \<Rightarrow> u64 \<Rightarrow> u64 \<Rightarrow> string \<Rightarrow> u64 \<Rightarrow> 'w \<times> goerror option"
  nh_SyncRequestDeleteReplica :: "'w \<Rightarrow> u64 \<Rightarrow> u64 \<Rightarrow> u64 \<Rightarrow> 'w \<times> goerror option"
  nh_SyncPropose :: "'w \<Rightarrow> u64 \<Rightarrow> bytes \<Rightarrow> 'w \<times> goerror option"
  nh_Propose :: "'w \<Rightarrow> u64 \<Rightarrow> bytes \<Rightarrow> 'w \<times> goerror option"

text \<open>
  Membership changes: a reported success has taken effect for the shard and the node it names,
  an error leaves that shard's membership as it was or with the change; the other shards keep
  theirs. \<open>members w shard\<close> is the membership a shard has.
\<close>

definition with_nonvoting :: "u64 \<Rightarrow> string \<Rightarrow> Membership \<Rightarrow> Membership" where
  "with_nonvoting node addr m = m\<lparr>mb_NonVotings := AList.update node addr (mb_NonVotings m)\<rparr>"

definition with_replica :: "u64 \<Rightarrow> string \<Rightarrow> Membership \<Rightarrow> Membership" where
  "with_replica node addr m = m\<lparr>mb_Nodes := AList.update node addr (mb_Nodes m), mb_NonVotings := AList.delete node (mb_NonVotings m)\<rparr>"

definition without_replica :: "u64 \<Rightarrow> Membership \<Rightarrow> Membership" where
  "without_replica node m = m\<lparr>mb_Nodes := AList.delete node (mb_Nodes m), mb_NonVotings := AList.delete node (mb_NonVotings m),
     mb_Witnesses := AList.delete node (mb_Witnesses m)\<rparr>"

definition same_members :: "Membership \<Rightarrow> Membership \<Rightarrow> bool" where
  "same_members m m' \<longleftrightarrow> map_of (mb_Nodes m) = map_of (mb_Nodes m') \<and> map_of (mb_NonVotings m) = map_of (mb_NonVotings m') \<and>
    map_of (mb_Witnesses m) = map_of (mb_Witnesses m')"

definition changes :: "('w \<Rightarrow> u64 \<Rightarrow> Membership) \<Rightarrow> u64 \<Rightarrow> (Membership \<Rightarrow> Membership) \<Rightarrow> 'w \<Rightarrow> 'w \<times> goerror option \<Rightarrow> bool" where
  "changes members shard f w r \<longleftrightarrow>
    (case r of (w', e) \<Rightarrow> (\<forall>sh. sh \<noteq> shard \<longrightarrow> same_members (members w' sh) (members w sh)) \<and>
      (same_members (members w' shard) (f (members w shard)) \<or> e \<noteq> None \<and> same_members (members w' shard) (members w shard)))"

definition membership_contract :: "'w NodeHost \<Rightarrow> ('w \<Rightarrow> u64 \<Rightarrow> Membership) \<Rightarrow> bool" where
  "membership_contract nh members \<longleftrightarrow>
    (\<forall>w shard m. nh_SyncGetShardMembership nh w shard = Inr m \<longrightarrow> same_members m (members w shard)) \<and>
    (\<forall>w shard node addr cc. changes members shard (with_nonvoting node addr) w (nh_SyncRequestAddNonVoting nh w shard node addr cc)) \<and>
    (\<forall>w shard node addr cc. changes members shard (with_replica node addr) w (nh_SyncRequestAddReplica nh w shard node addr cc)) \<and>
    (\<forall>w shard node cc. changes members shard (without_replica node) w (nh_SyncRequestDeleteReplica nh w shard node cc))"

text \<open>
  Proposals to the metadata group: a reported success has been applied by the local replica
  \<open>meta w\<close>; after an error the command has been applied or not.
\<close>

definition meta_proposes :: "('w \<Rightarrow> MetadataStateMachine) \<Rightarrow> ('w \<Rightarrow> bytes \<Rightarrow> 'w \<times> goerror option) \<Rightarrow> bool" where
  "meta_proposes meta propose \<longleftrightarrow>
    (\<forall>w cmd w' e. propose w cmd = (w', e) \<longrightarrow>
      meta w' = fst (MetadataSM_Update (meta w) cmd) \<or> e \<noteq> None \<and> meta w' = meta w)"

text \<open>A concrete cluster: members of every shard, the leader of all of them, the metadata replica.\<close>

record MemCluster =
  mc_members :: "(u64 \<times> Membership) list"
  mc_leader :: "u64 \<times> u64"
  mc_meta :: MetadataStateMachine

definition no_members :: Membership where
  "no_members = \<lparr>mb_ConfigChangeID = 0, mb_Nodes = [], mb_NonVotings = [], mb_Witnesses = []\<rparr>"

definition mem_members :: "MemCluster \<Rightarrow> u64 \<Rightarrow> Membership" where
  "mem_members w shard = map_get no_members (mc_members w) shard"

definition mem_change :: "(Membership \<Rightarrow> Membership) \<Rightarrow> MemCluster \<Rightarrow> u64 \<Rightarrow> MemCluster \<times> goerror option" where
  "mem_change f w shard = (w\<lparr>mc_members := AList.update shard (f (mem_members w shard)) (mc_members w)\<rparr>, None)"

definition mem_SyncPropose :: "MemCluster \<Rightarrow> u64 \<Rightarrow> bytes \<Rightarrow> MemCluster \<times> goerror option" where
  "mem_SyncPropose w shard cmd =
    (if shard = MetadataShardID then (w\<lparr>mc_meta := fst (MetadataSM_Update (mc_meta w) cmd)\<rparr>, None)
     else (w, Some ContextDeadlineExceeded))"

definition mem_nodehost :: "MemCluster NodeHost" where
  "mem_nodehost = \<lparr>
     nh_SyncGetShardMembership = (\<lambda>w shard. Inr (mem_members w shard)),
     nh_GetLeaderID = (\<lambda>w shard. Inr (fst (mc_leader w), snd (mc_leader w), True)),
     nh_SyncRequestAddNonVoting = (\<lambda>w shard node addr cc. mem_change (with_nonvoting node addr) w shard),
     nh_SyncRequestAddReplica = (\<lambda>w shard node addr cc. mem_change (with_replica node addr) w shard),
     nh_SyncRequestDeleteReplica = (\<lambda>w shard node cc. mem_change (without_replica node) w shard),
     nh_SyncPropose = mem_SyncPropose, nh_Propose = mem_SyncPropose\<rparr>"

definition sample_cluster :: MemCluster where
  "sample_cluster = \<lparr>mc_members = [(0, no_members\<lparr>mb_Nodes := [(1, ''x'')]\<rparr>), (1, no_members\<lparr>mb_Nodes := [(1, ''x''), (2, ''y'')]\<rparr>)],
     mc_leader = (2, 3), mc_meta = fst (MetadataSM_Update NewMetadataStateMachine (wire_register 2 ''b''))\<rparr>"

section \<open>Lemmas\<close>

lemma same_members_refl [simp]: "same_members m m"
  by (simp add: same_members_def)

lemma same_members_trans: "same_members a b \<Longrightarrow> same_members b c \<Longrightarrow> same_members a c"
  by (simp add: same_members_def)

lemma same_members_ops:
  assumes "same_members a b"
  shows "same_members (with_nonvoting i addr a) (with_nonvoting i addr b)"
    and "same_members (with_replica i addr a) (with_replica i addr b)"
    and "same_members (without_replica i a) (without_replica i b)"
  using assms by (simp_all add: same_members_def with_nonvoting_def with_replica_def without_replica_def update_conv' delete_conv')

lemma membership_contractD:
  assumes "membership_contract nh members"
  shows "nh_SyncGetShardMembership nh w shard = Inr m \<Longrightarrow> same_members m (members w shard)"
    and "nh_SyncRequestAddNonVoting nh w shard node addr cc = r \<Longrightarrow> changes members shard (with_nonvoting node addr) w r"
    and "nh_SyncRequestAddReplica nh w shard node addr cc = r \<Longrightarrow> changes members shard (with_replica node addr) w r"
    and "nh_SyncRequestDeleteReplica nh w shard node cc = r \<Longrightarrow> changes members shard (without_replica node) w r"
  using assms by (auto simp: membership_contract_def)

lemma changesD:
  assumes "changes members shard f w (w', None)"
  shows "same_members (members w' shard) (f (members w shard))"
    and "sh \<noteq> shard \<Longrightarrow> same_members (members w' sh) (members w sh)"
  using assms by (simp_all add: changes_def)

lemma mem_changes: "changes mem_members shard f w (mem_change f w shard)"
  by (simp add: changes_def mem_change_def mem_members_def map_get_update)

lemma mem_nodehost_contract: "membership_contract mem_nodehost mem_members"
  by (simp add: membership_contract_def mem_nodehost_def mem_changes)

lemma mem_meta_proposes: "meta_proposes mc_meta (\<lambda>w. mem_SyncPropose w MetadataShardID)"
  by (simp add: meta_proposes_def mem_SyncPropose_def)

end
