(* ===== verification/MetaService.thy ===== *)
theory MetaService
  imports NodeHost
begin

text \<open>
  The metadata service, \<open>src/pkg/raft/metadata/service.go\<close>: it listens to leader and
  membership events and proposes the topology of the shard they name to the metadata group.
  The node host, the propose function and the address source are the fields the Go struct
  has; an operation takes the service and the cluster's state and returns both. The two
  critical sections of a publication are taken as one step.

  The lemmas give the command a publication proposes; the properties are what readers of the
  metadata replica see after an event, and what becomes of the epoch when a node restarts.
\<close>

section \<open>Definitions\<close>

record 'w Service =
  svc_nh :: "'w NodeHost option"
  svc_propose :: "'w \<Rightarrow> bytes \<Rightarrow> 'w \<times> goerror option"
  svc_getGrpcAddrs :: "('w \<Rightarrow> node_map) option"
  svc_epoch :: u64
  svc_shards :: "(u64 \<times> unit) list"

definition NewService :: "'w NodeHost option \<Rightarrow> ('w \<Rightarrow> bytes \<Rightarrow> 'w \<times> goerror option) \<Rightarrow> 'w Service" where
  "NewService nh propose = \<lparr>svc_nh = nh, svc_propose = propose, svc_getGrpcAddrs = None, svc_epoch = 0, svc_shards = []\<rparr>"

definition SetNodeHost :: "'w Service \<Rightarrow> 'w NodeHost \<Rightarrow> 'w Service" where
  "SetNodeHost s nh = s\<lparr>svc_nh := Some nh\<rparr>"

definition SetGrpcAddrsSource :: "'w Service \<Rightarrow> ('w \<Rightarrow> node_map) \<Rightarrow> 'w Service" where
  "SetGrpcAddrsSource s fn = s\<lparr>svc_getGrpcAddrs := Some fn\<rparr>"

definition RegisterNodeAddr :: "'w Service \<Rightarrow> 'w \<Rightarrow> u64 \<Rightarrow> string \<Rightarrow> ('w \<times> goerror option) go" where
  "RegisterNodeAddr s w nodeID grpcAddr =
    bind_go (MarshalRegisterNodeAddrCmd nodeID grpcAddr) (\<lambda>r. case r of
      Inl err \<Rightarrow> Ret (w, Some err)
    | Inr cmd \<Rightarrow> Ret (svc_propose s w cmd))"

text \<open>
  \<open>publishTopology\<close>. \<open>order\<close> ranges over the four maps of the topology and
  \<open>aorder\<close> over the address registry. Without a node host the first call dereferences
  a nil pointer. Errors are logged only.
\<close>

definition leader_info :: "'w NodeHost \<Rightarrow> 'w \<Rightarrow> u64 \<Rightarrow> u64 \<times> u64" where
  "leader_info nh w shardID =
    (case nh_GetLeaderID nh w shardID of
       Inl err \<Rightarrow> (0, 0)
     | Inr (leaderID, term, valid) \<Rightarrow> if \<not> valid then (0, 0) else (leaderID, term))"

definition publishTopology :: "(nat \<Rightarrow> node_map \<Rightarrow> node_map) \<Rightarrow> (node_map \<Rightarrow> node_map) \<Rightarrow> 'w Service \<Rightarrow> 'w \<Rightarrow> u64 \<Rightarrow> ('w Service \<times> 'w) go" where
  "publishTopology order aorder s w shardID =
    (case svc_nh s of
       None \<Rightarrow> Panic ''runtime error: invalid memory address or nil pointer dereference''
     | Some nh \<Rightarrow>
        (case nh_SyncGetShardMembership nh w shardID of
           Inl err \<Rightarrow> Ret (s, w)
         | Inr membership \<Rightarrow>
            (case leader_info nh w shardID of (leaderID, term) \<Rightarrow>
              (let grpcAddrs = (case svc_getGrpcAddrs s of None \<Rightarrow> [] | Some getAddrs \<Rightarrow> copy_map [] (aorder (getAddrs w)));
                   leaderAddr = (if leaderID > 0 then map_get '''' grpcAddrs leaderID else '''');
                   epoch = svc_epoch s + 1;
                   s1 = s\<lparr>svc_epoch := epoch\<rparr>;
                   topo = \<lparr>t_ShardID = shardID, t_LeaderID = leaderID, t_LeaderAddr = leaderAddr, t_Term = term, t_Epoch = epoch,
                     t_Nodes = mb_Nodes membership, t_NonVotings = mb_NonVotings membership, t_Witnesses = mb_Witnesses membership,
                     t_GrpcAddrs = grpcAddrs, t_ConfigChangeID = mb_ConfigChangeID membership\<rparr>
               in bind_go (MarshalUpdateTopologyCmd order topo) (\<lambda>r. case r of
                    Inl err \<Rightarrow> Ret (s1, w)
                  | Inr cmd \<Rightarrow> (case svc_propose s1 w cmd of (w', err) \<Rightarrow> Ret (s1, w')))))))"

definition track_shard :: "'w Service \<Rightarrow> u64 \<Rightarrow> 'w Service" where
  "track_shard s shardID = s\<lparr>svc_shards := AList.update shardID () (svc_shards s)\<rparr>"

definition LeaderUpdated :: "(nat \<Rightarrow> node_map \<Rightarrow> node_map) \<Rightarrow> (node_map \<Rightarrow> node_map) \<Rightarrow> 'w Service \<Rightarrow> 'w \<Rightarrow> u64 \<Rightarrow> ('w Service \<times> 'w) go" where
  "LeaderUpdated order aorder s w shardID =
    (if shardID = MetadataShardID then Ret (s, w) else publishTopology order aorder (track_shard s shardID) w shardID)"

definition MembershipChanged :: "(nat \<Rightarrow> node_map \<Rightarrow> node_map) \<Rightarrow> (node_map \<Rightarrow> node_map) \<Rightarrow> 'w Service \<Rightarrow> 'w \<Rightarrow> u64 \<Rightarrow> ('w Service \<times> 'w) go" where
  "MembershipChanged order aorder s w shardID =
    (if shardID = MetadataShardID then Ret (s, w) else publishTopology order aorder (track_shard s shardID) w shardID)"

definition NodeDeleted :: "(nat \<Rightarrow> node_map \<Rightarrow> node_map) \<Rightarrow> (node_map \<Rightarrow> node_map) \<Rightarrow> 'w Service \<Rightarrow> 'w \<Rightarrow> u64 \<Rightarrow> ('w Service \<times> 'w) go" where
  "NodeDeleted order aorder s w shardID =
    (if shardID = MetadataShardID then Ret (s, w) else publishTopology order aorder s w shardID)"

definition NodeReady :: "(nat \<Rightarrow> node_map \<Rightarrow> node_map) \<Rightarrow> (node_map \<Rightarrow> node_map) \<Rightarrow> 'w Service \<Rightarrow> 'w \<Rightarrow> u64 \<Rightarrow> ('w Service \<times> 'w) go" where
  "NodeReady order aorder s w shardID =
    (if shardID = MetadataShardID then Ret (s, w) else publishTopology order aorder (track_shard s shardID) w shardID)"

text \<open>The events the service is registered for and does nothing about.\<close>

definition ignored_event :: "'w Service \<Rightarrow> 'w \<Rightarrow> ('w Service \<times> 'w) go" where
  "ignored_event s w = Ret (s, w)"

fun refresh_loop :: "(nat \<Rightarrow> node_map \<Rightarrow> node_map) \<Rightarrow> (node_map \<Rightarrow> node_map) \<Rightarrow> 'w Service \<Rightarrow> 'w \<Rightarrow> u64 list \<Rightarrow> ('w Service \<times> 'w) go" where
  "refresh_loop order aorder s w [] = Ret (s, w)"
| "refresh_loop order aorder s w (shardID # shardIDs) =
    bind_go (publishTopology order aorder s w shardID) (\<lambda>(s', w'). refresh_loop order aorder s' w' shardIDs)"

definition RefreshAll :: "(nat \<Rightarrow> node_map \<Rightarrow> node_map) \<Rightarrow> (node_map \<Rightarrow> node_map) \<Rightarrow> ((u64 \<times> unit) list \<Rightarrow> (u64 \<times> unit) list)
    \<Rightarrow> 'w Service \<Rightarrow> 'w \<Rightarrow> ('w Service \<times> 'w) go" where
  "RefreshAll order aorder sorder s w = refresh_loop order aorder s w (map fst (sorder (svc_shards s)))"

definition RegisterShard :: "(nat \<Rightarrow> node_map \<Rightarrow> node_map) \<Rightarrow> (node_map \<Rightarrow> node_map) \<Rightarrow> 'w Service \<Rightarrow> 'w \<Rightarrow> u64 \<Rightarrow> ('w Service \<times> 'w) go" where
  "RegisterShard order aorder s w shardID = publishTopology order aorder (track_shard s shardID) w shardID"

subsection \<open>Specification\<close>

definition membership_fits :: "Membership \<Rightarrow> bool" where
  "membership_fits m \<longleftrightarrow> node_map_fits (mb_Nodes m) \<and> node_map_fits (mb_NonVotings m) \<and> node_map_fits (mb_Witnesses m)"

text \<open>The topology a publication describes: members, leader, and the address registry.\<close>

definition topology_of :: "u64 \<Rightarrow> Membership \<Rightarrow> u64 \<times> u64 \<Rightarrow> node_map \<Rightarrow> u64 \<Rightarrow> ShardTopology" where
  "topology_of shardID m leader addrs epoch =
    \<lparr>t_ShardID = shardID, t_LeaderID = fst leader, t_LeaderAddr = (if fst leader > 0 then map_get '''' addrs (fst leader) else ''''),
     t_Term = snd leader, t_Epoch = epoch, t_Nodes = mb_Nodes m, t_NonVotings = mb_NonVotings m, t_Witnesses = mb_Witnesses m,
     t_GrpcAddrs = addrs, t_ConfigChangeID = mb_ConfigChangeID m\<rparr>"

text \<open>
  A service on a running node: it has its node host, reads the addresses of its metadata
  replica, and its propose function meets the contract. The cluster's state is such that the
  membership of the shard is known and fits the wire format.
\<close>

definition service_ready :: "('w \<Rightarrow> MetadataStateMachine) \<Rightarrow> (node_map \<Rightarrow> node_map) \<Rightarrow> 'w NodeHost \<Rightarrow> 'w Service \<Rightarrow> bool" where
  "service_ready meta gorder nh s \<longleftrightarrow> svc_nh s = Some nh \<and> svc_getGrpcAddrs s = Some (\<lambda>w. GetGrpcAddrs gorder (meta w)) \<and>
    range_order gorder \<and> meta_proposes meta (svc_propose s)"

definition publishable :: "('w \<Rightarrow> MetadataStateMachine) \<Rightarrow> 'w NodeHost \<Rightarrow> 'w \<Rightarrow> u64 \<Rightarrow> Membership \<Rightarrow> bool" where
  "publishable meta nh w shardID m \<longleftrightarrow> meta_reach (meta w) \<and> length (ms_grpcAddrs (meta w)) < 65536 \<and>
    nh_SyncGetShardMembership nh w shardID = Inr m \<and> membership_fits m"

text \<open>What readers of a replica see after a topology has been applied.\<close>

definition sees_topology :: "(nat \<Rightarrow> node_map \<Rightarrow> node_map) \<Rightarrow> MetadataStateMachine \<Rightarrow> MetadataStateMachine \<Rightarrow> ShardTopology \<Rightarrow> bool" where
  "sees_topology order s s' t \<longleftrightarrow>
    (\<exists>t'. GetShardTopology order s' (t_ShardID t) = Some t' \<and> same_topology t' t) \<and>
    (\<forall>i. i \<noteq> t_ShardID t \<longrightarrow> GetShardTopology order s' i = GetShardTopology order s i) \<and>
    tp_Epoch (ms_topology s) \<le> tp_Epoch (ms_topology s')"

definition sample_service :: "u64 \<Rightarrow> MemCluster Service" where
  "sample_service e = (SetGrpcAddrsSource (SetNodeHost (NewService None (\<lambda>w. mem_SyncPropose w MetadataShardID)) mem_nodehost)
     (\<lambda>w. GetGrpcAddrs id (mc_meta w)))\<lparr>svc_epoch := e\<rparr>"

section \<open>Lemmas\<close>

lemma node_map_fits_order:
  assumes "range_order order" and "node_map_fits m"
  shows "node_map_fits (order m)"
  using assms(2) range_orderD(1,2)[OF assms(1), of m] range_orderD(5)[OF assms(1), of fst m]
  by (simp add: node_map_fits_def list_all_iff)

lemma registry_fits: "meta_inv s \<Longrightarrow> length (ms_grpcAddrs s) < 65536 \<Longrightarrow> node_map_fits (ms_grpcAddrs s)"
  by (simp add: meta_inv_def node_map_fits_def)

lemma GetGrpcAddrs_order: "meta_inv s \<Longrightarrow> range_order gorder \<Longrightarrow> GetGrpcAddrs gorder s = gorder (ms_grpcAddrs s)"
  by (simp add: GetGrpcAddrs_def copy_map_order meta_inv_def)

lemma topology_of_fits:
  assumes "membership_fits m" and "node_map_fits addrs"
  shows "topology_fits (topology_of shardID m leader addrs epoch)"
proof -
  have "length (map_get '''' addrs i) < 65536" for i
    using assms(2) by (auto simp: map_get_def node_map_fits_def list_all_iff split: option.splits dest!: map_of_SomeD)
  with assms show ?thesis by (simp add: topology_fits_def topology_of_def membership_fits_def)
qed

text \<open>What a publication does: it counts the epoch up and proposes the topology.\<close>

lemma publishTopology_eq:
  assumes "service_ready meta gorder nh s" and "publishable meta nh w shardID m"
    and "\<forall>n. range_order (order n)" and "range_order aorder"
  shows "\<exists>addrs cmd. map_of addrs = map_of (ms_grpcAddrs (meta w)) \<and>
    topology_fits (topology_of shardID m (leader_info nh w shardID) addrs (svc_epoch s + 1)) \<and>
    MarshalUpdateTopologyCmd order (topology_of shardID m (leader_info nh w shardID) addrs (svc_epoch s + 1)) = Ret (Inr cmd) \<and>
    publishTopology order aorder s w shardID = Ret (s\<lparr>svc_epoch := svc_epoch s + 1\<rparr>, fst (svc_propose s w cmd))"
proof -
  have inv: "meta_inv (meta w)" using assms(2) meta_reach_inv by (simp add: publishable_def)
  define addrs where "addrs = aorder (gorder (ms_grpcAddrs (meta w)))"
  have fits: "node_map_fits (ms_grpcAddrs (meta w))" using assms(2) registry_fits[OF inv] by (simp add: publishable_def)
  have go: "range_order gorder" using assms(1) by (simp add: service_ready_def)
  have d: "distinct (map fst (gorder (ms_grpcAddrs (meta w))))"
    using node_map_fits_order[OF go fits] by (simp add: node_map_fits_def)
  have copied: "copy_map [] (aorder (GetGrpcAddrs gorder (meta w))) = addrs"
    by (simp add: addrs_def GetGrpcAddrs_order[OF inv go] copy_map_order[OF assms(4) d])
  have "map_of addrs = map_of (ms_grpcAddrs (meta w))"
    using fits range_order_map_of[OF assms(4) d] range_order_map_of[OF go, of "ms_grpcAddrs (meta w)"]
    by (simp add: addrs_def node_map_fits_def)
  moreover have "node_map_fits addrs"
    unfolding addrs_def by (rule node_map_fits_order[OF assms(4) node_map_fits_order[OF go fits]])
  then have tf: "topology_fits (topology_of shardID m (leader_info nh w shardID) addrs (svc_epoch s + 1))"
    using assms(2) by (intro topology_of_fits) (simp_all add: publishable_def)
  moreover have "MarshalUpdateTopologyCmd order (topology_of shardID m (leader_info nh w shardID) addrs (svc_epoch s + 1)) =
      Ret (Inr (wire_topology (reorder order (topology_of shardID m (leader_info nh w shardID) addrs (svc_epoch s + 1)))))"
    using assms(3) by (intro MarshalUpdateTopologyCmd_wire) simp
  moreover from this have "publishTopology order aorder s w shardID = Ret (s\<lparr>svc_epoch := svc_epoch s + 1\<rparr>,
      fst (svc_propose s w (wire_topology (reorder order (topology_of shardID m (leader_info nh w shardID) addrs (svc_epoch s + 1))))))"
    using assms(1,2)
    by (cases "leader_info nh w shardID")
      (simp add: publishTopology_def service_ready_def publishable_def copied topology_of_def Let_def split_def)
  ultimately show ?thesis by blast
qed

lemma same_topology_of:
  assumes "map_of addrs = map_of addrs'"
  shows "same_topology t (topology_of shardID m leader addrs epoch) \<longleftrightarrow> same_topology t (topology_of shardID m leader addrs' epoch)"
  using assms by (simp add: same_topology_def topology_of_def map_get_def)

lemma update_epoch_mono: "tp_Epoch (ms_topology s) \<le> tp_Epoch (ms_topology (fst (MetadataSM_Update s cmd)))"
  by (auto simp: MetadataSM_Update_def put_topology_def Let_def split: sum.split)

lemma shard_epoch_bound:
  assumes "meta_reach s" and "\<forall>n. range_order (order n)" and "GetShardTopology order s i = Some t"
  shows "t_Epoch t \<le> tp_Epoch (ms_topology s)"
  using assms(3) meta_reach_inv[OF assms(1)]
  by (auto simp: GetShardTopology_reorder[OF assms(2) meta_reach_inv[OF assms(1)]] meta_inv_def list_all_iff reorder_fields dest!: map_of_SomeD)

lemma publish_visible:
  assumes ready: "service_ready meta gorder nh s" and pub: "publishable meta nh w shardID m"
    and ord: "\<forall>n. range_order (order n)" "range_order aorder" "\<forall>n. range_order (order' n)"
  shows "\<exists>w'. publishTopology order aorder s w shardID = Ret (s\<lparr>svc_epoch := svc_epoch s + 1\<rparr>, w') \<and> meta_reach (meta w') \<and>
    (sees_topology order' (meta w) (meta w') (topology_of shardID m (leader_info nh w shardID) (ms_grpcAddrs (meta w)) (svc_epoch s + 1)) \<or>
     (\<exists>cmd. snd (svc_propose s w cmd) \<noteq> None) \<and> meta w' = meta w)"
proof -
  let ?t = "\<lambda>addrs. topology_of shardID m (leader_info nh w shardID) addrs (svc_epoch s + 1)"
  obtain addrs cmd where a: "map_of addrs = map_of (ms_grpcAddrs (meta w))" and fits: "topology_fits (?t addrs)"
    and cmd: "MarshalUpdateTopologyCmd order (?t addrs) = Ret (Inr cmd)"
    and p: "publishTopology order aorder s w shardID = Ret (s\<lparr>svc_epoch := svc_epoch s + 1\<rparr>, fst (svc_propose s w cmd))"
    using publishTopology_eq[OF ready pub ord(1,2)] by blast
  obtain w' e where w': "svc_propose s w cmd = (w', e)" by fastforce
  have reach: "meta_reach (meta w)" using pub by (simp add: publishable_def)
  have "meta_proposes meta (svc_propose s)" using ready by (simp add: service_ready_def)
  with w' consider (applied) "meta w' = fst (MetadataSM_Update (meta w) cmd)" | (failed) "e \<noteq> None" "meta w' = meta w"
    unfolding meta_proposes_def by blast
  then show ?thesis
  proof cases
    case applied
    have i: "t_ShardID (?t x) = shardID" for x by (simp add: topology_of_def)
    have "sees_topology order' (meta w) (meta w') (?t (ms_grpcAddrs (meta w)))"
      using topology_update_get[OF meta_reach_inv[OF reach] ord(1,3) fits cmd] applied same_topology_of[OF a]
      by (simp add: sees_topology_def i update_epoch_mono)
    moreover have "meta_reach (meta w')" using reach applied meta_reach.update by simp
    ultimately show ?thesis using p w' by auto
  next
    case failed
    then have "\<exists>cmd. snd (svc_propose s w cmd) \<noteq> None" using w' by (intro exI[of _ cmd]) simp
    moreover have "publishTopology order aorder s w shardID = Ret (s\<lparr>svc_epoch := svc_epoch s + 1\<rparr>, w')" using p w' by simp
    ultimately show ?thesis using failed(2) reach by metis
  qed
qed

section \<open>Properties\<close>

text \<open>C22: every leader, membership, readiness or deletion event of a shard, and its registration
  at start-up, publishes the shard's topology: the handler returns, the node's epoch counter
  goes up by one, and unless the proposal failed every reader of the metadata replica then
  finds for that shard the members and leader the node host reports, the registered client
  addresses, the leader's among them, and the new epoch; other shards are as before.\<close>

theorem events_publish_topology:
  assumes ready: "service_ready meta gorder nh s" and pub: "publishable meta nh w shardID m" and shard: "shardID \<noteq> MetadataShardID"
    and ord: "\<forall>n. range_order (order n)" "range_order aorder" "\<forall>n. range_order (order' n)"
    and ev: "handler \<in> {LeaderUpdated, MembershipChanged, NodeReady, NodeDeleted, RegisterShard}"
  shows "\<exists>s' w'. handler order aorder s w shardID = Ret (s', w') \<and> svc_epoch s' = svc_epoch s + 1 \<and>
    (sees_topology order' (meta w) (meta w') (topology_of shardID m (leader_info nh w shardID) (ms_grpcAddrs (meta w)) (svc_epoch s + 1)) \<or>
     (\<exists>cmd. snd (svc_propose s w cmd) \<noteq> None) \<and> meta w' = meta w)"
proof -
  define s0 where "s0 = (if handler = NodeDeleted then s else track_shard s shardID)"
  have h: "handler order aorder s w shardID = publishTopology order aorder s0 w shardID"
    using ev shard unfolding s0_def
    by (cases "handler = NodeDeleted") (auto simp: LeaderUpdated_def MembershipChanged_def NodeReady_def NodeDeleted_def RegisterShard_def)
  have same: "svc_epoch s0 = svc_epoch s" "svc_propose s0 = svc_propose s" and "service_ready meta gorder nh s0"
    using ready by (simp_all add: service_ready_def track_shard_def s0_def)
  from publish_visible[OF this(3) pub ord] show ?thesis unfolding h same by auto
qed

lemma sample_service_ready: "service_ready mc_meta id mem_nodehost (sample_service e)"
  using mem_meta_proposes
  by (simp add: service_ready_def sample_service_def SetGrpcAddrsSource_def SetNodeHost_def NewService_def id_order)

lemma sample_meta_reach: "meta_reach (mc_meta sample_cluster)"
  by (simp add: sample_cluster_def meta_reach.update[OF meta_reach.init])

lemma sample_addrs: "ms_grpcAddrs (mc_meta sample_cluster) = [(2, ''b'')]"
  using UnmarshalRegisterNodeAddrCmd_wire[of "''b''" 2 "[]"]
  by (simp add: sample_cluster_def MetadataSM_Update_def NewMetadataStateMachine_def wire_register_def RegisterNodeAddrCmd_def UpdateTopologyCmd_def)

lemma sample_publishable: "publishable mc_meta mem_nodehost sample_cluster 1 (no_members\<lparr>mb_Nodes := [(1, ''x''), (2, ''y'')]\<rparr>)"
proof -
  have "length (ms_grpcAddrs (mc_meta sample_cluster)) < 65536" by (simp add: sample_addrs)
  moreover have "nh_SyncGetShardMembership mem_nodehost sample_cluster 1 = Inr (no_members\<lparr>mb_Nodes := [(1, ''x''), (2, ''y'')]\<rparr>)"
    by (simp add: mem_nodehost_def sample_cluster_def mem_members_def map_get_def)
  ultimately show ?thesis
    using sample_meta_reach by (simp add: publishable_def membership_fits_def node_map_fits_def no_members_def)
qed

theorem events_publish_topology_witness:
  "\<exists>s' w'. LeaderUpdated (\<lambda>_. rev) rev (sample_service 4) sample_cluster 1 = Ret (s', w') \<and> svc_epoch s' = 5 \<and>
    (\<exists>t. GetShardTopology (\<lambda>_. id) (mc_meta w') 1 = Some t \<and> t_LeaderID t = 2 \<and> t_LeaderAddr t = ''b'' \<and> t_Epoch t = 5)"
proof -
  have ok: "snd (svc_propose (sample_service 4) sample_cluster cmd) = None" for cmd
    by (simp add: sample_service_def SetGrpcAddrsSource_def SetNodeHost_def NewService_def mem_SyncPropose_def)
  have e: "svc_epoch (sample_service 4) = 4" by (simp add: sample_service_def)
  have l: "leader_info mem_nodehost sample_cluster 1 = (2, 3)" by (simp add: leader_info_def mem_nodehost_def sample_cluster_def)
  have r: "range_order (rev :: node_map \<Rightarrow> node_map)" by (simp add: range_order_def)
  show ?thesis
    using events_publish_topology[OF sample_service_ready[of 4] sample_publishable, of "\<lambda>_. rev" rev "\<lambda>_. id" LeaderUpdated] ok
    by (auto simp: r id_order MetadataShardID_def sees_topology_def topology_of_def same_topology_def l sample_addrs e map_get_def)
qed

text \<open>C39: the epoch of a shard is the counter of the node that published last, and a node
  starts counting at zero: the first event a restarted node handles replaces a topology of any
  larger epoch by one of epoch 1, while the global epoch keeps the larger value.\<close>

theorem restart_lowers_epoch:
  assumes ready: "service_ready meta gorder nh s" and pub: "publishable meta nh w shardID m" and shard: "shardID \<noteq> MetadataShardID"
    and ord: "\<forall>n. range_order (order n)" "range_order aorder"
    and new: "svc_epoch s = svc_epoch (NewService (svc_nh s) (svc_propose s))"
    and ok: "\<forall>cmd. snd (svc_propose s w cmd) = None"
    and old: "GetShardTopology (\<lambda>_. id) (meta w) shardID = Some t" and larger: "1 < t_Epoch t"
  shows "\<exists>s' w' t'. LeaderUpdated order aorder s w shardID = Ret (s', w') \<and>
    GetShardTopology (\<lambda>_. id) (meta w') shardID = Some t' \<and> t_Epoch t' = 1 \<and> t_Epoch t' < t_Epoch t \<and>
    t_Epoch t \<le> tp_Epoch (GetTopology (\<lambda>_. id) id (meta w'))"
proof -
  have "service_ready meta gorder nh (track_shard s shardID)" using ready by (simp add: service_ready_def track_shard_def)
  from publish_visible[OF this pub ord, of "\<lambda>_. id"] ok
  obtain s' w' where p: "LeaderUpdated order aorder s w shardID = Ret (s', w')" and r: "meta_reach (meta w')"
    and sees: "sees_topology (\<lambda>_. id) (meta w) (meta w') (topology_of shardID m (leader_info nh w shardID) (ms_grpcAddrs (meta w)) 1)"
    using shard new by (auto simp: LeaderUpdated_def track_shard_def NewService_def id_order)
  from sees obtain t' where t': "GetShardTopology (\<lambda>_. id) (meta w') shardID = Some t'" "t_Epoch t' = 1"
    by (auto simp: sees_topology_def topology_of_def same_topology_def)
  have "t_Epoch t \<le> tp_Epoch (ms_topology (meta w))"
    using pub old shard_epoch_bound[of "meta w" "\<lambda>_. id" shardID t] by (simp add: publishable_def id_order)
  then have "t_Epoch t \<le> tp_Epoch (GetTopology (\<lambda>_. id) id (meta w'))"
    using sees unfolding sees_topology_def by (auto simp: GetTopology_def copyTopology_def intro: order_trans)
  with p t' larger show ?thesis by auto
qed

theorem restart_lowers_epoch_witness:
  "\<exists>w t s' w' t'. GetShardTopology (\<lambda>_. id) (mc_meta w) 1 = Some t \<and> t_Epoch t = 7 \<and>
    LeaderUpdated (\<lambda>_. id) id (sample_service 0) w 1 = Ret (s', w') \<and>
    GetShardTopology (\<lambda>_. id) (mc_meta w') 1 = Some t' \<and> t_Epoch t' = 1"
proof -
  define w where "w = sample_cluster\<lparr>mc_meta := fst (MetadataSM_Update NewMetadataStateMachine (wire_topology (sample_topology 7)))\<rparr>"
  have reach: "meta_reach (mc_meta w)" by (simp add: w_def meta_reach.update[OF meta_reach.init])
  have "nh_SyncGetShardMembership mem_nodehost w 1 = Inr (no_members\<lparr>mb_Nodes := [(1, ''x''), (2, ''y'')]\<rparr>)"
    by (simp add: mem_nodehost_def sample_cluster_def w_def mem_members_def map_get_def)
  then have pub: "publishable mc_meta mem_nodehost w 1 (no_members\<lparr>mb_Nodes := [(1, ''x''), (2, ''y'')]\<rparr>)"
    using reach by (simp add: publishable_def membership_fits_def node_map_fits_def no_members_def w_def sample_update NewMetadataStateMachine_def)
  obtain t where t: "GetShardTopology (\<lambda>_. id) (mc_meta w) 1 = Some t" "t_Epoch t = 7"
    using GetShardTopology_reorder[of "\<lambda>_. id" "mc_meta w" 1] meta_reach_inv[OF reach]
    by (auto simp: w_def id_order sample_update put_topology_def Let_def reorder_fields NewMetadataStateMachine_def)
  have ok: "\<forall>cmd. snd (svc_propose (sample_service 0) w cmd) = None" "svc_epoch (sample_service 0) = 0"
    by (simp_all add: sample_service_def SetGrpcAddrsSource_def SetNodeHost_def NewService_def mem_SyncPropose_def)
  have "\<exists>s' w' t'. LeaderUpdated (\<lambda>_. id) id (sample_service 0) w 1 = Ret (s', w') \<and>
      GetShardTopology (\<lambda>_. id) (mc_meta w') 1 = Some t' \<and> t_Epoch t' = 1"
    using restart_lowers_epoch[OF sample_service_ready[of 0] pub, of "\<lambda>_. id" id t] t ok
    by (auto simp: id_order MetadataShardID_def NewService_def)
  with t show ?thesis by metis
qed

end
