(* ===== verification/Rpc.thy ===== *)
theory Rpc
  imports Prelude
begin

text \<open>
  What the gRPC handlers share: the error a handler returns, a status with its code or any
  other error, and the events of a server-side stream. A handler that has not returned yet
  because no further event has come is the value \<open>None\<close> of an option type.
\<close>

datatype code = NotFound | Unavailable | FailedPrecondition | InvalidArgument | Internal

datatype rpc_error = Status code string | Plain goerror

text \<open>Results of \<open>stream.Recv\<close>: a frame, or an error, \<open>io.EOF\<close> at the end.\<close>

datatype 'a recv = Frame 'a | RecvErr goerror

end
