(* ===== verification/Cluster.thy ===== *)
theory Cluster
  imports MetaService Rpc
begin

text \<open>
  The cluster handlers, \<open>src/internal/api/grpc/handlers/cluster.go\<close>: cluster
  information from the metadata replica, and the membership changes of both Raft groups. The
  node host is absent in standalone mode. An error message of a response is the error it is
  the text of.

  \<open>waitForCatchUp\<close> is a loop over the events its \<open>select\<close> can see; a tick
  carries what the rest of the cluster did since the last one. It returns \<open>None\<close> while
  the events do not end the wait.
\<close>

section \<open>Definitions\<close>

record NodeInfo =
  ni_NodeId :: u64
  ni_Address :: string
  ni_IsLeader :: bool
  ni_IsAlive :: bool

record ClusterInfoResponse =
  ci_LeaderNodeId :: u64
  ci_LeaderAddress :: string
  ci_Nodes :: "NodeInfo list"

definition node_info :: "ShardTopology \<Rightarrow> u64 \<Rightarrow> NodeInfo" where
  "node_info topo nodeID =
    (let addr = map_get '''' (t_GrpcAddrs topo) nodeID;
         addr' = (if addr = '''' then map_get '''' (t_Nodes topo) nodeID else addr)
     in \<lparr>ni_NodeId = nodeID, ni_Address = addr', ni_IsLeader = (nodeID = t_LeaderID topo), ni_IsAlive = True\<rparr>)"

definition GetClusterInfo :: "(nat \<Rightarrow> node_map \<Rightarrow> node_map) \<Rightarrow> (node_map \<Rightarrow> node_map) \<Rightarrow> 'w NodeHost option \<Rightarrow> MetadataStateMachine option
    \<Rightarrow> u64 \<Rightarrow> rpc_error + ClusterInfoResponse" where
  "GetClusterInfo order norder nodeHost metadataSM clusterID =
    (case (nodeHost, metadataSM) of
       (Some nh, Some sm) \<Rightarrow>
        (case GetShardTopology order sm clusterID of
           None \<Rightarrow> Inl (Status Unavailable ''topology not yet available'')
         | Some topo \<Rightarrow>
             Inr \<lparr>ci_LeaderNodeId = t_LeaderID topo, ci_LeaderAddress = t_LeaderAddr topo,
               ci_Nodes = map (\<lambda>(nodeID, _). node_info topo nodeID) (norder (t_Nodes topo))\<rparr>)
     | _ \<Rightarrow> Inl (Status NotFound ''attempt to get cluster info on single mode node''))"

record JoinRequest =
  jr_NodeId :: u64
  jr_RaftAddress :: string
  jr_GrpcAddress :: string

text \<open>The response messages all have the fields of this one.\<close>

record MemberResponse =
  mr_Success :: bool
  mr_ErrorMessage :: "goerror option"

abbreviation member_ok :: MemberResponse where
  "member_ok \<equiv> \<lparr>mr_Success = True, mr_ErrorMessage = None\<rparr>"

abbreviation member_failed :: "goerror \<Rightarrow> MemberResponse" where
  "member_failed err \<equiv> \<lparr>mr_Success = False, mr_ErrorMessage = Some err\<rparr>"

abbreviation not_raft :: rpc_error where
  "not_raft \<equiv> Status FailedPrecondition ''node is not running in raft mode''"

datatype 'w wait_event = WDeadline | WCtxDone goerror | WTick "'w \<Rightarrow> 'w"

fun waitForCatchUp :: "'w NodeHost \<Rightarrow> u64 \<Rightarrow> u64 \<Rightarrow> 'w wait_event list \<Rightarrow> 'w \<Rightarrow> ('w \<times> goerror option) option" where
  "waitForCatchUp nh shardID nodeID [] w = None"
| "waitForCatchUp nh shardID nodeID (WDeadline # evs) w = Some (w, Some (Errorf ''timeout waiting for node %d to catch up'' [unat nodeID]))"
| "waitForCatchUp nh shardID nodeID (WCtxDone err # evs) w = Some (w, Some err)"
| "waitForCatchUp nh shardID nodeID (WTick f # evs) w =
    (case nh_SyncGetShardMembership nh (f w) shardID of
       Inl err \<Rightarrow> waitForCatchUp nh shardID nodeID evs (f w)
     | Inr membership \<Rightarrow>
        (case map_of (mb_NonVotings membership) nodeID of
           Some _ \<Rightarrow> Some (f w, None)
         | None \<Rightarrow> waitForCatchUp nh shardID nodeID evs (f w)))"

definition JoinCluster :: "'w NodeHost option \<Rightarrow> u64 \<Rightarrow> 'w wait_event list \<Rightarrow> 'w wait_event list \<Rightarrow> 'w \<Rightarrow> JoinRequest
    \<Rightarrow> ('w \<times> (rpc_error + MemberResponse)) option" where
  "JoinCluster nodeHost clusterID evs1 evs2 w req =
    (case nodeHost of
       None \<Rightarrow> Some (w, Inl not_raft)
     | Some nh \<Rightarrow>
        (case nh_SyncRequestAddNonVoting nh w MetadataShardID (jr_NodeId req) (jr_RaftAddress req) 0 of
           (w1, Some err) \<Rightarrow> Some (w1, Inr (member_failed err))
         | (w1, None) \<Rightarrow>
        (case nh_SyncRequestAddNonVoting nh w1 clusterID (jr_NodeId req) (jr_RaftAddress req) 0 of
           (w2, Some err) \<Rightarrow> Some (w2, Inr (member_failed err))
         | (w2, None) \<Rightarrow>
        (case waitForCatchUp nh clusterID (jr_NodeId req) evs1 w2 of
           None \<Rightarrow> None
         | Some (w3, Some err) \<Rightarrow> Some (w3, Inr (member_failed (Wrap ''node did not catch up'' err)))
         | Some (w3, None) \<Rightarrow>
        (case waitForCatchUp nh MetadataShardID (jr_NodeId req) evs2 w3 of
           None \<Rightarrow> None
         | Some (w4, Some err) \<Rightarrow> Some (w4, Inr (member_failed (Wrap ''node did not catch up'' err)))
         | Some (w4, None) \<Rightarrow>
        (case nh_SyncRequestAddReplica nh w4 MetadataShardID (jr_NodeId req) (jr_RaftAddress req) 0 of
           (w5, Some err) \<Rightarrow> Some (w5, Inr (member_failed err))
         | (w5, None) \<Rightarrow>
        (case nh_SyncRequestAddReplica nh w5 clusterID (jr_NodeId req) (jr_RaftAddress req) 0 of
           (w6, Some err) \<Rightarrow> Some (w6, Inr (member_failed err))
         | (w6, None) \<Rightarrow> Some (w6, Inr member_ok))))))))"

definition LeaveCluster :: "'w NodeHost option \<Rightarrow> u64 \<Rightarrow> 'w \<Rightarrow> u64 \<Rightarrow> 'w \<times> (rpc_error + MemberResponse)" where
  "LeaveCluster nodeHost clusterID w nodeID =
    (case nodeHost of
       None \<Rightarrow> (w, Inl not_raft)
     | Some nh \<Rightarrow>
        (case nh_SyncRequestDeleteReplica nh w clusterID nodeID 0 of
           (w1, Some err) \<Rightarrow> (w1, Inr (member_failed err))
         | (w1, None) \<Rightarrow>
            (case nh_SyncRequestDeleteReplica nh w1 MetadataShardID nodeID 0 of
               (w2, Some err) \<Rightarrow> (w2, Inr (member_failed err))
             | (w2, None) \<Rightarrow> (w2, Inr member_ok))))"

definition JoinMetadata :: "'w NodeHost option \<Rightarrow> 'w \<Rightarrow> u64 \<Rightarrow> string \<Rightarrow> 'w \<times> (rpc_error + MemberResponse)" where
  "JoinMetadata nodeHost w nodeID raftAddress =
    (case nodeHost of
       None \<Rightarrow> (w, Inl not_raft)
     | Some nh \<Rightarrow>
        (case nh_SyncRequestAddNonVoting nh w MetadataShardID nodeID raftAddress 0 of
           (w1, Some err) \<Rightarrow> (w1, Inr (member_failed err))
         | (w1, None) \<Rightarrow> (w1, Inr member_ok)))"

definition LeaveMetadata :: "'w NodeHost option \<Rightarrow> 'w \<Rightarrow> u64 \<Rightarrow> 'w \<times> (rpc_error + MemberResponse)" where
  "LeaveMetadata nodeHost w nodeID =
    (case nodeHost of
       None \<Rightarrow> (w, Inl not_raft)
     | Some nh \<Rightarrow>
        (case nh_SyncRequestDeleteReplica nh w MetadataShardID nodeID 0 of
           (w1, Some err) \<Rightarrow> (w1, Inr (member_failed err))
         | (w1, None) \<Rightarrow> (w1, Inr member_ok)))"

subsection \<open>Specification\<close>

text \<open>A wait during which nobody else changes the membership of any group.\<close>

definition undisturbed :: "('w \<Rightarrow> u64 \<Rightarrow> Membership) \<Rightarrow> 'w wait_event list \<Rightarrow> bool" where
  "undisturbed members evs \<longleftrightarrow> (\<forall>f w sh. WTick f \<in> set evs \<longrightarrow> same_members (members (f w) sh) (members w sh))"

text \<open>Two states in which every group but those given has the same members.\<close>

definition others_same :: "('w \<Rightarrow> u64 \<Rightarrow> Membership) \<Rightarrow> u64 set \<Rightarrow> 'w \<Rightarrow> 'w \<Rightarrow> bool" where
  "others_same members shards w w' \<longleftrightarrow> (\<forall>sh. sh \<notin> shards \<longrightarrow> same_members (members w' sh) (members w sh))"

definition sample_join :: JoinRequest where
  "sample_join = \<lparr>jr_NodeId = 3, jr_RaftAddress = ''z'', jr_GrpcAddress = ''c''\<rparr>"

section \<open>Lemmas\<close>

lemma waitForCatchUp_members:
  assumes "undisturbed members evs" and "waitForCatchUp nh shardID nodeID evs w = Some (w', e)"
  shows "same_members (members w' sh) (members w sh)"
  using assms
proof (induction nh shardID nodeID evs w rule: waitForCatchUp.induct)
  case (4 nh shardID nodeID f evs w)
  have u: "undisturbed members evs" and f: "same_members (members (f w) sh) (members w sh)"
    using "4.prems"(1) by (auto simp: undisturbed_def)
  show ?case
  proof (cases "w' = f w")
    case True
    then show ?thesis using f by simp
  next
    case False
    with "4.prems"(2) have "waitForCatchUp nh shardID nodeID evs (f w) = Some (w', e)"
      by (auto split: sum.splits option.splits)
    moreover from False "4.prems"(2) have "same_members (members w' sh) (members (f w) sh)"
      using "4.IH" u by (auto split: sum.splits option.splits)
    ultimately show ?thesis using f same_members_trans by blast
  qed
qed auto

lemma waitForCatchUp_returns: "\<exists>ev\<in>set evs. \<not> (\<exists>f. ev = WTick f) \<Longrightarrow> \<exists>r. waitForCatchUp nh shardID nodeID evs w = Some r"
proof (induction nh shardID nodeID evs w rule: waitForCatchUp.induct)
  case (4 nh shardID nodeID f evs w)
  then show ?case by (auto split: sum.split option.split)
qed auto

text \<open>A node that is a non-voting member ends the wait at the first tick.\<close>

lemma waitForCatchUp_first_tick:
  assumes "membership_contract nh members" and "nh_SyncGetShardMembership nh (f w) shardID = Inr m"
    and "map_of (mb_NonVotings (members (f w) shardID)) nodeID \<noteq> None"
  shows "waitForCatchUp nh shardID nodeID (WTick f # evs) w = Some (f w, None)"
proof -
  have "map_of (mb_NonVotings m) = map_of (mb_NonVotings (members (f w) shardID))"
    using membership_contractD(1)[OF assms(1,2)] by (simp add: same_members_def)
  with assms(2,3) show ?thesis by (auto split: option.split)
qed

text \<open>The calls a successful join has made.\<close>

lemma JoinCluster_success:
  assumes "JoinCluster (Some nh) clusterID evs1 evs2 w req = Some (w', Inr r)" and "mr_Success r"
  obtains w1 w2 w3 w4 w5 where
    "nh_SyncRequestAddNonVoting nh w MetadataShardID (jr_NodeId req) (jr_RaftAddress req) 0 = (w1, None)"
    "nh_SyncRequestAddNonVoting nh w1 clusterID (jr_NodeId req) (jr_RaftAddress req) 0 = (w2, None)"
    "waitForCatchUp nh clusterID (jr_NodeId req) evs1 w2 = Some (w3, None)"
    "waitForCatchUp nh MetadataShardID (jr_NodeId req) evs2 w3 = Some (w4, None)"
    "nh_SyncRequestAddReplica nh w4 MetadataShardID (jr_NodeId req) (jr_RaftAddress req) 0 = (w5, None)"
    "nh_SyncRequestAddReplica nh w5 clusterID (jr_NodeId req) (jr_RaftAddress req) 0 = (w', None)"
  using assms by (auto simp: JoinCluster_def split: prod.splits option.splits)

lemma promoted_members:
  assumes "same_members m1 (with_nonvoting i addr m)" and "same_members m2 m1" and "same_members m3 (with_replica i addr m2)"
  shows "same_members m3 (with_replica i addr m)"
  using assms by (auto simp: same_members_def with_nonvoting_def with_replica_def update_conv' delete_conv' fun_eq_iff)

lemma stored_nodes_distinct:
  assumes "meta_reach sm" and "\<forall>n. range_order (order n)" and "GetShardTopology order sm i = Some t"
  shows "distinct (map fst (t_Nodes t))"
proof -
  note inv = meta_reach_inv[OF assms(1)]
  obtain t0 where t0: "map_of (tp_Shards (ms_topology sm)) i = Some t0" "t = reorder order t0"
    using assms(3) by (auto simp: GetShardTopology_reorder[OF assms(2) inv])
  then have "topology_fits t0" using inv by (auto simp: meta_inv_def list_all_iff dest!: map_of_SomeD)
  then have "topology_fits t" using topology_fits_reorder[of order t0] assms(2) t0(2) by simp
  then show ?thesis by (simp add: topology_fits_def node_map_fits_def)
qed

section \<open>Properties\<close>

lemma joined_members:
  assumes lib: "membership_contract nh members" and shard: "clusterID \<noteq> MetadataShardID"
    and quiet: "undisturbed members evs1" "undisturbed members evs2"
    and join: "JoinCluster (Some nh) clusterID evs1 evs2 w req = Some (w', Inr r)" "mr_Success r"
  shows "(\<forall>sh\<in>{clusterID, MetadataShardID}. same_members (members w' sh) (with_replica (jr_NodeId req) (jr_RaftAddress req) (members w sh))) \<and>
    others_same members {clusterID, MetadataShardID} w w'"
proof -
  from JoinCluster_success[OF join] obtain w1 w2 w3 w4 w5 where
    c: "nh_SyncRequestAddNonVoting nh w MetadataShardID (jr_NodeId req) (jr_RaftAddress req) 0 = (w1, None)"
      "nh_SyncRequestAddNonVoting nh w1 clusterID (jr_NodeId req) (jr_RaftAddress req) 0 = (w2, None)"
      "waitForCatchUp nh clusterID (jr_NodeId req) evs1 w2 = Some (w3, None)"
      "waitForCatchUp nh MetadataShardID (jr_NodeId req) evs2 w3 = Some (w4, None)"
      "nh_SyncRequestAddReplica nh w4 MetadataShardID (jr_NodeId req) (jr_RaftAddress req) 0 = (w5, None)"
      "nh_SyncRequestAddReplica nh w5 clusterID (jr_NodeId req) (jr_RaftAddress req) 0 = (w', None)" .
  note s1 = changesD[OF membership_contractD(2)[OF lib c(1)]] and s2 = changesD[OF membership_contractD(2)[OF lib c(2)]]
    and s5 = changesD[OF membership_contractD(3)[OF lib c(5)]] and s6 = changesD[OF membership_contractD(3)[OF lib c(6)]]
  have wait: "same_members (members w4 sh) (members w2 sh)" for sh
    using waitForCatchUp_members[OF quiet(1) c(3)] waitForCatchUp_members[OF quiet(2) c(4)] same_members_trans by blast
  have m1: "same_members (members w2 MetadataShardID) (with_nonvoting (jr_NodeId req) (jr_RaftAddress req) (members w MetadataShardID))"
    using s1(1) s2(2)[of MetadataShardID] shard same_members_trans by metis
  have m2: "same_members (members w5 MetadataShardID) (with_replica (jr_NodeId req) (jr_RaftAddress req) (members w MetadataShardID))"
    by (rule promoted_members[OF m1 wait s5(1)])
  have e1: "same_members (members w2 clusterID) (with_nonvoting (jr_NodeId req) (jr_RaftAddress req) (members w clusterID))"
    using s2(1) same_members_ops(1)[OF s1(2)[OF shard]] same_members_trans by metis
  have "same_members (members w5 clusterID) (members w4 clusterID)" using s5(2) shard by simp
  with wait have "same_members (members w5 clusterID) (members w2 clusterID)" using same_members_trans by blast
  then have "same_members (members w' clusterID) (with_replica (jr_NodeId req) (jr_RaftAddress req) (members w clusterID))"
    by (rule promoted_members[OF e1 _ s6(1)])
  moreover have "same_members (members w' MetadataShardID) (with_replica (jr_NodeId req) (jr_RaftAddress req) (members w MetadataShardID))"
    using s6(2)[of MetadataShardID] m2 shard same_members_trans by metis
  moreover have "others_same members {clusterID, MetadataShardID} w w'"
    unfolding others_same_def using s1(2) s2(2) wait s5(2) s6(2) by (metis insertI1 insertI2 same_members_trans)
  ultimately show ?thesis by blast
qed

text \<open>C21: a join that reports success has made the node a voting member of the event shard and
  of the metadata group, under its Raft address and no longer as a non-voting one; nobody
  else's membership and no other group has changed, when nobody else changes them meanwhile.\<close>

theorem join_makes_voter:
  assumes lib: "membership_contract nh members" and shard: "clusterID \<noteq> MetadataShardID"
    and quiet: "undisturbed members evs1" "undisturbed members evs2"
    and join: "JoinCluster (Some nh) clusterID evs1 evs2 w req = Some (w', Inr r)" "mr_Success r"
  shows "(\<forall>sh\<in>{clusterID, MetadataShardID}. same_members (members w' sh) (with_replica (jr_NodeId req) (jr_RaftAddress req) (members w sh))) \<and>
    others_same members {clusterID, MetadataShardID} w w'"
  using joined_members[OF assms] .

lemma mem_join:
  "\<exists>w'. JoinCluster (Some mem_nodehost) 1 [WTick id] [WTick id] sample_cluster req = Some (w', Inr member_ok)"
  if "jr_NodeId req = 3" "jr_RaftAddress req \<noteq> ''''"
  using that by (simp add: JoinCluster_def mem_nodehost_def mem_change_def with_nonvoting_def with_replica_def MetadataShardID_def
    sample_cluster_def mem_members_def map_get_def no_members_def)

theorem join_makes_voter_witness:
  "\<exists>w'. JoinCluster (Some mem_nodehost) 1 [WTick id] [WTick id] sample_cluster sample_join = Some (w', Inr member_ok) \<and>
    map_of (mb_Nodes (mem_members w' 1)) 3 = Some ''z'' \<and> map_of (mb_Nodes (mem_members w' 0)) 3 = Some ''z'' \<and>
    map_of (mb_Nodes (mem_members w' 1)) 2 = Some ''y''"
proof -
  obtain w' where j: "JoinCluster (Some mem_nodehost) 1 [WTick id] [WTick id] sample_cluster sample_join = Some (w', Inr member_ok)"
    using mem_join[of sample_join] by (auto simp: sample_join_def)
  have "undisturbed mem_members [WTick id]" by (simp add: undisturbed_def)
  from join_makes_voter[OF mem_nodehost_contract _ this this j] j show ?thesis
    by (auto simp: MetadataShardID_def same_members_def with_replica_def sample_join_def sample_cluster_def mem_members_def map_get_def update_conv')
qed

text \<open>C30: a join returns once each of its waits has seen the deadline or the end of the
  request, if not before. When the library accepts the changes and answers the queries, each
  wait ends at its first tick and the node is promoted, however far its log has got: what the
  wait looks for is the non-voting membership the join itself has just created.\<close>

theorem join_returns:
  assumes lib: "membership_contract nh members" and shard: "clusterID \<noteq> MetadataShardID"
  shows "((\<exists>ev\<in>set evs1. \<not> (\<exists>f. ev = WTick f)) \<and> (\<exists>ev\<in>set evs2. \<not> (\<exists>f. ev = WTick f)) \<longrightarrow>
      (\<exists>w' r. JoinCluster nodeHost clusterID evs1 evs2 w req = Some (w', r))) \<and>
    ((\<forall>w sh. snd (nh_SyncRequestAddNonVoting nh w sh (jr_NodeId req) (jr_RaftAddress req) 0) = None) \<and>
     (\<forall>w sh. snd (nh_SyncRequestAddReplica nh w sh (jr_NodeId req) (jr_RaftAddress req) 0) = None) \<and>
     (\<forall>w sh. \<exists>m. nh_SyncGetShardMembership nh w sh = Inr m) \<longrightarrow>
      (\<exists>w'. JoinCluster (Some nh) clusterID (WTick id # evs1) (WTick id # evs2) w req = Some (w', Inr member_ok)))"
proof (intro conjI impI)
  assume ends: "(\<exists>ev\<in>set evs1. \<not> (\<exists>f. ev = WTick f)) \<and> (\<exists>ev\<in>set evs2. \<not> (\<exists>f. ev = WTick f))"
  have wait: "waitForCatchUp nh' sh i evs1 w \<noteq> None" "waitForCatchUp nh' sh i evs2 w \<noteq> None" for nh' :: "'a NodeHost" and sh i w
    using waitForCatchUp_returns[of evs1 nh' sh i w] waitForCatchUp_returns[of evs2 nh' sh i w] ends by auto
  have "JoinCluster nodeHost clusterID evs1 evs2 w req \<noteq> None"
    by (auto simp: JoinCluster_def wait split: option.split prod.split)
  then show "\<exists>w' r. JoinCluster nodeHost clusterID evs1 evs2 w req = Some (w', r)" by auto
next
  assume calls: "(\<forall>w sh. snd (nh_SyncRequestAddNonVoting nh w sh (jr_NodeId req) (jr_RaftAddress req) 0) = None) \<and>
     (\<forall>w sh. snd (nh_SyncRequestAddReplica nh w sh (jr_NodeId req) (jr_RaftAddress req) 0) = None) \<and>
     (\<forall>w sh. \<exists>m. nh_SyncGetShardMembership nh w sh = Inr m)"
  then obtain w1 w2 w3 w4 where c:
      "nh_SyncRequestAddNonVoting nh w MetadataShardID (jr_NodeId req) (jr_RaftAddress req) 0 = (w1, None)"
      "nh_SyncRequestAddNonVoting nh w1 clusterID (jr_NodeId req) (jr_RaftAddress req) 0 = (w2, None)"
      "nh_SyncRequestAddReplica nh w2 MetadataShardID (jr_NodeId req) (jr_RaftAddress req) 0 = (w3, None)"
      "nh_SyncRequestAddReplica nh w3 clusterID (jr_NodeId req) (jr_RaftAddress req) 0 = (w4, None)"
    by (metis prod.collapse)
  note s1 = changesD[OF membership_contractD(2)[OF lib c(1)]] and s2 = changesD[OF membership_contractD(2)[OF lib c(2)]]
  have "map_of (mb_NonVotings (members w2 clusterID)) (jr_NodeId req) \<noteq> None"
    using s2(1) by (simp add: same_members_def with_nonvoting_def update_conv')
  moreover have "map_of (mb_NonVotings (members w2 MetadataShardID)) (jr_NodeId req) \<noteq> None"
    using s1(1) s2(2)[of MetadataShardID] shard by (simp add: same_members_def with_nonvoting_def update_conv')
  ultimately have "waitForCatchUp nh sh (jr_NodeId req) (WTick id # evs) w2 = Some (w2, None)"
    if "sh \<in> {clusterID, MetadataShardID}" for sh evs
    using that calls waitForCatchUp_first_tick[OF lib, of id w2 sh _ "jr_NodeId req" evs] by (metis id_apply insert_iff singletonD)
  then show "\<exists>w'. JoinCluster (Some nh) clusterID (WTick id # evs1) (WTick id # evs2) w req = Some (w', Inr member_ok)"
    using c by (auto simp: JoinCluster_def simp del: waitForCatchUp.simps)
qed

theorem join_returns_witness:
  "(\<exists>w' r. JoinCluster (Some mem_nodehost) 1 [WTick id, WDeadline] [WDeadline] sample_cluster sample_join = Some (w', r)) \<and>
    (\<exists>w'. JoinCluster (Some mem_nodehost) 1 [WTick id] [WTick id] sample_cluster sample_join = Some (w', Inr member_ok))"
proof -
  note j = join_returns[OF mem_nodehost_contract, of 1]
  have "\<exists>w' r. JoinCluster (Some mem_nodehost) 1 [WTick id, WDeadline] [WDeadline] sample_cluster sample_join = Some (w', r)"
    using j[of "[WTick id, WDeadline]" "[WDeadline]" "Some mem_nodehost" sample_cluster sample_join] by (simp add: MetadataShardID_def)
  moreover have "\<exists>w'. JoinCluster (Some mem_nodehost) 1 [WTick id] [WTick id] sample_cluster sample_join = Some (w', Inr member_ok)"
    using j[of "[]" "[]" "Some mem_nodehost" sample_cluster sample_join]
    by (simp add: MetadataShardID_def mem_nodehost_def mem_change_def)
  ultimately show ?thesis by blast
qed

text \<open>Leaving and observing: a reported success of \<open>LeaveCluster\<close> has removed the node
  from both groups, of \<open>LeaveMetadata\<close> from the metadata group only, and of
  \<open>JoinMetadata\<close> has added a non-voting member to the metadata group only; everything
  else is as before. \<open>LeaveCluster\<close> is not atomic: when the second removal fails without
  effect the node has left the event shard and is still a member of the metadata group.\<close>

theorem membership_handlers:
  assumes lib: "membership_contract nh members" and shard: "clusterID \<noteq> MetadataShardID"
  shows "(LeaveCluster (Some nh) clusterID w i = (w', Inr member_ok) \<longrightarrow>
      (\<forall>sh\<in>{clusterID, MetadataShardID}. same_members (members w' sh) (without_replica i (members w sh))) \<and>
      others_same members {clusterID, MetadataShardID} w w') \<and>
    (nh_SyncRequestDeleteReplica nh w clusterID i 0 = (w1, None) \<and> nh_SyncRequestDeleteReplica nh w1 MetadataShardID i 0 = (w1, Some err) \<longrightarrow>
      LeaveCluster (Some nh) clusterID w i = (w1, Inr (member_failed err)) \<and>
      same_members (members w1 clusterID) (without_replica i (members w clusterID)) \<and>
      same_members (members w1 MetadataShardID) (members w MetadataShardID)) \<and>
    (JoinMetadata (Some nh) w i addr = (w', Inr member_ok) \<longrightarrow>
      same_members (members w' MetadataShardID) (with_nonvoting i addr (members w MetadataShardID)) \<and>
      others_same members {MetadataShardID} w w') \<and>
    (LeaveMetadata (Some nh) w i = (w', Inr member_ok) \<longrightarrow>
      same_members (members w' MetadataShardID) (without_replica i (members w MetadataShardID)) \<and>
      others_same members {MetadataShardID} w w')"
proof (intro conjI impI)
  assume "LeaveCluster (Some nh) clusterID w i = (w', Inr member_ok)"
  then obtain w2 where c: "nh_SyncRequestDeleteReplica nh w clusterID i 0 = (w2, None)" "nh_SyncRequestDeleteReplica nh w2 MetadataShardID i 0 = (w', None)"
    by (auto simp: LeaveCluster_def split: prod.splits option.splits)
  note s1 = changesD[OF membership_contractD(4)[OF lib c(1)]] and s2 = changesD[OF membership_contractD(4)[OF lib c(2)]]
  have "same_members (members w' clusterID) (without_replica i (members w clusterID))"
    using s1(1) s2(2)[OF shard] same_members_trans by blast
  moreover have "same_members (members w' MetadataShardID) (without_replica i (members w MetadataShardID))"
    using s2(1) same_members_ops(3)[OF s1(2)[of MetadataShardID]] shard same_members_trans by metis
  ultimately show "\<forall>sh\<in>{clusterID, MetadataShardID}. same_members (members w' sh) (without_replica i (members w sh))" by blast
  show "others_same members {clusterID, MetadataShardID} w w'"
    unfolding others_same_def using s1(2) s2(2) by (metis insertI1 insertI2 same_members_trans)
next
  assume c: "nh_SyncRequestDeleteReplica nh w clusterID i 0 = (w1, None) \<and> nh_SyncRequestDeleteReplica nh w1 MetadataShardID i 0 = (w1, Some err)"
  then show "LeaveCluster (Some nh) clusterID w i = (w1, Inr (member_failed err))" by (simp add: LeaveCluster_def)
  note s1 = changesD[OF membership_contractD(4)[OF lib conjunct1[OF c]]]
  show "same_members (members w1 clusterID) (without_replica i (members w clusterID))" by (rule s1(1))
  show "same_members (members w1 MetadataShardID) (members w MetadataShardID)" using s1(2) shard by simp
next
  assume "JoinMetadata (Some nh) w i addr = (w', Inr member_ok)"
  then have c: "nh_SyncRequestAddNonVoting nh w MetadataShardID i addr 0 = (w', None)"
    by (auto simp: JoinMetadata_def split: prod.splits option.splits)
  show "same_members (members w' MetadataShardID) (with_nonvoting i addr (members w MetadataShardID))" "others_same members {MetadataShardID} w w'"
    using changesD[OF membership_contractD(2)[OF lib c]] by (simp_all add: others_same_def)
next
  assume "LeaveMetadata (Some nh) w i = (w', Inr member_ok)"
  then have c: "nh_SyncRequestDeleteReplica nh w MetadataShardID i 0 = (w', None)"
    by (auto simp: LeaveMetadata_def split: prod.splits option.splits)
  show "same_members (members w' MetadataShardID) (without_replica i (members w MetadataShardID))" "others_same members {MetadataShardID} w w'"
    using changesD[OF membership_contractD(4)[OF lib c]] by (simp_all add: others_same_def)
qed

theorem membership_handlers_witness:
  "\<exists>w'. LeaveCluster (Some mem_nodehost) 1 sample_cluster 1 = (w', Inr member_ok) \<and>
    map_of (mb_Nodes (mem_members w' 1)) 1 = None \<and> map_of (mb_Nodes (mem_members w' 1)) 2 = Some ''y''"
proof -
  obtain w' where l: "LeaveCluster (Some mem_nodehost) 1 sample_cluster 1 = (w', Inr member_ok)"
    by (simp add: LeaveCluster_def mem_nodehost_def mem_change_def)
  with membership_handlers[OF mem_nodehost_contract, of 1 sample_cluster 1 w'] show ?thesis
    by (auto simp: MetadataShardID_def same_members_def without_replica_def sample_cluster_def mem_members_def map_get_def delete_conv')
qed



end
