(* ===== verification/Hub.thy ===== *)
theory Hub
  imports Messages Maps
begin

text \<open>
  The consumer hub, \<open>src/internal/dispatcher/hub.go\<close>. Maps and the orders of range
  loops are those of theory \<open>Maps\<close>. A consumer's channel is an address into a store
  of bounded buffers, shared with the consumer's connection.

  The interface \<open>DispatchStrategy\<close> is a function on a strategy state; the locale
  \<open>dispatch_strategy\<close> states its contract and round robin is its instance. The
  properties are the registry invariant, delivery to exactly one member of each group and
  to every universal consumer, and the fairness of round robin.
\<close>

section \<open>Definitions\<close>

record ConsumerEntry =
  ce_ID :: string
  ce_Topic :: string
  ce_Group :: string
  ce_Ch :: nat

definition IsUniversal :: "ConsumerEntry \<Rightarrow> bool" where
  "IsUniversal c \<longleftrightarrow> ce_Group c = ''''"

definition GroupKey :: "ConsumerEntry \<Rightarrow> string" where
  "GroupKey c =
    (if ce_Group c = '''' then ce_Topic c @ ''|__universal__|'' @ ce_ID c
     else ce_Topic c @ ''|'' @ ce_Group c)"

subsection \<open>Round robin\<close>

type_synonym RoundRobinStrategy = "(string \<times> u64) list"

definition NewRoundRobinStrategy :: RoundRobinStrategy where
  "NewRoundRobinStrategy = []"

definition RoundRobin_Select :: "RoundRobinStrategy \<Rightarrow> ConsumerEntry list \<Rightarrow> QueueMessage
    \<Rightarrow> RoundRobinStrategy \<times> ConsumerEntry option" where
  "RoundRobin_Select s candidates msg =
    (if length candidates = 0 then (s, None)
     else let groupKey = GroupKey (candidates ! 0);
              idx = map_get 0 s groupKey;
              n = of_nat (length candidates) :: u64
       in (AList.update groupKey ((idx + 1) mod n) s, Some (candidates ! unat (idx mod n))))"

subsection \<open>Topic subscriptions\<close>

record TopicSubscription =
  ts_groups :: "(string \<times> ConsumerEntry list) list"
  ts_universal :: "(string \<times> ConsumerEntry) list"

definition newTopicSubscription :: TopicSubscription where
  "newTopicSubscription = \<lparr>ts_groups = [], ts_universal = []\<rparr>"

definition ts_add :: "TopicSubscription \<Rightarrow> ConsumerEntry \<Rightarrow> TopicSubscription" where
  "ts_add ts c =
    (if IsUniversal c then ts\<lparr>ts_universal := AList.update (ce_ID c) c (ts_universal ts)\<rparr>
     else ts\<lparr>ts_groups := AList.update (ce_Group c) (map_get [] (ts_groups ts) (ce_Group c) @ [c]) (ts_groups ts)\<rparr>)"

definition ts_isEmpty :: "TopicSubscription \<Rightarrow> bool" where
  "ts_isEmpty ts \<longleftrightarrow> length (ts_groups ts) = 0 \<and> length (ts_universal ts) = 0"

text \<open>The loop that cuts the first entry with the identifier out of the group, if there is one.\<close>

fun cut_first :: "string \<Rightarrow> ConsumerEntry list \<Rightarrow> ConsumerEntry list option" where
  "cut_first i [] = None"
| "cut_first i (ce # cs) = (if ce_ID ce = i then Some cs else map_option ((#) ce) (cut_first i cs))"

definition ts_remove :: "TopicSubscription \<Rightarrow> ConsumerEntry \<Rightarrow> TopicSubscription \<times> bool" where
  "ts_remove ts c =
    (let ts' =
       (if IsUniversal c then ts\<lparr>ts_universal := AList.delete (ce_ID c) (ts_universal ts)\<rparr>
        else let group = map_get [] (ts_groups ts) (ce_Group c);
                 groups1 = (case cut_first (ce_ID c) group of
                     None \<Rightarrow> ts_groups ts
                   | Some group' \<Rightarrow> AList.update (ce_Group c) group' (ts_groups ts))
          in ts\<lparr>ts_groups := (if length (map_get [] groups1 (ce_Group c)) = 0
                               then AList.delete (ce_Group c) groups1 else groups1)\<rparr>)
     in (ts', ts_isEmpty ts'))"

text \<open>The snapshots are copies; the order of their elements is that of the range loops.\<close>

definition groupSnapshot :: "TopicSubscription \<Rightarrow> (string \<times> ConsumerEntry list) list" where
  "groupSnapshot ts = ts_groups ts"

definition universalSnapshot :: "((string \<times> ConsumerEntry) list \<Rightarrow> (string \<times> ConsumerEntry) list)
    \<Rightarrow> TopicSubscription \<Rightarrow> ConsumerEntry list" where
  "universalSnapshot order ts = map snd (order (ts_universal ts))"

subsection \<open>The hub\<close>

text \<open>
  \<open>hub_chans\<close> is the channel store: buffer and capacity of each channel.
  \<open>hub_wake\<close> is the wake-up channel of capacity one: whether it holds a signal.
\<close>

record 's Hub =
  hub_topics :: "(string \<times> TopicSubscription) list"
  hub_byID :: "(string \<times> ConsumerEntry) list"
  hub_inFlightByConsumer :: "(string \<times> bytes list) list"
  hub_strategy :: 's
  hub_wake :: bool
  hub_chans :: "nat \<Rightarrow> QueueMessage list \<times> nat"

definition NewHub :: "'s \<Rightarrow> (nat \<Rightarrow> QueueMessage list \<times> nat) \<Rightarrow> 's Hub" where
  "NewHub strategy chans =
    \<lparr>hub_topics = [], hub_byID = [], hub_inFlightByConsumer = [], hub_strategy = strategy,
     hub_wake = False, hub_chans = chans\<rparr>"

definition Hub_Register :: "'s Hub \<Rightarrow> string \<Rightarrow> string \<Rightarrow> string \<Rightarrow> nat \<Rightarrow> 's Hub" where
  "Hub_Register h i topic groupID ch =
    (let entry = \<lparr>ce_ID = i, ce_Topic = topic, ce_Group = groupID, ce_Ch = ch\<rparr>;
         sub = (case map_of (hub_topics h) topic of None \<Rightarrow> newTopicSubscription | Some sub \<Rightarrow> sub)
     in h\<lparr>hub_topics := AList.update topic (ts_add sub entry) (hub_topics h),
          hub_byID := AList.update i entry (hub_byID h),
          hub_wake := True\<rparr>)"

definition Hub_Unregister :: "'s Hub \<Rightarrow> string \<Rightarrow> 's Hub" where
  "Hub_Unregister h i =
    (case map_of (hub_byID h) i of
       None \<Rightarrow> h
     | Some entry \<Rightarrow>
        (let topics' = (case map_of (hub_topics h) (ce_Topic entry) of
               None \<Rightarrow> hub_topics h
             | Some sub \<Rightarrow>
                (case ts_remove sub entry of
                   (sub', True) \<Rightarrow> AList.delete (ce_Topic entry) (hub_topics h)
                 | (sub', False) \<Rightarrow> AList.update (ce_Topic entry) sub' (hub_topics h)))
         in h\<lparr>hub_topics := topics', hub_byID := AList.delete i (hub_byID h),
              hub_inFlightByConsumer := AList.delete i (hub_inFlightByConsumer h)\<rparr>))"

definition Hub_trySend :: "'s Hub \<Rightarrow> ConsumerEntry \<Rightarrow> QueueMessage \<Rightarrow> bytes \<Rightarrow> 's Hub \<times> bool" where
  "Hub_trySend h c msg deliveryTag =
    (case hub_chans h (ce_Ch c) of (buf, cap) \<Rightarrow>
      if length buf < cap
      then (h\<lparr>hub_chans := (hub_chans h)(ce_Ch c := (buf @ [msg], cap)),
              hub_inFlightByConsumer := AList.update (ce_ID c)
                (map_get [] (hub_inFlightByConsumer h) (ce_ID c) @ [deliveryTag]) (hub_inFlightByConsumer h)\<rparr>, True)
      else (h, False))"

fun dispatch_groups :: "('s \<Rightarrow> ConsumerEntry list \<Rightarrow> QueueMessage \<Rightarrow> 's \<times> ConsumerEntry option) \<Rightarrow> 's Hub
    \<Rightarrow> QueueMessage \<Rightarrow> bytes \<Rightarrow> (string \<times> ConsumerEntry list) list \<Rightarrow> string list \<Rightarrow> 's Hub \<times> string list" where
  "dispatch_groups Select h msg deliveryTag [] sentTo = (h, sentTo)"
| "dispatch_groups Select h msg deliveryTag ((gid, consumers) # groups) sentTo =
    (case Select (hub_strategy h) consumers msg of
       (s', None) \<Rightarrow> dispatch_groups Select (h\<lparr>hub_strategy := s'\<rparr>) msg deliveryTag groups sentTo
     | (s', Some selected) \<Rightarrow>
        (case Hub_trySend (h\<lparr>hub_strategy := s'\<rparr>) selected msg deliveryTag of
           (h', True) \<Rightarrow> dispatch_groups Select h' msg deliveryTag groups (sentTo @ [gid])
         | (h', False) \<Rightarrow> dispatch_groups Select h' msg deliveryTag groups sentTo))"

fun dispatch_universal :: "'s Hub \<Rightarrow> QueueMessage \<Rightarrow> bytes \<Rightarrow> ConsumerEntry list \<Rightarrow> string list \<Rightarrow> 's Hub \<times> string list" where
  "dispatch_universal h msg deliveryTag [] sentTo = (h, sentTo)"
| "dispatch_universal h msg deliveryTag (c # universal) sentTo =
    (case Hub_trySend h c msg deliveryTag of
       (h', True) \<Rightarrow> dispatch_universal h' msg deliveryTag universal (sentTo @ [''''])
     | (h', False) \<Rightarrow> dispatch_universal h' msg deliveryTag universal sentTo)"

definition DispatchToTopic :: "('s \<Rightarrow> ConsumerEntry list \<Rightarrow> QueueMessage \<Rightarrow> 's \<times> ConsumerEntry option)
    \<Rightarrow> ((string \<times> ConsumerEntry list) list \<Rightarrow> (string \<times> ConsumerEntry list) list)
    \<Rightarrow> ((string \<times> ConsumerEntry) list \<Rightarrow> (string \<times> ConsumerEntry) list)
    \<Rightarrow> 's Hub \<Rightarrow> string \<Rightarrow> QueueMessage \<Rightarrow> bytes \<Rightarrow> 's Hub \<times> string list" where
  "DispatchToTopic Select gorder uorder h topic msg deliveryTag =
    (case map_of (hub_topics h) topic of
       None \<Rightarrow> (h, [])
     | Some sub \<Rightarrow>
        (let groups = groupSnapshot sub; universal = universalSnapshot uorder sub
         in case dispatch_groups Select h msg deliveryTag (gorder groups) [] of
           (h', sentTo) \<Rightarrow> dispatch_universal h' msg deliveryTag universal sentTo))"

definition RemoveInFlightForConsumer :: "'s Hub \<Rightarrow> string \<Rightarrow> bytes \<Rightarrow> 's Hub" where
  "RemoveInFlightForConsumer h consumerID key =
    (let keys = map_get [] (hub_inFlightByConsumer h) consumerID
     in if key \<in> set keys
        then h\<lparr>hub_inFlightByConsumer := AList.update consumerID (remove1 key keys) (hub_inFlightByConsumer h)\<rparr>
        else h)"

definition ActiveTopics :: "((string \<times> TopicSubscription) list \<Rightarrow> (string \<times> TopicSubscription) list) \<Rightarrow> 's Hub \<Rightarrow> string list" where
  "ActiveTopics order h = map fst (order (hub_topics h))"

definition HasConsumers :: "'s Hub \<Rightarrow> bool" where
  "HasConsumers h \<longleftrightarrow> length (hub_byID h) > 0"

definition GroupsForTopic :: "((string \<times> ConsumerEntry list) list \<Rightarrow> (string \<times> ConsumerEntry list) list)
    \<Rightarrow> 's Hub \<Rightarrow> string \<Rightarrow> string list" where
  "GroupsForTopic order h topic =
    (case map_of (hub_topics h) topic of
       None \<Rightarrow> []
     | Some sub \<Rightarrow> map fst (filter (\<lambda>(gid, consumers). length consumers > 0) (order (ts_groups sub))))"

subsection \<open>Specification\<close>

text \<open>Where a subscription holds a consumer.\<close>

definition ts_member :: "TopicSubscription \<Rightarrow> ConsumerEntry \<Rightarrow> bool" where
  "ts_member ts c \<longleftrightarrow>
    (if IsUniversal c then map_of (ts_universal ts) (ce_ID c) = Some c
     else c \<in> set (map_get [] (ts_groups ts) (ce_Group c)))"

text \<open>
  The registry invariant: the identifier index and the topic tree hold the same consumers,
  each in the place its topic and group name, no group and no subscription is empty, and a
  group holds an identifier once.
\<close>

definition group_ok :: "(string \<Rightarrow> ConsumerEntry option) \<Rightarrow> string \<Rightarrow> string \<Rightarrow> ConsumerEntry list \<Rightarrow> bool" where
  "group_ok byID topic g cs \<longleftrightarrow> g \<noteq> '''' \<and> cs \<noteq> [] \<and> distinct (map ce_ID cs) \<and>
    (\<forall>c\<in>set cs. ce_Topic c = topic \<and> ce_Group c = g \<and> byID (ce_ID c) = Some c)"

definition ts_inv :: "(string \<Rightarrow> ConsumerEntry option) \<Rightarrow> string \<Rightarrow> TopicSubscription \<Rightarrow> bool" where
  "ts_inv byID topic ts \<longleftrightarrow>
    distinct (map fst (ts_groups ts)) \<and> (\<forall>(g, cs)\<in>set (ts_groups ts). group_ok byID topic g cs) \<and>
    distinct (map fst (ts_universal ts)) \<and>
    (\<forall>(i, c)\<in>set (ts_universal ts). ce_ID c = i \<and> ce_Topic c = topic \<and> ce_Group c = '''' \<and> byID i = Some c)"

text \<open>The invariant through the lookup functions.\<close>

definition groups_ok :: "(string \<Rightarrow> ConsumerEntry option) \<Rightarrow> string \<Rightarrow> (string \<times> ConsumerEntry list) list \<Rightarrow> bool" where
  "groups_ok byID topic gs \<longleftrightarrow> distinct (map fst gs) \<and>
    (\<forall>g cs. map_of gs g = Some cs \<longrightarrow> group_ok byID topic g cs)"

definition universal_ok :: "(string \<Rightarrow> ConsumerEntry option) \<Rightarrow> string \<Rightarrow> (string \<times> ConsumerEntry) list \<Rightarrow> bool" where
  "universal_ok byID topic us \<longleftrightarrow> distinct (map fst us) \<and>
    (\<forall>i c. map_of us i = Some c \<longrightarrow> ce_ID c = i \<and> ce_Topic c = topic \<and> ce_Group c = '''' \<and> byID i = Some c)"

definition hub_inv :: "'s Hub \<Rightarrow> bool" where
  "hub_inv h \<longleftrightarrow>
    distinct (map fst (hub_topics h)) \<and> distinct (map fst (hub_byID h)) \<and>
    (\<forall>(topic, ts)\<in>set (hub_topics h). ts_inv (map_of (hub_byID h)) topic ts \<and> \<not> ts_isEmpty ts) \<and>
    (\<forall>(i, c)\<in>set (hub_byID h). ce_ID c = i \<and>
      (\<exists>ts. map_of (hub_topics h) (ce_Topic c) = Some ts \<and> ts_member ts c))"


text \<open>
  A dispatch selects its targets and then sends: the consumer each group's strategy call
  picks, with the group it stands for, and the sends in order.
\<close>

fun select_targets :: "('s \<Rightarrow> ConsumerEntry list \<Rightarrow> QueueMessage \<Rightarrow> 's \<times> ConsumerEntry option) \<Rightarrow> 's \<Rightarrow> QueueMessage
    \<Rightarrow> (string \<times> ConsumerEntry list) list \<Rightarrow> 's \<times> (string \<times> ConsumerEntry) list" where
  "select_targets Select s msg [] = (s, [])"
| "select_targets Select s msg ((g, cs) # groups) =
    (case Select s cs msg of (s', sel) \<Rightarrow>
      case select_targets Select s' msg groups of (s'', ts) \<Rightarrow>
        (s'', (case sel of None \<Rightarrow> ts | Some c \<Rightarrow> (g, c) # ts)))"

fun send_targets :: "'s Hub \<Rightarrow> QueueMessage \<Rightarrow> bytes \<Rightarrow> (string \<times> ConsumerEntry) list \<Rightarrow> string list \<Rightarrow> 's Hub \<times> string list" where
  "send_targets h msg tag [] sent = (h, sent)"
| "send_targets h msg tag ((g, c) # ts) sent =
    (case Hub_trySend h c msg tag of
       (h', True) \<Rightarrow> send_targets h' msg tag ts (sent @ [g])
     | (h', False) \<Rightarrow> send_targets h' msg tag ts sent)"

text \<open>The consumers round robin picks for a run of messages to an unchanged group.\<close>

fun rr_picks :: "RoundRobinStrategy \<Rightarrow> ConsumerEntry list \<Rightarrow> QueueMessage list \<Rightarrow> ConsumerEntry option list" where
  "rr_picks s cs [] = []"
| "rr_picks s cs (msg # msgs) = (case RoundRobin_Select s cs msg of (s', sel) \<Rightarrow> sel # rr_picks s' cs msgs)"

text \<open>What a dispatch does to a consumer's channel: one more message, or nothing.\<close>

definition delivered :: "'s Hub \<Rightarrow> 's Hub \<Rightarrow> QueueMessage \<Rightarrow> ConsumerEntry \<Rightarrow> bool" where
  "delivered h h' msg c \<longleftrightarrow>
    hub_chans h' (ce_Ch c) = (fst (hub_chans h (ce_Ch c)) @ [msg], snd (hub_chans h (ce_Ch c)))"

definition untouched :: "'s Hub \<Rightarrow> 's Hub \<Rightarrow> ConsumerEntry \<Rightarrow> bool" where
  "untouched h h' c \<longleftrightarrow> hub_chans h' (ce_Ch c) = hub_chans h (ce_Ch c)"

definition has_room :: "'s Hub \<Rightarrow> ConsumerEntry \<Rightarrow> bool" where
  "has_room h c \<longleftrightarrow> length (fst (hub_chans h (ce_Ch c))) < snd (hub_chans h (ce_Ch c))"

text \<open>The steps of a hub; \<open>recv\<close> is a connection taking a message out of its channel.\<close>

inductive hub_step :: "RoundRobinStrategy Hub \<Rightarrow> RoundRobinStrategy Hub \<Rightarrow> bool" where
  register: "map_of (hub_byID h) i = None \<Longrightarrow> hub_step h (Hub_Register h i topic g ch)"
| unregister: "hub_step h (Hub_Unregister h i)"
| dispatch: "range_order gorder \<Longrightarrow> range_order uorder \<Longrightarrow>
    hub_step h (fst (DispatchToTopic RoundRobin_Select gorder uorder h topic msg tag))"
| remove: "hub_step h (RemoveInFlightForConsumer h i key)"
| recv: "hub_chans h ch = (msg # buf, cap) \<Longrightarrow> hub_step h (h\<lparr>hub_chans := (hub_chans h)(ch := (buf, cap))\<rparr>)"
| wake: "hub_step h (h\<lparr>hub_wake := False\<rparr>)"

inductive hub_reach :: "RoundRobinStrategy Hub \<Rightarrow> bool" where
  init: "hub_reach (NewHub NewRoundRobinStrategy chans)"
| step: "hub_reach h \<Longrightarrow> hub_step h h' \<Longrightarrow> hub_reach h'"

section \<open>The registry\<close>

declare map_of_eq_Some_iff [simp del]

lemma ts_inv_iff:
  "ts_inv byID topic ts \<longleftrightarrow> groups_ok byID topic (ts_groups ts) \<and> universal_ok byID topic (ts_universal ts)"
proof (cases "distinct (map fst (ts_groups ts)) \<and> distinct (map fst (ts_universal ts))")
  case True
  then show ?thesis unfolding ts_inv_def groups_ok_def universal_ok_def by (simp only: alist_all simp_thms)
qed (auto simp: ts_inv_def groups_ok_def universal_ok_def)

text \<open>A subscription does not see changes of the index at identifiers it does not hold.\<close>

lemma ts_inv_frame:
  assumes "ts_inv byID topic ts"
    and frame: "\<And>c. ce_Topic c = topic \<Longrightarrow> byID (ce_ID c) = Some c \<Longrightarrow> byID' (ce_ID c) = Some c"
  shows "ts_inv byID' topic ts"
proof -
  have "groups_ok byID' topic (ts_groups ts)"
    using assms(1) frame unfolding ts_inv_iff groups_ok_def group_ok_def by blast
  moreover have "universal_ok byID' topic (ts_universal ts)"
    using assms(1) frame unfolding ts_inv_iff universal_ok_def by metis
  ultimately show ?thesis by (simp add: ts_inv_iff)
qed

lemma ts_inv_new: "ts_inv byID topic newTopicSubscription"
  by (simp add: ts_inv_def newTopicSubscription_def)

lemma ts_add_not_empty: "\<not> ts_isEmpty (ts_add ts c)"
  by (auto simp: ts_add_def ts_isEmpty_def)

lemma ts_add_inv:
  assumes inv: "ts_inv byID (ce_Topic c) ts" and fresh: "byID (ce_ID c) = None"
  shows "ts_inv (byID(ce_ID c \<mapsto> c)) (ce_Topic c) (ts_add ts c)"
proof -
  let ?byID = "byID(ce_ID c \<mapsto> c)"
  have frame: "ts_inv ?byID (ce_Topic c) ts"
    by (rule ts_inv_frame[OF inv]) (use fresh in auto)
  show ?thesis
  proof (cases "IsUniversal c")
    case True
    then have "universal_ok ?byID (ce_Topic c) (AList.update (ce_ID c) c (ts_universal ts))"
      using frame unfolding ts_inv_iff universal_ok_def IsUniversal_def by (simp add: alist_maps) metis
    with True frame show ?thesis by (simp add: ts_inv_iff ts_add_def)
  next
    case False
    define old where "old = map_get [] (ts_groups ts) (ce_Group c)"
    have "distinct (map ce_ID old) \<and> (\<forall>x\<in>set old. ce_Topic x = ce_Topic c \<and> ce_Group x = ce_Group c \<and>
        byID (ce_ID x) = Some x)"
      using inv unfolding old_def map_get_def ts_inv_iff groups_ok_def group_ok_def
      by (cases "map_of (ts_groups ts) (ce_Group c)") auto
    then have "group_ok ?byID (ce_Topic c) (ce_Group c) (old @ [c])"
      using fresh False by (auto simp: group_ok_def IsUniversal_def)
    then have "groups_ok ?byID (ce_Topic c) (AList.update (ce_Group c) (old @ [c]) (ts_groups ts))"
      using frame unfolding ts_inv_iff groups_ok_def by (simp add: alist_maps)
    with False frame show ?thesis by (simp add: ts_inv_iff ts_add_def old_def)
  qed
qed

lemma ts_member_add: "ts_member (ts_add ts c) c"
  by (simp add: ts_member_def ts_add_def update_conv' map_get_update)

lemma ts_member_add_other:
  "ts_member ts x \<Longrightarrow> ce_ID x \<noteq> ce_ID c \<Longrightarrow> ts_member (ts_add ts c) x"
  by (auto simp: ts_member_def ts_add_def update_conv' map_get_update)


lemma hub_inv_iff:
  "hub_inv h \<longleftrightarrow> distinct (map fst (hub_topics h)) \<and> distinct (map fst (hub_byID h)) \<and>
    (\<forall>topic ts. map_of (hub_topics h) topic = Some ts \<longrightarrow>
      ts_inv (map_of (hub_byID h)) topic ts \<and> \<not> ts_isEmpty ts) \<and>
    (\<forall>i c. map_of (hub_byID h) i = Some c \<longrightarrow> ce_ID c = i \<and>
      (\<exists>ts. map_of (hub_topics h) (ce_Topic c) = Some ts \<and> ts_member ts c))"
proof (cases "distinct (map fst (hub_topics h)) \<and> distinct (map fst (hub_byID h))")
  case True
  then show ?thesis unfolding hub_inv_def by (simp only: alist_all simp_thms)
qed (auto simp: hub_inv_def)

lemma hub_invI:
  assumes "distinct (map fst (hub_topics h))" and "distinct (map fst (hub_byID h))"
    and "\<And>topic ts. map_of (hub_topics h) topic = Some ts \<Longrightarrow> ts_inv (map_of (hub_byID h)) topic ts"
    and "\<And>topic ts. map_of (hub_topics h) topic = Some ts \<Longrightarrow> \<not> ts_isEmpty ts"
    and "\<And>i c. map_of (hub_byID h) i = Some c \<Longrightarrow> ce_ID c = i"
    and "\<And>i c. map_of (hub_byID h) i = Some c \<Longrightarrow>
      \<exists>ts. map_of (hub_topics h) (ce_Topic c) = Some ts \<and> ts_member ts c"
  shows "hub_inv h"
  using assms unfolding hub_inv_iff by blast

lemma hub_invD:
  assumes "hub_inv h"
  shows "distinct (map fst (hub_topics h))" and "distinct (map fst (hub_byID h))"
    and "map_of (hub_topics h) topic = Some ts \<Longrightarrow> ts_inv (map_of (hub_byID h)) topic ts"
    and "map_of (hub_topics h) topic = Some ts \<Longrightarrow> \<not> ts_isEmpty ts"
    and "map_of (hub_byID h) i = Some c \<Longrightarrow> ce_ID c = i"
    and "map_of (hub_byID h) i = Some c \<Longrightarrow> \<exists>ts. map_of (hub_topics h) (ce_Topic c) = Some ts \<and> ts_member ts c"
  using assms unfolding hub_inv_iff by blast+

lemma Register_inv:
  assumes inv: "hub_inv h" and fresh: "map_of (hub_byID h) i = None"
  shows "hub_inv (Hub_Register h i topic g ch)"
proof -
  note D = hub_invD[OF inv]
  define c where "c = \<lparr>ce_ID = i, ce_Topic = topic, ce_Group = g, ce_Ch = ch\<rparr>"
  define sub where "sub = (case map_of (hub_topics h) topic of None \<Rightarrow> newTopicSubscription | Some sub \<Rightarrow> sub)"
  have c: "ce_ID c = i" "ce_Topic c = topic" by (simp_all add: c_def)
  let ?byID = "(map_of (hub_byID h))(i \<mapsto> c)"
  let ?h = "Hub_Register h i topic g ch"
  have topics: "map_of (hub_topics ?h) = (map_of (hub_topics h))(topic \<mapsto> ts_add sub c)"
    and byID: "map_of (hub_byID ?h) = ?byID"
    and dist: "distinct (map fst (hub_topics ?h))" "distinct (map fst (hub_byID ?h))"
    using D(1,2) by (simp_all add: Hub_Register_def Let_def c_def sub_def alist_maps)
  have "ts_inv (map_of (hub_byID h)) topic sub"
    using D(3) ts_inv_new by (auto simp: sub_def split: option.split)
  then have add: "ts_inv ?byID topic (ts_add sub c)"
    using ts_add_inv[of "map_of (hub_byID h)" c sub] c fresh by simp
  show ?thesis
  proof (rule hub_invI[OF dist])
    fix t ts assume t: "map_of (hub_topics ?h) t = Some ts"
    show "ts_inv (map_of (hub_byID ?h)) t ts"
    proof (cases "t = topic")
      case True
      with t add show ?thesis by (simp add: topics byID)
    next
      case False
      with t have "ts_inv (map_of (hub_byID h)) t ts" using D(3) by (simp add: topics)
      then show ?thesis unfolding byID by (rule ts_inv_frame) (use fresh in auto)
    qed
    show "\<not> ts_isEmpty ts" using t D(4) ts_add_not_empty by (auto simp: topics split: if_splits)
  next
    fix j x assume j: "map_of (hub_byID ?h) j = Some x"
    then show "ce_ID x = j" using D(5) c by (auto simp: byID split: if_splits)
    show "\<exists>ts. map_of (hub_topics ?h) (ce_Topic x) = Some ts \<and> ts_member ts x"
    proof (cases "j = i")
      case True
      then show ?thesis using j c ts_member_add by (auto simp: byID topics)
    next
      case False
      with j have old: "map_of (hub_byID h) j = Some x" by (simp add: byID)
      then obtain ts where "map_of (hub_topics h) (ce_Topic x) = Some ts" "ts_member ts x" using D(6) by blast
      moreover have "ce_ID x \<noteq> ce_ID c" using D(5)[OF old] False c by simp
      ultimately show ?thesis using ts_member_add_other by (auto simp: topics sub_def)
    qed
  qed
qed


lemma cut_first_filter:
  "distinct (map ce_ID cs) \<Longrightarrow> cut_first i cs =
    (if i \<in> ce_ID ` set cs then Some (filter (\<lambda>x. ce_ID x \<noteq> i) cs) else None)"
proof (induction cs)
  case (Cons c cs)
  have "filter (\<lambda>x. ce_ID x \<noteq> ce_ID c) cs = cs"
    using Cons.prems by (intro filter_True) (metis distinct.simps(2) imageI list.map(2) list.set_map)
  with Cons show ?case by auto
qed simp

text \<open>Removing a grouped consumer filters its group, and drops the group when none is left.\<close>

lemma ts_remove_group:
  assumes inv: "ts_inv byID (ce_Topic c) ts" and mem: "ts_member ts c" and grp: "\<not> IsUniversal c"
  obtains cs where "map_of (ts_groups ts) (ce_Group c) = Some cs" and "c \<in> set cs"
    and "ts_universal (fst (ts_remove ts c)) = ts_universal ts"
    and "distinct (map fst (ts_groups (fst (ts_remove ts c))))"
    and "\<forall>g. map_of (ts_groups (fst (ts_remove ts c))) g =
      (if g = ce_Group c
       then (case filter (\<lambda>x. ce_ID x \<noteq> ce_ID c) cs of [] \<Rightarrow> None | rest \<Rightarrow> Some rest)
       else map_of (ts_groups ts) g)"
proof -
  have c: "c \<in> set (map_get [] (ts_groups ts) (ce_Group c))" using mem grp by (simp add: ts_member_def)
  then obtain cs where cs: "map_of (ts_groups ts) (ce_Group c) = Some cs" "c \<in> set cs"
    by (cases "map_of (ts_groups ts) (ce_Group c)") (simp_all add: map_get_def)
  have dist: "distinct (map ce_ID cs)" "distinct (map fst (ts_groups ts))"
    using inv cs(1) unfolding ts_inv_iff groups_ok_def group_ok_def by blast+
  then have cut: "cut_first (ce_ID c) cs = Some (filter (\<lambda>x. ce_ID x \<noteq> ce_ID c) cs)"
    using cs(2) by (simp add: cut_first_filter)
  show ?thesis
    by (rule that[OF cs])
      (use cs cut dist grp in \<open>simp_all add: ts_remove_def Let_def map_get_update alist_maps split: list.split\<close>)
qed

lemma ts_remove_universal:
  "IsUniversal c \<Longrightarrow> fst (ts_remove ts c) = ts\<lparr>ts_universal := AList.delete (ce_ID c) (ts_universal ts)\<rparr>"
  by (simp add: ts_remove_def Let_def)

lemma ts_remove_inv:
  assumes inv: "ts_inv byID (ce_Topic c) ts" and mem: "ts_member ts c"
  shows "ts_inv (byID(ce_ID c := None)) (ce_Topic c) (fst (ts_remove ts c))"
proof (cases "IsUniversal c")
  case True
  have other: "\<And>x g cs. map_of (ts_groups ts) g = Some cs \<Longrightarrow> x \<in> set cs \<Longrightarrow> ce_ID x \<noteq> ce_ID c"
  proof
    fix x g cs assume x: "map_of (ts_groups ts) g = Some cs" "x \<in> set cs" "ce_ID x = ce_ID c"
    then have "g \<noteq> ''''" "ce_Group x = g" "byID (ce_ID x) = Some x"
      using inv unfolding ts_inv_iff groups_ok_def group_ok_def by blast+
    moreover have "byID (ce_ID c) = Some c"
      using mem True inv unfolding ts_inv_iff universal_ok_def ts_member_def by metis
    ultimately have "x = c" using x(3) by (metis option.inject)
    with \<open>g \<noteq> ''''\<close> \<open>ce_Group x = g\<close> True show False unfolding IsUniversal_def by metis
  qed
  have "group_ok (byID(ce_ID c := None)) (ce_Topic c) g cs" if g: "map_of (ts_groups ts) g = Some cs" for g cs
  proof -
    have "group_ok byID (ce_Topic c) g cs" using inv g unfolding ts_inv_iff groups_ok_def by blast
    with other[OF g] show ?thesis by (simp add: group_ok_def)
  qed
  then have "groups_ok (byID(ce_ID c := None)) (ce_Topic c) (ts_groups ts)"
    using inv unfolding ts_inv_iff groups_ok_def by blast
  moreover have "universal_ok (byID(ce_ID c := None)) (ce_Topic c) (AList.delete (ce_ID c) (ts_universal ts))"
    using inv unfolding ts_inv_iff universal_ok_def by (simp add: alist_maps)
  ultimately show ?thesis using True by (simp add: ts_remove_universal ts_inv_iff)
next
  case False
  obtain cs where cs: "map_of (ts_groups ts) (ce_Group c) = Some cs" "c \<in> set cs"
    and rem: "ts_universal (fst (ts_remove ts c)) = ts_universal ts"
      "distinct (map fst (ts_groups (fst (ts_remove ts c))))"
      "\<forall>g. map_of (ts_groups (fst (ts_remove ts c))) g =
        (if g = ce_Group c
         then (case filter (\<lambda>x. ce_ID x \<noteq> ce_ID c) cs of [] \<Rightarrow> None | rest \<Rightarrow> Some rest)
         else map_of (ts_groups ts) g)"
    by (rule ts_remove_group[OF inv mem False]) (rule that; assumption)
  have byID: "byID (ce_ID c) = Some c"
    using inv cs unfolding ts_inv_iff groups_ok_def group_ok_def by blast
  have "group_ok (byID(ce_ID c := None)) (ce_Topic c) g gs"
    if g: "map_of (ts_groups (fst (ts_remove ts c))) g = Some gs" for g gs
  proof (cases "g = ce_Group c")
    case True
    with g rem(3)[rule_format, of g] have "gs = filter (\<lambda>x. ce_ID x \<noteq> ce_ID c) cs" "gs \<noteq> []" by (auto split: list.splits)
    moreover have "group_ok byID (ce_Topic c) g cs"
      using inv cs(1) True unfolding ts_inv_iff groups_ok_def by blast
    ultimately show ?thesis by (auto simp: group_ok_def distinct_map_filter)
  next
    case other: False
    then have "group_ok byID (ce_Topic c) g gs"
      using inv g rem(3)[rule_format, of g] unfolding ts_inv_iff groups_ok_def by simp
    moreover have "ce_ID x \<noteq> ce_ID c" if "x \<in> set gs" for x
    proof
      assume "ce_ID x = ce_ID c"
      moreover have "byID (ce_ID x) = Some x" "ce_Group x = g"
        using \<open>group_ok byID (ce_Topic c) g gs\<close> that unfolding group_ok_def by blast+
      ultimately show False using byID other by (metis option.inject)
    qed
    ultimately show ?thesis by (simp add: group_ok_def)
  qed
  moreover have "universal_ok (byID(ce_ID c := None)) (ce_Topic c) (ts_universal ts)"
    using inv byID False unfolding ts_inv_iff universal_ok_def IsUniversal_def by (metis fun_upd_other option.inject)
  ultimately show ?thesis by (simp add: ts_inv_iff groups_ok_def rem(1,2))
qed

lemma ts_member_remove_other:
  assumes inv: "ts_inv byID (ce_Topic c) ts" and mem: "ts_member ts c"
    and other: "ts_member ts x" "ce_ID x \<noteq> ce_ID c"
  shows "ts_member (fst (ts_remove ts c)) x"
proof (cases "IsUniversal c")
  case True
  with other show ?thesis by (auto simp: ts_remove_universal ts_member_def alist_maps)
next
  case False
  obtain cs where cs: "map_of (ts_groups ts) (ce_Group c) = Some cs" "c \<in> set cs"
    and rem: "ts_universal (fst (ts_remove ts c)) = ts_universal ts"
      "distinct (map fst (ts_groups (fst (ts_remove ts c))))"
      "\<forall>g. map_of (ts_groups (fst (ts_remove ts c))) g =
        (if g = ce_Group c
         then (case filter (\<lambda>x. ce_ID x \<noteq> ce_ID c) cs of [] \<Rightarrow> None | rest \<Rightarrow> Some rest)
         else map_of (ts_groups ts) g)"
    by (rule ts_remove_group[OF inv mem False]) (rule that; assumption)
  show ?thesis
  proof (cases "IsUniversal x")
    case True
    with other(1) rem(1) show ?thesis by (simp add: ts_member_def)
  next
    case x: False
    show ?thesis
    proof (cases "ce_Group x = ce_Group c")
      case True
      with other x cs have mem': "x \<in> set (filter (\<lambda>x. ce_ID x \<noteq> ce_ID c) cs)" by (simp add: ts_member_def)
      then have "map_of (ts_groups (fst (ts_remove ts c))) (ce_Group x) = Some (filter (\<lambda>x. ce_ID x \<noteq> ce_ID c) cs)"
        unfolding True using rem(3) by (cases "filter (\<lambda>x. ce_ID x \<noteq> ce_ID c) cs") simp_all
      then have "map_get [] (ts_groups (fst (ts_remove ts c))) (ce_Group x) = filter (\<lambda>x. ce_ID x \<noteq> ce_ID c) cs"
        by (rule map_get_Some)
      then show ?thesis unfolding ts_member_def using mem' x by (simp only: if_False)
    next
      case False
      then have "map_of (ts_groups (fst (ts_remove ts c))) (ce_Group x) = map_of (ts_groups ts) (ce_Group x)"
        using rem(3) by (simp only: if_False)
      then have "map_get [] (ts_groups (fst (ts_remove ts c))) (ce_Group x) = map_get [] (ts_groups ts) (ce_Group x)"
        by (simp only: map_get_def)
      then show ?thesis using other(1) x unfolding ts_member_def by (simp only: if_False)
    qed
  qed
qed

lemma ts_remove_snd: "snd (ts_remove ts c) = ts_isEmpty (fst (ts_remove ts c))"
  by (simp add: ts_remove_def Let_def)

lemma ts_member_not_empty: "ts_member ts c \<Longrightarrow> \<not> ts_isEmpty ts"
  by (auto simp: ts_member_def ts_isEmpty_def map_get_def split: if_splits)


lemma Unregister_topics:
  assumes inv: "hub_inv h" and c: "map_of (hub_byID h) i = Some c"
  obtains sub where "map_of (hub_topics h) (ce_Topic c) = Some sub" and "ts_member sub c" and "ce_ID c = i"
    and "ts_inv (map_of (hub_byID h)) (ce_Topic c) sub"
    and "distinct (map fst (hub_topics (Hub_Unregister h i)))"
    and "\<forall>t. map_of (hub_topics (Hub_Unregister h i)) t =
      (if t = ce_Topic c
       then (if ts_isEmpty (fst (ts_remove sub c)) then None else Some (fst (ts_remove sub c)))
       else map_of (hub_topics h) t)"
    and "hub_byID (Hub_Unregister h i) = AList.delete i (hub_byID h)"
proof -
  note D = hub_invD[OF inv]
  obtain sub where sub: "map_of (hub_topics h) (ce_Topic c) = Some sub" "ts_member sub c" using D(6)[OF c] by blast
  obtain sub' e where rem: "ts_remove sub c = (sub', e)" by fastforce
  then have e: "e = ts_isEmpty sub'" using ts_remove_snd[of sub c] by simp
  have "hub_topics (Hub_Unregister h i) =
      (if ts_isEmpty sub' then AList.delete (ce_Topic c) (hub_topics h)
       else AList.update (ce_Topic c) sub' (hub_topics h))"
    and "hub_byID (Hub_Unregister h i) = AList.delete i (hub_byID h)"
    using c sub(1) rem by (simp_all add: Hub_Unregister_def e split: bool.split)
  then show ?thesis
    using that[OF sub D(5)[OF c] D(3)[OF sub(1)]] D(1) rem by (simp add: alist_maps)
qed

lemma Unregister_inv:
  assumes inv: "hub_inv h"
  shows "hub_inv (Hub_Unregister h i)"
proof (cases "map_of (hub_byID h) i")
  case None
  then show ?thesis using inv by (simp add: Hub_Unregister_def)
next
  case (Some c)
  note D = hub_invD[OF inv]
  let ?h = "Hub_Unregister h i"
  obtain sub where sub: "map_of (hub_topics h) (ce_Topic c) = Some sub" "ts_member sub c" "ce_ID c = i"
      "ts_inv (map_of (hub_byID h)) (ce_Topic c) sub"
    and dist: "distinct (map fst (hub_topics ?h))"
    and topics: "\<forall>t. map_of (hub_topics ?h) t =
      (if t = ce_Topic c
       then (if ts_isEmpty (fst (ts_remove sub c)) then None else Some (fst (ts_remove sub c)))
       else map_of (hub_topics h) t)"
    and byID: "hub_byID ?h = AList.delete i (hub_byID h)"
    by (rule Unregister_topics[OF inv Some]) (rule that; assumption)
  have byID': "map_of (hub_byID ?h) = (map_of (hub_byID h))(ce_ID c := None)"
    unfolding byID sub(3) by (simp add: delete_conv')
  show ?thesis
  proof (rule hub_invI[OF dist])
    show "distinct (map fst (hub_byID ?h))" unfolding byID using D(2) by (rule distinct_delete)
  next
    fix t ts assume t: "map_of (hub_topics ?h) t = Some ts"
    show "ts_inv (map_of (hub_byID ?h)) t ts"
    proof (cases "t = ce_Topic c")
      case True
      with t topics have "ts = fst (ts_remove sub c)" by (simp split: if_splits)
      then show ?thesis unfolding byID' True using ts_remove_inv[OF sub(4,2)] by simp
    next
      case False
      then have "ts_inv (map_of (hub_byID h)) t ts" using t topics D(3) by simp
      then show ?thesis unfolding byID'
        by (rule ts_inv_frame) (use Some sub(3) False in \<open>metis fun_upd_other option.inject\<close>)
    qed
    show "\<not> ts_isEmpty ts" using t topics D(4) by (simp split: if_splits)
  next
    fix j x assume "map_of (hub_byID ?h) j = Some x"
    then have j: "map_of (hub_byID h) j = Some x" "j \<noteq> i" unfolding byID' sub(3) by (simp_all split: if_splits)
    show "ce_ID x = j" using D(5)[OF j(1)] .
    obtain ts where ts: "map_of (hub_topics h) (ce_Topic x) = Some ts" "ts_member ts x" using D(6)[OF j(1)] by blast
    show "\<exists>ts. map_of (hub_topics ?h) (ce_Topic x) = Some ts \<and> ts_member ts x"
    proof (cases "ce_Topic x = ce_Topic c")
      case True
      then have "ts = sub" using ts(1) sub(1) by simp
      then have "ts_member (fst (ts_remove sub c)) x"
        using ts_member_remove_other[OF sub(4,2)] ts(2) \<open>ce_ID x = j\<close> j(2) sub(3) by simp
      then show ?thesis using topics True ts_member_not_empty by simp
    next
      case False
      then show ?thesis using topics ts by simp
    qed
  qed
qed


section \<open>Dispatch\<close>

text \<open>The contract of a dispatch strategy, and what follows for the targets of a dispatch.\<close>

locale dispatch_strategy =
  fixes Select :: "'s \<Rightarrow> ConsumerEntry list \<Rightarrow> QueueMessage \<Rightarrow> 's \<times> ConsumerEntry option"
  assumes Select_none: "snd (Select s [] msg) = None"
    and Select_member: "cs \<noteq> [] \<Longrightarrow> length cs < 2 ^ 64 \<Longrightarrow> \<exists>c. snd (Select s cs msg) = Some c \<and> c \<in> set cs"
begin

lemma targets_groups:
  "\<forall>(g, cs)\<in>set groups. cs \<noteq> [] \<and> length cs < 2 ^ 64 \<Longrightarrow>
    map fst (snd (select_targets Select s msg groups)) = map fst groups"
proof (induction groups arbitrary: s)
  case (Cons gc groups)
  obtain g cs where gc: "gc = (g, cs)" by fastforce
  obtain s' c where "Select s cs msg = (s', Some c)"
    using Select_member[of cs s msg] Cons.prems gc by (metis (mono_tags, lifting) case_prodD list.set_intros(1) prod.collapse)
  with Cons.IH[of s'] Cons.prems gc show ?case by (auto split: prod.split)
qed simp

lemma targets_member:
  "\<forall>(g, cs)\<in>set groups. cs \<noteq> [] \<and> length cs < 2 ^ 64 \<Longrightarrow>
    (g, c) \<in> set (snd (select_targets Select s msg groups)) \<Longrightarrow> \<exists>cs. (g, cs) \<in> set groups \<and> c \<in> set cs"
proof (induction groups arbitrary: s)
  case (Cons gc groups)
  obtain g' cs where gc: "gc = (g', cs)" by fastforce
  obtain s' c' where sel: "Select s cs msg = (s', Some c')" "c' \<in> set cs"
    using Select_member[of cs s msg] Cons.prems(1) gc by (metis (mono_tags, lifting) case_prodD list.set_intros(1) prod.collapse)
  with Cons.prems(2) gc have "(g, c) = (g', c') \<or> (g, c) \<in> set (snd (select_targets Select s' msg groups))"
    by (auto split: prod.splits)
  then show ?case using Cons.IH[of s'] Cons.prems(1) gc sel(2) by auto
qed simp

end

text \<open>A dispatch selects first and sends then: the strategy does not look at the channels.\<close>

lemma trySend_strategy:
  "Hub_trySend (h\<lparr>hub_strategy := s\<rparr>) c msg tag =
    (case Hub_trySend h c msg tag of (h', ok) \<Rightarrow> (h'\<lparr>hub_strategy := s\<rparr>, ok))"
  by (simp add: Hub_trySend_def split: prod.split)

lemma trySend_frame:
  assumes "Hub_trySend h c msg tag = (h', ok)"
  shows "hub_topics h' = hub_topics h" and "hub_byID h' = hub_byID h" and "hub_strategy h' = hub_strategy h"
  using assms by (auto simp: Hub_trySend_def split: prod.splits if_splits)

lemma send_targets_strategy:
  "send_targets (h\<lparr>hub_strategy := s\<rparr>) msg tag ts sent =
    (case send_targets h msg tag ts sent of (h', sent') \<Rightarrow> (h'\<lparr>hub_strategy := s\<rparr>, sent'))"
  by (induction h msg tag ts sent rule: send_targets.induct)
    (auto simp: trySend_strategy split: prod.splits bool.splits)

lemma dispatch_groups_targets:
  "dispatch_groups Select h msg tag groups sent =
    (case select_targets Select (hub_strategy h) msg groups of
       (s', ts) \<Rightarrow> send_targets (h\<lparr>hub_strategy := s'\<rparr>) msg tag ts sent)"
proof (induction groups arbitrary: h sent)
  case (Cons gc groups)
  obtain g cs where gc: "gc = (g, cs)" by fastforce
  obtain s1 sel where sel: "Select (hub_strategy h) cs msg = (s1, sel)" by fastforce
  obtain s2 ts where ts: "select_targets Select s1 msg groups = (s2, ts)" by fastforce
  show ?case
  proof (cases sel)
    case None
    then show ?thesis using Cons.IH[of "h\<lparr>hub_strategy := s1\<rparr>"] gc sel ts by simp
  next
    case (Some c)
    obtain h1 ok where h1: "Hub_trySend h c msg tag = (h1, ok)" by fastforce
    then show ?thesis
      using Some Cons.IH[of "h1\<lparr>hub_strategy := s1\<rparr>"] gc sel ts
      by (cases ok) (simp_all add: trySend_strategy)
  qed
qed simp

lemma dispatch_universal_targets:
  "dispatch_universal h msg tag us sent = send_targets h msg tag (map (Pair '''') us) sent"
  by (induction us arbitrary: h sent) (auto split: prod.split bool.split)

lemma send_targets_append:
  "send_targets h msg tag (ts @ us) sent =
    (case send_targets h msg tag ts sent of (h', sent') \<Rightarrow> send_targets h' msg tag us sent')"
  by (induction h msg tag ts sent rule: send_targets.induct) (auto split: prod.split bool.split)

lemma DispatchToTopic_targets:
  assumes "map_of (hub_topics h) topic = Some sub"
    and "select_targets Select (hub_strategy h) msg (gorder (ts_groups sub)) = (s', ts)"
  shows "DispatchToTopic Select gorder uorder h topic msg tag =
    send_targets (h\<lparr>hub_strategy := s'\<rparr>) msg tag (ts @ map (Pair '''') (map snd (uorder (ts_universal sub)))) []"
  using assms by (simp add: DispatchToTopic_def groupSnapshot_def universalSnapshot_def dispatch_groups_targets
      dispatch_universal_targets send_targets_append split: prod.split)

lemma send_targets_frame:
  "send_targets h msg tag ts sent = (h', sent') \<Longrightarrow> hub_topics h' = hub_topics h \<and> hub_byID h' = hub_byID h"
  by (induction h msg tag ts sent rule: send_targets.induct)
    (auto split: prod.splits bool.splits dest: trySend_frame)

lemma send_targets_appends:
  "send_targets h msg tag ts sent = (h', sent') \<Longrightarrow>
    \<exists>m. hub_chans h' ch = (fst (hub_chans h ch) @ replicate m msg, snd (hub_chans h ch))"
proof (induction h msg tag ts sent rule: send_targets.induct)
  case (1 h msg tag sent)
  then show ?case by (simp add: exI[of _ 0])
next
  case (2 h msg tag g c ts sent)
  obtain h1 ok where h1: "Hub_trySend h c msg tag = (h1, ok)" by fastforce
  then obtain m where m: "hub_chans h' ch = (fst (hub_chans h1 ch) @ replicate m msg, snd (hub_chans h1 ch))"
    using 2 by (cases ok) auto
  from h1 consider "hub_chans h1 ch = hub_chans h ch"
    | "hub_chans h1 ch = (fst (hub_chans h ch) @ [msg], snd (hub_chans h ch))"
    by (cases "ch = ce_Ch c") (auto simp: Hub_trySend_def split: prod.splits if_splits)
  then show ?case
  proof cases
    case 2
    with m show ?thesis by (intro exI[of _ "Suc m"]) simp
  qed (use m in auto)
qed

text \<open>With distinct channels that have room, every target gets the message and no other channel changes.\<close>

lemma send_targets_room:
  "distinct (map (ce_Ch \<circ> snd) ts) \<Longrightarrow> \<forall>(g, c)\<in>set ts. has_room h c \<Longrightarrow>
    \<exists>h'. send_targets h msg tag ts sent = (h', sent @ map fst ts) \<and>
      (\<forall>ch. hub_chans h' ch = (if ch \<in> (ce_Ch \<circ> snd) ` set ts
        then (fst (hub_chans h ch) @ [msg], snd (hub_chans h ch)) else hub_chans h ch))"
proof (induction ts arbitrary: h sent)
  case (Cons gc ts)
  obtain g c where gc: "gc = (g, c)" by fastforce
  obtain buf cap where ch: "hub_chans h (ce_Ch c) = (buf, cap)" by fastforce
  have room: "length buf < cap" using Cons.prems(2) gc ch by (simp add: has_room_def)
  obtain h1 where h1: "Hub_trySend h c msg tag = (h1, True)"
      "hub_chans h1 = (hub_chans h)(ce_Ch c := (buf @ [msg], cap))"
    using ch room by (simp add: Hub_trySend_def)
  have "\<forall>(g, d)\<in>set ts. has_room h1 d"
    using Cons.prems gc h1(2) by (force simp: has_room_def)
  with Cons.IH[of h1 "sent @ [g]"] Cons.prems(1) obtain h' where
    h': "send_targets h1 msg tag ts (sent @ [g]) = (h', (sent @ [g]) @ map fst ts)"
      "\<forall>ch. hub_chans h' ch = (if ch \<in> (ce_Ch \<circ> snd) ` set ts
        then (fst (hub_chans h1 ch) @ [msg], snd (hub_chans h1 ch)) else hub_chans h1 ch)"
    by auto
  have "ce_Ch c \<notin> (ce_Ch \<circ> snd) ` set ts" using Cons.prems(1) gc by simp
  then show ?case using gc h1 h' ch by auto
qed auto

interpretation rr: dispatch_strategy RoundRobin_Select
proof
  fix s :: RoundRobinStrategy and msg
  show "snd (RoundRobin_Select s [] msg) = None" by (simp add: RoundRobin_Select_def)
next
  fix s :: RoundRobinStrategy and cs :: "ConsumerEntry list" and msg
  assume cs: "cs \<noteq> []" "length cs < 2 ^ 64"
  define idx where "idx = map_get 0 s (GroupKey (cs ! 0))"
  have "unat (of_nat (length cs) :: u64) = length cs" using cs(2) by (simp add: unat_of_nat)
  then have "unat (idx mod of_nat (length cs)) < length cs"
    using cs(1) by (simp add: unat_mod_distrib)
  then show "\<exists>c. snd (RoundRobin_Select s cs msg) = Some c \<and> c \<in> set cs"
    using cs(1) by (simp add: RoundRobin_Select_def Let_def idx_def)
qed


lemma distinct_map_comp: "distinct (map (f \<circ> g) xs) \<Longrightarrow> distinct (map g xs)"
  by (metis distinct_map map_map)

text \<open>The targets of a dispatch are registered consumers of the topic, no two the same.\<close>

lemma dispatch_targets:
  assumes inv: "hub_inv h" and sub: "map_of (hub_topics h) topic = Some sub"
    and ord: "range_order gorder" "range_order uorder"
    and sizes: "list_all (\<lambda>(g, cs). length cs < 2 ^ 64) (ts_groups sub)"
    and sel: "select_targets RoundRobin_Select s msg (gorder (ts_groups sub)) = (s', ts)"
  defines "all \<equiv> ts @ map (Pair '''') (map snd (uorder (ts_universal sub)))"
  shows "map fst ts = map fst (gorder (ts_groups sub))"
    and "\<And>g c. (g, c) \<in> set ts \<Longrightarrow> \<exists>cs. map_of (ts_groups sub) g = Some cs \<and> c \<in> set cs"
    and "\<And>g c. (g, c) \<in> set all \<Longrightarrow> ce_Topic c = topic \<and> ce_Group c = g \<and> map_of (hub_byID h) (ce_ID c) = Some c"
    and "distinct (map snd all)"
proof -
  have tsi: "ts_inv (map_of (hub_byID h)) topic sub" by (rule hub_invD(3)[OF inv sub])
  note gok = tsi[unfolded ts_inv_iff groups_ok_def, THEN conjunct1]
  note uok = tsi[unfolded ts_inv_iff universal_ok_def, THEN conjunct2]
  have sets: "set (gorder (ts_groups sub)) = set (ts_groups sub)" "set (uorder (ts_universal sub)) = set (ts_universal sub)"
    using ord unfolding range_order_def by (metis set_mset_mset)+
  have grp: "map_of (ts_groups sub) g = Some cs" if "(g, cs) \<in> set (ts_groups sub)" for g cs
    using that gok by simp
  have uni: "map_of (ts_universal sub) i = Some c" if "(i, c) \<in> set (ts_universal sub)" for i c
    using that uok by simp
  have "\<forall>(g, cs)\<in>set (gorder (ts_groups sub)). cs \<noteq> [] \<and> length cs < 2 ^ 64"
    using sizes grp gok sets unfolding list_all_iff group_ok_def by blast
  note T = rr.targets_groups[OF this, of s msg, unfolded sel, simplified] rr.targets_member[OF this, of _ _ s msg, unfolded sel, simplified]
  show T1: "map fst ts = map fst (gorder (ts_groups sub))" by (rule T(1))
  show T2: "\<exists>cs. map_of (ts_groups sub) g = Some cs \<and> c \<in> set cs" if "(g, c) \<in> set ts" for g c
  proof -
    obtain cs where "(g, cs) \<in> set (gorder (ts_groups sub))" "c \<in> set cs" using T(2)[OF \<open>(g, c) \<in> set ts\<close>] by blast
    then show ?thesis using grp[of g cs] sets(1) by simp
  qed
  have grouped: "ce_Topic c = topic \<and> ce_Group c = g \<and> g \<noteq> '''' \<and> map_of (hub_byID h) (ce_ID c) = Some c"
    if mem: "(g, c) \<in> set ts" for g c
  proof -
    obtain cs where cs: "map_of (ts_groups sub) g = Some cs" "c \<in> set cs" using T2[OF mem] by blast
    then have "group_ok (map_of (hub_byID h)) topic g cs" using gok by simp
    with cs(2) show ?thesis by (simp add: group_ok_def)
  qed
  have univ: "ce_ID c = i \<and> ce_Topic c = topic \<and> ce_Group c = '''' \<and> map_of (hub_byID h) i = Some c"
    if mem: "(i, c) \<in> set (uorder (ts_universal sub))" for i c
  proof -
    have "map_of (ts_universal sub) i = Some c" using mem uni[of i c] sets(2) by simp
    then show ?thesis using uok by (elim conjE allE[of _ i] allE[of _ c]) simp
  qed
  show "ce_Topic c = topic \<and> ce_Group c = g \<and> map_of (hub_byID h) (ce_ID c) = Some c" if "(g, c) \<in> set all" for g c
    using that grouped univ by (auto simp: all_def)
  have "map (ce_Group \<circ> snd) ts = map fst ts" using grouped by (auto simp: map_eq_conv)
  moreover have "mset (map fst ts) = mset (map fst (ts_groups sub))"
    using T1 ord(1) by (simp add: range_order_def)
  then have "distinct (map fst ts)" using gok mset_eq_imp_distinct_iff by blast
  ultimately have "distinct (map snd ts)" using distinct_map_comp[of ce_Group snd ts] by (simp only:)
  moreover have "map (ce_ID \<circ> snd) (uorder (ts_universal sub)) = map fst (uorder (ts_universal sub))"
    using univ by (auto simp: map_eq_conv)
  moreover have "mset (map fst (uorder (ts_universal sub))) = mset (map fst (ts_universal sub))"
    using ord(2) by (simp add: range_order_def)
  then have "distinct (map fst (uorder (ts_universal sub)))" using uok mset_eq_imp_distinct_iff by blast
  ultimately have "distinct (map snd ts)" "distinct (map snd (uorder (ts_universal sub)))"
    using distinct_map_comp[of ce_ID snd "uorder (ts_universal sub)"] by (simp_all only:)
  moreover have "set (map snd ts) \<inter> set (map snd (uorder (ts_universal sub))) = {}"
    using grouped univ by fastforce
  ultimately show "distinct (map snd all)" by (simp add: all_def comp_def)
qed


lemma DispatchToTopic_frame:
  assumes "DispatchToTopic Select gorder uorder h topic msg tag = (h', sentTo)"
  shows "hub_topics h' = hub_topics h" and "hub_byID h' = hub_byID h"
    and "\<exists>m. hub_chans h' ch = (fst (hub_chans h ch) @ replicate m msg, snd (hub_chans h ch))"
proof -
  have "hub_topics h' = hub_topics h \<and> hub_byID h' = hub_byID h \<and>
    (\<exists>m. hub_chans h' ch = (fst (hub_chans h ch) @ replicate m msg, snd (hub_chans h ch)))"
  proof (cases "map_of (hub_topics h) topic")
    case None
    with assms show ?thesis by (simp add: DispatchToTopic_def exI[of _ 0])
  next
    case (Some sub)
    obtain s' ts where ts: "select_targets Select (hub_strategy h) msg (gorder (ts_groups sub)) = (s', ts)" by fastforce
    have "send_targets (h\<lparr>hub_strategy := s'\<rparr>) msg tag (ts @ map (Pair '''') (map snd (uorder (ts_universal sub)))) [] = (h', sentTo)"
      using assms DispatchToTopic_targets[where gorder = gorder and Select = Select, OF Some ts] by simp
    from send_targets_frame[OF this] send_targets_appends[OF this, of ch] show ?thesis by simp
  qed
  then show "hub_topics h' = hub_topics h" and "hub_byID h' = hub_byID h"
    and "\<exists>m. hub_chans h' ch = (fst (hub_chans h ch) @ replicate m msg, snd (hub_chans h ch))" by blast+
qed

lemma hub_inv_cong:
  "hub_topics h' = hub_topics h \<Longrightarrow> hub_byID h' = hub_byID h \<Longrightarrow> hub_inv h' \<longleftrightarrow> hub_inv h"
  by (simp only: hub_inv_def)

lemma DispatchToTopic_inv:
  assumes inv: "hub_inv h"
  shows "hub_inv (fst (DispatchToTopic Select gorder uorder h topic msg tag))"
proof -
  obtain h' sent where "DispatchToTopic Select gorder uorder h topic msg tag = (h', sent)" by fastforce
  with inv hub_inv_cong[OF DispatchToTopic_frame(1,2)[OF this]] show ?thesis by simp
qed

lemma ts_nonempty: "\<not> ts_isEmpty ts \<Longrightarrow> (\<exists>x. x \<in> set (ts_groups ts)) \<or> (\<exists>x. x \<in> set (ts_universal ts))"
  unfolding ts_isEmpty_def by (metis length_0_conv list.set_sel(1))

lemma topics_of_consumers:
  assumes inv: "hub_inv h"
  shows "fst ` set (hub_topics h) = ce_Topic ` snd ` set (hub_byID h)"
proof
  show "ce_Topic ` snd ` set (hub_byID h) \<subseteq> fst ` set (hub_topics h)"
    using inv unfolding hub_inv_def by (force dest: map_of_SomeD)
  show "fst ` set (hub_topics h) \<subseteq> ce_Topic ` snd ` set (hub_byID h)"
  proof
    fix t assume "t \<in> fst ` set (hub_topics h)"
    then obtain ts where ts: "map_of (hub_topics h) t = Some ts"
      by (metis map_of_eq_None_iff not_None_eq)
    have tsi: "ts_inv (map_of (hub_byID h)) t ts" "\<not> ts_isEmpty ts" using hub_invD(3,4)[OF inv ts] by auto
    then consider g cs where "(g, cs) \<in> set (ts_groups ts)" | i c where "(i, c) \<in> set (ts_universal ts)"
      using ts_nonempty by (metis surj_pair)
    then have "\<exists>c. ce_Topic c = t \<and> map_of (hub_byID h) (ce_ID c) = Some c"
    proof cases
      case (1 g cs)
      then have "group_ok (map_of (hub_byID h)) t g cs" using tsi(1) unfolding ts_inv_def by blast
      then show ?thesis unfolding group_ok_def by (metis list.set_sel(1))
    next
      case (2 i c)
      then show ?thesis using tsi(1) unfolding ts_inv_def by blast
    qed
    then show "t \<in> ce_Topic ` snd ` set (hub_byID h)" by (force dest: map_of_SomeD)
  qed
qed

text \<open>What the channels of a topic look like after its targets got the message.\<close>

lemma dispatch_outcome:
  assumes inv: "hub_inv h" and sub: "map_of (hub_topics h) topic = Some sub"
    and uord: "range_order uorder" and gord: "range_order gorder"
    and groups: "map fst ts = map fst (gorder (ts_groups sub))"
    and member: "\<And>g c. (g, c) \<in> set ts \<Longrightarrow> \<exists>cs. map_of (ts_groups sub) g = Some cs \<and> c \<in> set cs"
    and reg: "\<And>g c. (g, c) \<in> set all \<Longrightarrow> ce_Topic c = topic \<and> ce_Group c = g \<and> map_of (hub_byID h) (ce_ID c) = Some c"
    and inj: "\<And>c d. map_of (hub_byID h) (ce_ID c) = Some c \<Longrightarrow> map_of (hub_byID h) (ce_ID d) = Some d \<Longrightarrow>
      ce_Ch c = ce_Ch d \<Longrightarrow> c = d"
    and all: "all = ts @ map (Pair '''') (map snd (uorder (ts_universal sub)))"
    and chans: "\<forall>ch. hub_chans h' ch = (if ch \<in> (ce_Ch \<circ> snd) ` set all
        then (fst (hub_chans h ch) @ [msg], snd (hub_chans h ch)) else hub_chans h ch)"
  shows "list_all (\<lambda>(g, cs). \<exists>c. c \<in> set cs \<and> delivered h h' msg c \<and> list_all (\<lambda>d. d = c \<or> untouched h h' d) cs) (ts_groups sub)"
    and "list_all (\<lambda>(i, c). delivered h h' msg c) (ts_universal sub)"
    and "list_all (\<lambda>(i, c). ce_Topic c = topic \<or> untouched h h' c) (hub_byID h)"
proof -
  have tsi: "ts_inv (map_of (hub_byID h)) topic sub" by (rule hub_invD(3)[OF inv sub])
  have sets: "set (gorder (ts_groups sub)) = set (ts_groups sub)" "set (uorder (ts_universal sub)) = set (ts_universal sub)"
    using gord uord unfolding range_order_def by (metis set_mset_mset)+
  have hit: "delivered h h' msg c" if "(g, c) \<in> set all" for g c
    using chans that unfolding delivered_def by force
  have miss: "untouched h h' d" if d: "map_of (hub_byID h) (ce_ID d) = Some d" and "\<And>g. (g, d) \<notin> set all" for d
  proof -
    have "ce_Ch d \<notin> (ce_Ch \<circ> snd) ` set all" using reg inj[OF d] that(2) by fastforce
    then show ?thesis using chans unfolding untouched_def by simp
  qed
  show "list_all (\<lambda>(g, cs). \<exists>c. c \<in> set cs \<and> delivered h h' msg c \<and> list_all (\<lambda>d. d = c \<or> untouched h h' d) cs) (ts_groups sub)"
    unfolding list_all_iff
  proof clarify
    fix g cs assume gcs: "(g, cs) \<in> set (ts_groups sub)"
    have gok: "group_ok (map_of (hub_byID h)) topic g cs" and dist: "distinct (map fst (ts_groups sub))"
      using tsi gcs unfolding ts_inv_def by blast+
    have "g \<in> fst ` set ts" using groups gcs sets(1) by (metis fst_conv image_eqI list.set_map)
    then obtain c where c: "(g, c) \<in> set ts" by force
    have "map_of (ts_groups sub) g = Some cs" using gcs dist by simp
    then have "c \<in> set cs" using member[OF c] by simp
    moreover have "delivered h h' msg c" using hit[of g c] c all by simp
    moreover have "untouched h h' d" if "d \<in> set cs" "d \<noteq> c" for d
    proof (rule miss)
      show "map_of (hub_byID h) (ce_ID d) = Some d" using gok that(1) by (simp add: group_ok_def)
      have "distinct (map fst ts)" using groups gord dist mset_eq_imp_distinct_iff
        unfolding range_order_def by (metis mset_map)
      then have "(g, d) \<notin> set ts" using c that(2) by (metis eq_key_imp_eq_value)
      moreover have "ce_Group d = g" "g \<noteq> ''''" using gok that(1) by (simp_all add: group_ok_def)
      ultimately show "(g', d) \<notin> set all" for g' using reg[of g' d] all by auto
    qed
    ultimately show "\<exists>c. c \<in> set cs \<and> delivered h h' msg c \<and> (\<forall>d\<in>set cs. d = c \<or> untouched h h' d)" by blast
  qed
  show "list_all (\<lambda>(i, c). delivered h h' msg c) (ts_universal sub)"
    unfolding list_all_iff using hit sets(2) all by force
  show "list_all (\<lambda>(i, c). ce_Topic c = topic \<or> untouched h h' c) (hub_byID h)"
    unfolding list_all_iff
  proof clarify
    fix i c assume "(i, c) \<in> set (hub_byID h)" "\<not> untouched h h' c"
    moreover from this(1) have "map_of (hub_byID h) (ce_ID c) = Some c" using inv unfolding hub_inv_def by force
    ultimately show "ce_Topic c = topic" using miss reg by blast
  qed
qed

lemma dispatch_room:
  assumes inv: "hub_inv h" and sub: "map_of (hub_topics h) topic = Some sub"
    and ord: "range_order gorder" "range_order uorder"
    and sizes: "list_all (\<lambda>(g, cs). length cs < 2 ^ 64) (ts_groups sub)"
    and chans: "distinct (map (ce_Ch \<circ> snd) (hub_byID h))"
    and room: "list_all (\<lambda>(i, c). ce_Topic c \<noteq> topic \<or> has_room h c) (hub_byID h)"
    and D: "DispatchToTopic RoundRobin_Select gorder uorder h topic msg tag = (h', sentTo)"
  shows "mset sentTo = mset (map fst (ts_groups sub)) + replicate_mset (length (ts_universal sub)) '''' \<and>
    list_all (\<lambda>(g, cs). \<exists>c. c \<in> set cs \<and> delivered h h' msg c \<and> list_all (\<lambda>d. d = c \<or> untouched h h' d) cs) (ts_groups sub) \<and>
    list_all (\<lambda>(i, c). delivered h h' msg c) (ts_universal sub) \<and>
    list_all (\<lambda>(i, c). ce_Topic c = topic \<or> untouched h h' c) (hub_byID h)"
    and "hub_chans h' ch = hub_chans h ch \<or> hub_chans h' ch = (fst (hub_chans h ch) @ [msg], snd (hub_chans h ch))"
proof -
  obtain s' ts where sel: "select_targets RoundRobin_Select (hub_strategy h) msg (gorder (ts_groups sub)) = (s', ts)" by fastforce
  define tgts where "tgts = ts @ map (Pair '''') (map snd (uorder (ts_universal sub)))"
  note T = dispatch_targets[OF inv sub ord sizes sel, folded tgts_def]
  have inj: "c = d" if "map_of (hub_byID h) (ce_ID c) = Some c" "map_of (hub_byID h) (ce_ID d) = Some d" "ce_Ch c = ce_Ch d" for c d
    using chans map_of_SomeD[OF that(1)] map_of_SomeD[OF that(2)] that(3) unfolding distinct_map inj_on_def by fastforce
  have same: "hub_chans (h\<lparr>hub_strategy := s'\<rparr>) = hub_chans h" by simp
  have "has_room h c" if "(g, c) \<in> set tgts" for g c
    using T(3)[OF that] room unfolding list_all_iff by (fastforce dest: map_of_SomeD)
  then have free: "\<forall>(g, c)\<in>set tgts. has_room (h\<lparr>hub_strategy := s'\<rparr>) c" by (auto simp: has_room_def)
  have "distinct (map (ce_Ch \<circ> snd) tgts)"
    using T(4) T(3) inj unfolding distinct_map inj_on_def by (metis comp_apply prod.collapse)
  from send_targets_room[OF this free, of msg tag "[]"]
  obtain h1 where send: "send_targets (h\<lparr>hub_strategy := s'\<rparr>) msg tag tgts [] = (h1, map fst tgts)"
      "\<forall>ch. hub_chans h1 ch = (if ch \<in> (ce_Ch \<circ> snd) ` set tgts
        then (fst (hub_chans h ch) @ [msg], snd (hub_chans h ch)) else hub_chans h ch)"
    unfolding same append_Nil by blast
  have h': "h' = h1" "sentTo = map fst tgts"
    using D send(1) unfolding DispatchToTopic_targets[where gorder = gorder, OF sub sel] tgts_def by simp_all
  have "mset (map fst ts) = mset (map fst (ts_groups sub))" using T(1) ord(1) by (simp add: range_order_def)
  moreover have "length (uorder (ts_universal sub)) = length (ts_universal sub)"
    using ord(2) unfolding range_order_def by (metis size_mset)
  ultimately have "mset sentTo = mset (map fst (ts_groups sub)) + replicate_mset (length (ts_universal sub)) ''''"
    unfolding h'(2) tgts_def by (simp add: comp_def map_replicate_const)
  then show "mset sentTo = mset (map fst (ts_groups sub)) + replicate_mset (length (ts_universal sub)) '''' \<and>
    list_all (\<lambda>(g, cs). \<exists>c. c \<in> set cs \<and> delivered h h' msg c \<and> list_all (\<lambda>d. d = c \<or> untouched h h' d) cs) (ts_groups sub) \<and>
    list_all (\<lambda>(i, c). delivered h h' msg c) (ts_universal sub) \<and>
    list_all (\<lambda>(i, c). ce_Topic c = topic \<or> untouched h h' c) (hub_byID h)"
    using dispatch_outcome[OF inv sub ord(2,1) T(1-3) inj tgts_def send(2)] unfolding h'(1) by blast
  show "hub_chans h' ch = hub_chans h ch \<or> hub_chans h' ch = (fst (hub_chans h ch) @ [msg], snd (hub_chans h ch))"
    using send(2) unfolding h'(1) by simp
qed

section \<open>Fairness of round robin\<close>

lemma rr_step:
  assumes cs: "cs \<noteq> []" "length cs < 2 ^ 64" and idx: "unat (map_get 0 s (GroupKey (cs ! 0))) = i" "i < length cs"
  shows "\<exists>s'. RoundRobin_Select s cs msg = (s', Some (cs ! i)) \<and>
    unat (map_get 0 s' (GroupKey (cs ! 0))) = Suc i mod length cs"
proof -
  let ?i = "map_get 0 s (GroupKey (cs ! 0))" and ?n = "of_nat (length cs) :: u64"
  have n: "unat ?n = length cs" using cs(2) by (simp add: unat_of_nat)
  have "unat (?i mod ?n) = i" using idx n by (simp add: unat_mod_distrib)
  moreover have "unat (?i + 1) = Suc i" using idx cs(2) by (simp add: unat_word_ariths)
  then have "unat ((?i + 1) mod ?n) = Suc i mod length cs" using n by (simp add: unat_mod_distrib)
  ultimately show ?thesis using cs(1) by (simp add: RoundRobin_Select_def Let_def map_get_update)
qed

lemma rr_picks_cycle:
  assumes cs: "cs \<noteq> []" "length cs < 2 ^ 64"
  shows "unat (map_get 0 s (GroupKey (cs ! 0))) = i \<Longrightarrow> i < length cs \<Longrightarrow>
    rr_picks s cs msgs = map (\<lambda>k. Some (cs ! ((i + k) mod length cs))) [0..<length msgs]"
proof (induction msgs arbitrary: s i)
  case (Cons msg msgs)
  obtain s' where s': "RoundRobin_Select s cs msg = (s', Some (cs ! i))"
      "unat (map_get 0 s' (GroupKey (cs ! 0))) = Suc i mod length cs"
    using rr_step[OF cs Cons.prems] by blast
  have "rr_picks s cs (msg # msgs) = Some (cs ! i) # map (\<lambda>k. Some (cs ! ((Suc i mod length cs + k) mod length cs))) [0..<length msgs]"
    using Cons.IH[OF s'(2)] cs(1) s'(1) by simp
  also have "\<dots> = map (\<lambda>k. Some (cs ! ((i + k) mod length cs))) (0 # map Suc [0..<length msgs])"
    using Cons.prems(2) by (simp add: mod_simps)
  finally show ?case by (simp only: list.size add_0_right add_Suc_right upt_conv_Cons map_Suc_upt zero_less_Suc)
qed simp

section \<open>Properties\<close>

text \<open>C13: the registry is consistent in every state a hub can reach: the identifier index and
  the topic tree hold the same consumers, each under the topic and group it subscribed with,
  no empty group or subscription stays behind, the active topics are exactly the topics of
  connected consumers, and \<open>HasConsumers\<close> tells whether there is one.\<close>

theorem hub_registry_invariant:
  assumes "hub_reach h" and "range_order order"
  shows "hub_inv h \<and> set (ActiveTopics order h) = ce_Topic ` snd ` set (hub_byID h) \<and>
    (HasConsumers h \<longleftrightarrow> ActiveTopics order h \<noteq> [])"
proof -
  have "hub_inv h"
    using assms(1)
  proof induction
    case (step h h')
    from step.hyps(2) step.IH show ?case
    proof cases
      case (register i topic g ch)
      then show ?thesis using Register_inv step.IH by blast
    next
      case (unregister i)
      then show ?thesis using Unregister_inv step.IH by blast
    next
      case (dispatch gorder uorder topic msg tag)
      then show ?thesis using step.IH DispatchToTopic_inv by blast
    next
      case (remove i key)
      then show ?thesis using step.IH by (simp add: RemoveInFlightForConsumer_def Let_def hub_inv_def)
    qed (use step.IH in \<open>simp_all add: hub_inv_def\<close>)
  qed (simp add: NewHub_def hub_inv_def)
  moreover have "set (ActiveTopics order h) = fst ` set (hub_topics h)"
    using assms(2) unfolding ActiveTopics_def range_order_def by (metis list.set_map set_mset_mset)
  ultimately have "set (ActiveTopics order h) = ce_Topic ` snd ` set (hub_byID h)"
    using topics_of_consumers by metis
  with \<open>hub_inv h\<close> show ?thesis by (auto simp: HasConsumers_def)
qed


theorem hub_registry_invariant_witness:
  "let h = Hub_Unregister (Hub_Register (Hub_Register (NewHub NewRoundRobinStrategy (\<lambda>_. ([], 8))) ''x'' ''t'' ''g'' 0)
       ''y'' ''u'' '''' 1) ''x''
   in hub_inv h \<and> set (ActiveTopics id h) = ce_Topic ` snd ` set (hub_byID h) \<and> ActiveTopics id h = [''u'']"
proof -
  let ?h0 = "NewHub NewRoundRobinStrategy (\<lambda>_. ([], 8))"
  let ?h1 = "Hub_Register ?h0 ''x'' ''t'' ''g'' 0" and ?h2 = "Hub_Register (Hub_Register ?h0 ''x'' ''t'' ''g'' 0) ''y'' ''u'' '''' 1"
  have "hub_reach ?h1" by (rule hub_reach.step[OF hub_reach.init hub_step.register]) (simp add: NewHub_def)
  then have "hub_reach ?h2"
    by (rule hub_reach.step[OF _ hub_step.register]) (simp add: Hub_Register_def NewHub_def Let_def)
  then have "hub_reach (Hub_Unregister ?h2 ''x'')" by (rule hub_reach.step[OF _ hub_step.unregister])
  moreover have "ActiveTopics id (Hub_Unregister ?h2 ''x'') = [''u'']" by code_simp
  ultimately show ?thesis
    using hub_registry_invariant[of "Hub_Unregister ?h2 ''x''" id] by (simp add: Let_def range_order_def)
qed

text \<open>C9: a dispatched message reaches every group once and every universal consumer: when the
  channels of the topic have room, exactly one member of each group receives it, every
  universal consumer does, no other channel changes, whatever order the maps are visited
  in, and the result lists each group once and an empty identifier per universal consumer.\<close>

theorem dispatch_exactly_once_per_group:
  assumes inv: "hub_inv h" and sub: "map_of (hub_topics h) topic = Some sub"
    and ord: "range_order gorder" "range_order uorder"
    and sizes: "list_all (\<lambda>(g, cs). length cs < 2 ^ 64) (ts_groups sub)"
    and chans: "distinct (map (ce_Ch \<circ> snd) (hub_byID h))"
    and room: "list_all (\<lambda>(i, c). ce_Topic c \<noteq> topic \<or> has_room h c) (hub_byID h)"
    and D: "DispatchToTopic RoundRobin_Select gorder uorder h topic msg tag = (h', sentTo)"
  shows "mset sentTo = mset (map fst (ts_groups sub)) + replicate_mset (length (ts_universal sub)) '''' \<and>
    list_all (\<lambda>(g, cs). \<exists>c. c \<in> set cs \<and> delivered h h' msg c \<and> list_all (\<lambda>d. d = c \<or> untouched h h' d) cs) (ts_groups sub) \<and>
    list_all (\<lambda>(i, c). delivered h h' msg c) (ts_universal sub) \<and>
    list_all (\<lambda>(i, c). ce_Topic c = topic \<or> untouched h h' c) (hub_byID h)"
  by (rule dispatch_room(1)[OF assms])

theorem dispatch_exactly_once_per_group_witness:
  "let h = Hub_Register (Hub_Register (Hub_Register (NewHub NewRoundRobinStrategy (\<lambda>_. ([], 8))) ''x'' ''t'' ''g'' 0)
         ''y'' ''t'' ''g'' 1) ''u'' ''t'' '''' 2;
       msg = \<lparr>qm_Topic = ''t'', qm_Payload = [7], qm_DeliveryTag = [1], qm_EnqueuedAtUnixMs = 0, qm_DelayMs = 0\<rparr>;
       d = DispatchToTopic RoundRobin_Select rev id h ''t'' msg [1]
   in mset (snd d) = {#''g'', ''''#} \<and>
      (\<exists>c. c \<in> {\<lparr>ce_ID = ''x'', ce_Topic = ''t'', ce_Group = ''g'', ce_Ch = 0\<rparr>, \<lparr>ce_ID = ''y'', ce_Topic = ''t'', ce_Group = ''g'', ce_Ch = 1\<rparr>}
         \<and> delivered h (fst d) msg c) \<and>
      delivered h (fst d) msg \<lparr>ce_ID = ''u'', ce_Topic = ''t'', ce_Group = '''', ce_Ch = 2\<rparr>"
proof -
  let ?x = "\<lparr>ce_ID = ''x'', ce_Topic = ''t'', ce_Group = ''g'', ce_Ch = 0\<rparr>"
    and ?y = "\<lparr>ce_ID = ''y'', ce_Topic = ''t'', ce_Group = ''g'', ce_Ch = 1\<rparr>"
    and ?u = "\<lparr>ce_ID = ''u'', ce_Topic = ''t'', ce_Group = '''', ce_Ch = 2\<rparr>"
  let ?sub = "\<lparr>ts_groups = [(''g'', [?x, ?y])], ts_universal = [(''u'', ?u)]\<rparr>"
  define h where "h = Hub_Register (Hub_Register (Hub_Register (NewHub NewRoundRobinStrategy (\<lambda>_. ([], 8))) ''x'' ''t'' ''g'' 0)
         ''y'' ''t'' ''g'' 1) ''u'' ''t'' '''' 2"
  define msg where "msg = \<lparr>qm_Topic = ''t'', qm_Payload = [7], qm_DeliveryTag = [1], qm_EnqueuedAtUnixMs = 0, qm_DelayMs = 0\<rparr>"
  have h: "h = \<lparr>hub_topics = [(''t'', ?sub)], hub_byID = [(''x'', ?x), (''y'', ?y), (''u'', ?u)],
      hub_inFlightByConsumer = [], hub_strategy = [], hub_wake = True, hub_chans = \<lambda>_. ([], 8)\<rparr>"
    by (simp add: h_def Hub_Register_def NewHub_def NewRoundRobinStrategy_def newTopicSubscription_def ts_add_def
        IsUniversal_def map_get_def Let_def)
  have inv: "hub_inv h"
    unfolding h by (simp add: hub_inv_def ts_inv_def group_ok_def ts_isEmpty_def ts_member_def IsUniversal_def map_get_def)
  obtain h' sentTo where d: "DispatchToTopic RoundRobin_Select rev id h ''t'' msg [1] = (h', sentTo)" by fastforce
  have "map_of (hub_topics h) ''t'' = Some ?sub" "distinct (map (ce_Ch \<circ> snd) (hub_byID h))"
      "list_all (\<lambda>(i, c). ce_Topic c \<noteq> ''t'' \<or> has_room h c) (hub_byID h)"
    unfolding h by (simp_all add: has_room_def)
  with dispatch_exactly_once_per_group[OF inv, of "''t''" ?sub rev id msg "[1]" h' sentTo] d
  show ?thesis unfolding h_def[symmetric] msg_def[symmetric] Let_def d by (auto simp: range_order_def)
qed

text \<open>Round robin is fair: as many consecutive messages as the group has members go to each
  member exactly once, in the group's order starting at the saved index.\<close>

theorem round_robin_fair:
  assumes "cs \<noteq> []" and "length cs < 2 ^ 64" and "unat (map_get 0 s (GroupKey (cs ! 0))) = i" and "i < length cs"
    and "length msgs = length cs"
  shows "rr_picks s cs msgs = map Some (rotate i cs)"
proof -
  have "rotate i cs = map (\<lambda>k. cs ! ((i + k) mod length cs)) [0..<length cs]"
    by (rule nth_equalityI) (simp_all add: nth_rotate add.commute)
  then show ?thesis using rr_picks_cycle[OF assms(1-4)] assms(5) by (simp add: comp_def)
qed


theorem round_robin_fair_witness:
  "let x = \<lparr>ce_ID = ''x'', ce_Topic = ''t'', ce_Group = ''g'', ce_Ch = 0\<rparr>;
       y = \<lparr>ce_ID = ''y'', ce_Topic = ''t'', ce_Group = ''g'', ce_Ch = 1\<rparr>;
       msg = \<lparr>qm_Topic = ''t'', qm_Payload = [7], qm_DeliveryTag = [1], qm_EnqueuedAtUnixMs = 0, qm_DelayMs = 0\<rparr>
   in rr_picks [(''t|g'', 1)] [x, y] [msg, msg] = [Some y, Some x]"
  using round_robin_fair[of "[\<lparr>ce_ID = ''x'', ce_Topic = ''t'', ce_Group = ''g'', ce_Ch = 0\<rparr>,
      \<lparr>ce_ID = ''y'', ce_Topic = ''t'', ce_Group = ''g'', ce_Ch = 1\<rparr>]" "[(''t|g'', 1)]" 1
      "[\<lparr>qm_Topic = ''t'', qm_Payload = [7], qm_DeliveryTag = [1], qm_EnqueuedAtUnixMs = 0, qm_DelayMs = 0\<rparr>,
        \<lparr>qm_Topic = ''t'', qm_Payload = [7], qm_DeliveryTag = [1], qm_EnqueuedAtUnixMs = 0, qm_DelayMs = 0\<rparr>]"]
  by (simp add: Let_def GroupKey_def map_get_def rotate_Suc)

end
