(* ===== verification/Deleter.thy ===== *)
theory Deleter
  imports EventSM
begin

text \<open>
  Batched deletion, \<open>src/internal/dispatcher/deleter.go\<close>. The interface
  \<open>DeleteBackend\<close> is a function on the state it deletes from; its contract is the
  locale \<open>delete_backend\<close>, with the direct backend (on the storage engine) and the
  Raft backend (through \<open>propose\<close>, which the consensus library implements) as
  instances. The deleter's lock is released while the backend works: the keys other
  goroutines mark in the meantime are an argument of \<open>flush\<close>, and a run is a sequence
  of marks and ticks.

  The lemmas account for every marked key: it is still pending or has been deleted.
\<close>

section \<open>Definitions\<close>

subsection \<open>Backends\<close>

definition raft_DeleteKeys :: "('w \<Rightarrow> bytes \<Rightarrow> 'w \<times> goerror option) \<Rightarrow> 'w \<Rightarrow> bytes list \<Rightarrow> ('w \<times> goerror option) go" where
  "raft_DeleteKeys propose w keys =
    bind_go (MarshalDeleteBatchCmd keys) (\<lambda>r. case r of
      Inl err \<Rightarrow> Ret (w, Some err)
    | Inr cmd \<Rightarrow> Ret (propose w cmd))"

text \<open>A failed \<open>Delete\<close> is logged and the loop goes on.\<close>

fun direct_delete_loop :: "('st, 'b) DB \<Rightarrow> 'b \<Rightarrow> bytes list \<Rightarrow> 'b" where
  "direct_delete_loop D b [] = b"
| "direct_delete_loop D b (key # keys) = (case db_Delete D b key of (b', err) \<Rightarrow> direct_delete_loop D b' keys)"

definition direct_DeleteKeys :: "('st, 'b) DB \<Rightarrow> 'st \<Rightarrow> bytes list \<Rightarrow> ('st \<times> goerror option) go" where
  "direct_DeleteKeys D st keys = Ret (db_Commit D st (direct_delete_loop D (db_NewBatch D st) keys) Sync)"

subsection \<open>The deleter\<close>

record Deleter =
  dl_pending :: "bytes list"

definition NewDeleter :: Deleter where
  "NewDeleter = \<lparr>dl_pending = []\<rparr>"

definition MarkDeleted :: "Deleter \<Rightarrow> bytes \<Rightarrow> Deleter" where
  "MarkDeleted d key = d\<lparr>dl_pending := dl_pending d @ [key]\<rparr>"

text \<open>
  \<open>during\<close> are the keys marked between the two critical sections of \<open>flush\<close>.
  \<open>OnDelete\<close> is a function on a state \<open>'x\<close> of its own, or nil.
\<close>

definition Deleter_flush :: "('w \<Rightarrow> bytes list \<Rightarrow> ('w \<times> goerror option) go) \<Rightarrow> (bytes \<Rightarrow> 'x \<Rightarrow> 'x) option
    \<Rightarrow> bytes list \<Rightarrow> Deleter \<Rightarrow> 'w \<Rightarrow> 'x \<Rightarrow> (Deleter \<times> 'w \<times> 'x) go" where
  "Deleter_flush DeleteKeys OnDelete during d w x =
    (if length (dl_pending d) = 0 then Ret (foldl MarkDeleted d during, w, x)
     else let keysToFlush = dl_pending d;
              d1 = foldl MarkDeleted (d\<lparr>dl_pending := []\<rparr>) during
       in bind_go (DeleteKeys w keysToFlush) (\<lambda>(w', err). case err of
            Some e \<Rightarrow> Ret (d1\<lparr>dl_pending := keysToFlush @ dl_pending d1\<rparr>, w', x)
          | None \<Rightarrow> Ret (d1, w', case OnDelete of None \<Rightarrow> x | Some f \<Rightarrow> fold f keysToFlush x)))"

text \<open>What \<open>Run\<close> sees: marks, ticks of its timer, and the end of its context.\<close>

datatype deleter_event = Mark bytes | Tick "bytes list" | Done "bytes list"

fun Deleter_Run :: "('w \<Rightarrow> bytes list \<Rightarrow> ('w \<times> goerror option) go) \<Rightarrow> (bytes \<Rightarrow> 'x \<Rightarrow> 'x) option
    \<Rightarrow> deleter_event list \<Rightarrow> Deleter \<Rightarrow> 'w \<Rightarrow> 'x \<Rightarrow> (Deleter \<times> 'w \<times> 'x) go" where
  "Deleter_Run DeleteKeys OnDelete [] d w x = Ret (d, w, x)"
| "Deleter_Run DeleteKeys OnDelete (Mark key # evs) d w x =
    Deleter_Run DeleteKeys OnDelete evs (MarkDeleted d key) w x"
| "Deleter_Run DeleteKeys OnDelete (Tick during # evs) d w x =
    bind_go (Deleter_flush DeleteKeys OnDelete during d w x)
      (\<lambda>(d', w', x'). Deleter_Run DeleteKeys OnDelete evs d' w' x')"
| "Deleter_Run DeleteKeys OnDelete (Done during # evs) d w x = Deleter_flush DeleteKeys OnDelete during d w x"

subsection \<open>Specification\<close>

text \<open>The keys marked in a run, up to its end.\<close>

fun marked_keys :: "deleter_event list \<Rightarrow> bytes list" where
  "marked_keys [] = []"
| "marked_keys (Mark key # evs) = key # marked_keys evs"
| "marked_keys (Tick during # evs) = during @ marked_keys evs"
| "marked_keys (Done during # evs) = during"

text \<open>
  What the consensus library does with a proposal on a quiet cluster: a reported success
  means that the state machine applied the command; after an error (a timeout, say) it has
  been applied or not.
\<close>

definition applies :: "('st, 'b) DB \<Rightarrow> 'st EventStateMachine \<Rightarrow> bytes \<Rightarrow> 'st EventStateMachine \<Rightarrow> bool" where
  "applies D s cmd s' \<longleftrightarrow> (\<exists>cb idx es' del. EventStateMachine_Update D cb s
      [\<lparr>e_Index = idx, e_Cmd = cmd, e_Result = 0\<rparr>] = Ret (s', Inr es', del))"

definition proposes :: "('st, 'b) DB \<Rightarrow> ('st EventStateMachine \<Rightarrow> bytes \<Rightarrow> 'st EventStateMachine \<times> goerror option) \<Rightarrow> bool" where
  "proposes D propose \<longleftrightarrow>
    (\<forall>s cmd s' e. propose s cmd = (s', e) \<longrightarrow> applies D s cmd s' \<or> e \<noteq> None \<and> s' = s)"

text \<open>The content of a replica without its bookkeeping of the log.\<close>

definition replica_content :: "('st \<Rightarrow> store) \<Rightarrow> 'st EventStateMachine \<Rightarrow> store" where
  "replica_content view s = (view (es_db s))(appliedIndexKey := None)"

text \<open>A concrete group: the leader's replica, with no fault.\<close>

definition mem_propose :: "kvlist EventStateMachine \<Rightarrow> bytes \<Rightarrow> kvlist EventStateMachine \<times> goerror option" where
  "mem_propose s cmd =
    (case EventStateMachine_Update (pebble_DB mem_pebble) False s [\<lparr>e_Index = es_lastApplied s + 1, e_Cmd = cmd, e_Result = 0\<rparr>] of
       Ret (s', Inr es', del) \<Rightarrow> (s', None)
     | _ \<Rightarrow> (s, Some ContextDeadlineExceeded))"

section \<open>The contract of a backend\<close>

lemma pending_marks: "dl_pending (foldl MarkDeleted d keys) = dl_pending d @ keys"
  by (induction keys arbitrary: d) (simp_all add: MarkDeleted_def)

locale delete_backend =
  fixes DeleteKeys :: "'w \<Rightarrow> bytes list \<Rightarrow> ('w \<times> goerror option) go"
    and content :: "'w \<Rightarrow> store"
    and good :: "'w \<Rightarrow> bool"
  assumes returns: "good w \<Longrightarrow> length keys < 2 ^ 43 \<Longrightarrow> \<exists>w' e. DeleteKeys w keys = Ret (w', e)"
    and success: "good w \<Longrightarrow> length keys < 2 ^ 43 \<Longrightarrow> DeleteKeys w keys = Ret (w', None) \<Longrightarrow>
      good w' \<and> content w' = content w |` (- set keys)"
    and failure: "good w \<Longrightarrow> length keys < 2 ^ 43 \<Longrightarrow> DeleteKeys w keys = Ret (w', Some e) \<Longrightarrow>
      good w' \<and> (content w' = content w \<or> content w' = content w |` (- set keys))"
begin

text \<open>A flush moves the pending keys to the deleted ones, or keeps them in front of the new ones.\<close>

lemma flush_accounts:
  assumes G: "good w" and n: "length (dl_pending d) < 2 ^ 43"
  shows "\<exists>d' w' deleted. Deleter_flush DeleteKeys (Some f) during d w x = Ret (d', w', fold f deleted x) \<and>
    deleted @ dl_pending d' = dl_pending d @ during \<and> good w' \<and>
    (\<forall>k. content w' k = content w k \<or> content w' k = None \<and> k \<in> set (dl_pending d)) \<and>
    (\<forall>k\<in>set deleted. content w' k = None)"
proof (cases "dl_pending d = []")
  case True
  with G show ?thesis by (auto simp: Deleter_flush_def pending_marks intro: exI[of _ "[]"])
next
  case False
  let ?d1 = "foldl MarkDeleted (d\<lparr>dl_pending := []\<rparr>) during"
  have d1: "dl_pending ?d1 = during" by (simp add: pending_marks)
  obtain w' e where w': "DeleteKeys w (dl_pending d) = Ret (w', e)" using returns[OF G n] by blast
  show ?thesis
  proof (cases e)
    case None
    then show ?thesis
      using success[OF G n, of w'] w' False d1
      by (intro exI[of _ ?d1] exI[of _ w'] exI[of _ "dl_pending d"]) (auto simp: Deleter_flush_def Let_def restrict_map_def)
  next
    case (Some err)
    then show ?thesis
      using failure[OF G n, of w' err] w' False d1
      by (intro exI[of _ "?d1\<lparr>dl_pending := dl_pending d @ during\<rparr>"] exI[of _ w'] exI[of _ "[]"])
        (auto simp: Deleter_flush_def Let_def restrict_map_def split: if_splits)
  qed
qed

lemma run_accounts:
  "good w \<Longrightarrow> length (dl_pending d @ marked_keys evs) < 2 ^ 43 \<Longrightarrow>
    \<exists>d' w' deleted. Deleter_Run DeleteKeys (Some f) evs d w x = Ret (d', w', fold f deleted x) \<and>
    deleted @ dl_pending d' = dl_pending d @ marked_keys evs \<and> good w' \<and>
    (\<forall>k. content w' k = content w k \<or> content w' k = None \<and> k \<in> set (dl_pending d @ marked_keys evs)) \<and>
    (\<forall>k\<in>set deleted. content w' k = None)"
proof (induction evs arbitrary: d w x rule: marked_keys.induct)
  case 1
  then show ?case by (auto intro: exI[of _ "[]"])
next
  case (2 key evs)
  then show ?case using "2.IH"[of w "MarkDeleted d key"] by (simp add: MarkDeleted_def)
next
  case (3 during evs)
  obtain d1 w1 del1 where 1: "Deleter_flush DeleteKeys (Some f) during d w x = Ret (d1, w1, fold f del1 x)"
      "del1 @ dl_pending d1 = dl_pending d @ during" "good w1"
      "\<forall>k. content w1 k = content w k \<or> content w1 k = None \<and> k \<in> set (dl_pending d)"
      "\<forall>k\<in>set del1. content w1 k = None"
    using flush_accounts[OF "3.prems"(1), where d = d and during = during and f = f and x = x] "3.prems"(2) by auto
  have "length (del1 @ dl_pending d1) = length (dl_pending d @ during)" by (simp only: 1(2))
  then have "length (dl_pending d1 @ marked_keys evs) < 2 ^ 43" using "3.prems"(2) by simp
  from "3.IH"[OF 1(3) this, of "fold f del1 x"] obtain d' w' del2 where
    2: "Deleter_Run DeleteKeys (Some f) evs d1 w1 (fold f del1 x) = Ret (d', w', fold f del2 (fold f del1 x))"
      "del2 @ dl_pending d' = dl_pending d1 @ marked_keys evs" "good w'"
      "\<forall>k. content w' k = content w1 k \<or> content w' k = None \<and> k \<in> set (dl_pending d1 @ marked_keys evs)"
      "\<forall>k\<in>set del2. content w' k = None"
    by blast
  have sub: "set (dl_pending d1) \<subseteq> set (dl_pending d) \<union> set during" using 1(2) by (metis Un_upper2 set_append)
  have eq: "(del1 @ del2) @ dl_pending d' = dl_pending d @ marked_keys (Tick during # evs)"
    using 1(2) 2(2) by (metis append_assoc marked_keys.simps(3))
  show ?case
  proof (intro exI[of _ d'] exI[of _ w'] exI[of _ "del1 @ del2"] conjI allI ballI)
    fix k
    show "content w' k = content w k \<or> content w' k = None \<and> k \<in> set (dl_pending d @ marked_keys (Tick during # evs))"
      using 1(4) 2(4) sub by (smt (verit) UnCI UnE marked_keys.simps(3) set_append subset_iff)
    show "content w' k = None" if "k \<in> set (del1 @ del2)" using 1(5) 2(4,5) that by (metis UnE set_append)
  qed (use 1 2 eq in simp_all)
next
  case (4 during evs)
  then show ?case
    using flush_accounts[OF "4.prems"(1), where d = d and during = during and f = f and x = x] by (fastforce simp: algebra_simps)
qed

end


lemma bind_go_Ret [simp]: "bind_go m Ret = m"
  by (cases m) simp_all

lemma Deleter_Run_append:
  "\<forall>during. Done during \<notin> set evs \<Longrightarrow> Deleter_Run DeleteKeys OnDelete evs d w x = Ret (d', w', x') \<Longrightarrow>
    Deleter_Run DeleteKeys OnDelete (evs @ evs') d w x = Deleter_Run DeleteKeys OnDelete evs' d' w' x'"
proof (induction evs arbitrary: d w x rule: marked_keys.induct)
  case (3 during evs)
  then obtain r where r: "Deleter_flush DeleteKeys OnDelete during d w x = Ret r" by (auto simp: bind_go_eq_Ret)
  then show ?case using 3 by (cases r) auto
qed auto

section \<open>The backends meet the contract\<close>

context storage_db
begin

lemma direct_delete_loop_ops: "pending (direct_delete_loop D b keys) = pending b @ map OpDelete keys"
proof (induction keys arbitrary: b)
  case (Cons key keys)
  obtain b1 where "db_Delete D b key = (b1, None)" "pending b1 = pending b @ [OpDelete key]" using Delete_eq by blast
  with Cons.IH[of b1] show ?case by simp
qed simp

lemma direct_delete_view:
  assumes G: "good st" and d: "direct_DeleteKeys D st keys = Ret (st', e)"
  shows "good st' \<and> (view st' = view st |` (- set keys) \<or> e \<noteq> None \<and> view st' = view st)"
proof -
  have "apply_ops (pending (direct_delete_loop D (db_NewBatch D st) keys)) m = m |` (- set keys)" for m
    by (simp add: direct_delete_loop_ops NewBatch apply_deletes)
  with Commit_ok[OF G] Commit_err[OF G] d show ?thesis by (cases e) (simp_all add: direct_DeleteKeys_def)
qed

lemma direct_backend: "delete_backend (direct_DeleteKeys D) view good"
proof
  fix st st' keys e
  assume G: "good st"
  show "\<exists>st' e. direct_DeleteKeys D st keys = Ret (st', e)" by (simp add: direct_DeleteKeys_def)
  show "good st' \<and> view st' = view st |` (- set keys)" if "direct_DeleteKeys D st keys = Ret (st', None)"
    using direct_delete_view[OF G that] by simp
  show "good st' \<and> (view st' = view st \<or> view st' = view st |` (- set keys))"
    if "direct_DeleteKeys D st keys = Ret (st', Some e)"
    using direct_delete_view[OF G that] by blast
qed

lemma applies_delete:
  assumes G: "good (es_db s)" and keys: "list_all (\<lambda>k. length k = 24) keys" "length keys < 2 ^ 43"
    and A: "applies D s (wire_delete keys) s'"
  shows "good (es_db s') \<and> replica_content view s' = replica_content view s |` (- set keys)"
proof -
  have "length keys * 24 \<le> 2 ^ 48" using keys(2) by simp
  then have "UnmarshalDeleteBatchCmd (wire_delete keys) = Ret (Inr keys)"
    using delete_cmd.decode_marshalled[of keys "wire_delete keys"] keys(1) MarshalDeleteBatchCmd_eq(1) by simp
  then have eff: "entry_effect (wire_delete keys) i = Ret (i, map OpDelete keys, of_nat (length keys), keys)" for i
    by (simp add: entry_effect_def wire_delete_def StoreBatchCmd_def DeleteBatchCmd_def)
  have "appliedIndexKey \<notin> set keys" using keys(1) by (auto simp: list_all_iff)
  then show ?thesis
    using A Update_ok[OF G] unfolding applies_def
    by (force simp: eff apply_deletes replica_content_def restrict_map_def fun_eq_iff)
qed

lemma raft_backend:
  assumes P: "proposes D propose"
  shows "delete_backend (raft_DeleteKeys propose) (replica_content view) (\<lambda>s. good (es_db s))"
proof
  fix s s' :: "'st EventStateMachine" and keys :: "bytes list" and e
  assume G: "good (es_db s)" and n: "length keys < 2 ^ 43"
  have bad: "\<exists>err. raft_DeleteKeys propose s keys = Ret (s, Some err)" if "\<not> list_all (\<lambda>k. length k = 24) keys"
    using MarshalDeleteBatchCmd_eq(2)[OF that] by (auto simp: raft_DeleteKeys_def)
  have good: "raft_DeleteKeys propose s keys = Ret (propose s (wire_delete keys))" if "list_all (\<lambda>k. length k = 24) keys"
    using MarshalDeleteBatchCmd_eq(1)[OF that] by (simp add: raft_DeleteKeys_def)
  have appl: "propose s (wire_delete keys) = (s1, e1) \<Longrightarrow> applies D s (wire_delete keys) s1 \<or> e1 \<noteq> None \<and> s1 = s" for s1 e1
    using P unfolding proposes_def by blast
  show "\<exists>s' e. raft_DeleteKeys propose s keys = Ret (s', e)" using bad good by (metis surj_pair)
  obtain s1 e1 where s1: "propose s (wire_delete keys) = (s1, e1)" by fastforce
  show "good (es_db s') \<and> replica_content view s' = replica_content view s |` (- set keys)"
    if "raft_DeleteKeys propose s keys = Ret (s', None)"
    using bad good that s1 appl[OF s1] applies_delete[OF G _ n] by (cases "list_all (\<lambda>k. length k = 24) keys") auto
  show "good (es_db s') \<and> (replica_content view s' = replica_content view s \<or>
      replica_content view s' = replica_content view s |` (- set keys))"
    if "raft_DeleteKeys propose s keys = Ret (s', Some e)"
    using bad good that s1 appl[OF s1] applies_delete[OF G _ n] G by (cases "list_all (\<lambda>k. length k = 24) keys") auto
qed

end

lemma mem_proposes: "proposes (pebble_DB mem_pebble) mem_propose"
  by (auto simp: proposes_def applies_def mem_propose_def split: go.splits sum.splits)

interpretation direct: delete_backend "direct_DeleteKeys (pebble_DB mem_pebble)" map_of sorted_entries
  by (rule memp.direct_backend)

interpretation raft: delete_backend "raft_DeleteKeys mem_propose" "replica_content map_of" "\<lambda>s. sorted_entries (es_db s)"
  by (rule memp.raft_backend[OF mem_proposes])

lemma malformed_flush:
  assumes "k \<in> set (dl_pending d)" and "length k \<noteq> 24"
  shows "\<exists>d'. Deleter_flush (raft_DeleteKeys propose) OnDelete during d w x = Ret (d', w, x) \<and>
    dl_pending d' = dl_pending d @ during"
proof -
  have "\<not> list_all (\<lambda>k. length k = 24) (dl_pending d)" "dl_pending d \<noteq> []" using assms by (auto simp: list_all_iff)
  with MarshalDeleteBatchCmd_eq(2)[OF this(1)] show ?thesis
    by (auto simp: Deleter_flush_def Let_def raft_DeleteKeys_def pending_marks)
qed

section \<open>Properties\<close>



text \<open>C10: the deleter loses no key and deletes no other: whatever the order of marks, ticks, and
  marks that overtake a flush, and however often the backend fails, a run ends with every
  marked key either reported deleted, once and in order, and absent from storage, or still
  pending; a key nobody marked keeps its value.\<close>

theorem deleter_accounts:
  assumes "delete_backend DeleteKeys content good" and "good w" and "length (dl_pending d @ marked_keys evs) < 2 ^ 43"
  shows "\<exists>d' w' deleted. Deleter_Run DeleteKeys (Some OnDelete) evs d w x = Ret (d', w', fold OnDelete deleted x) \<and>
    deleted @ dl_pending d' = dl_pending d @ marked_keys evs \<and> good w' \<and>
    (\<forall>k. k \<notin> set (dl_pending d @ marked_keys evs) \<longrightarrow> content w' k = content w k) \<and>
    (\<forall>k\<in>set deleted. content w' k = None)"
  using delete_backend.run_accounts[OF assms, of OnDelete x] by blast

theorem deleter_accounts_witness:
  "\<exists>d' w' deleted. Deleter_Run (direct_DeleteKeys (pebble_DB mem_pebble)) (Some (#)) [Mark [1], Tick [[2]], Mark [3]]
      NewDeleter [([1], [9]), ([4], [9])] [] = Ret (d', w', fold (#) deleted []) \<and>
    deleted @ dl_pending d' = [[1], [2], [3]] \<and> map_of w' [4] = Some [9]"
proof -
  have "sorted_entries [([1], [9]), ([4], [9])]" by (simp add: sorted_entries_def)
  then show ?thesis
    using deleter_accounts[OF direct.delete_backend_axioms, of "[([1], [9]), ([4], [9])]" NewDeleter
        "[Mark [1], Tick [[2]], Mark [3]]" "(#)" "[]"]
    by (fastforce simp: NewDeleter_def)
qed

text \<open>Deletion makes progress: after any run, a tick whose backend call succeeds leaves
  nothing of what was marked before it pending, and every such key is gone from storage.\<close>

theorem deleter_drains:
  assumes "delete_backend DeleteKeys content good" and "good w" and "length (dl_pending d @ marked_keys evs) < 2 ^ 43"
    and "Deleter_Run DeleteKeys (Some OnDelete) evs d w x = Ret (d1, w1, x1)" and "\<forall>during. Done during \<notin> set evs"
    and "if dl_pending d1 = [] then w2 = w1 else DeleteKeys w1 (dl_pending d1) = Ret (w2, None)"
  shows "\<exists>d' x'. Deleter_Run DeleteKeys (Some OnDelete) (evs @ [Tick during]) d w x = Ret (d', w2, x') \<and>
    dl_pending d' = during \<and> (\<forall>k\<in>set (dl_pending d @ marked_keys evs). content w2 k = None)"
proof -
  obtain deleted where del: "deleted @ dl_pending d1 = dl_pending d @ marked_keys evs" "good w1"
      "\<forall>k\<in>set deleted. content w1 k = None"
    using delete_backend.run_accounts[OF assms(1-3), of OnDelete x] assms(4) by auto
  have "length (deleted @ dl_pending d1) < 2 ^ 43" using assms(3) by (simp only: del(1))
  then have n: "length (dl_pending d1) < 2 ^ 43" by simp
  have w2: "content w2 = content w1 |` (- set (dl_pending d1))"
    using assms(6) delete_backend.success[OF assms(1) del(2) n] by (auto simp: restrict_map_def split: if_splits)
  have "Deleter_Run DeleteKeys (Some OnDelete) (evs @ [Tick during]) d w x =
      Deleter_flush DeleteKeys (Some OnDelete) during d1 w1 x1"
    using Deleter_Run_append[OF assms(5,4), of "[Tick during]"] by (simp add: split_def)
  moreover have "\<exists>d' x'. Deleter_flush DeleteKeys (Some OnDelete) during d1 w1 x1 = Ret (d', w2, x') \<and> dl_pending d' = during"
    using assms(6) by (auto simp: Deleter_flush_def Let_def pending_marks split: if_splits)
  moreover have "content w2 k = None" if "k \<in> set (dl_pending d @ marked_keys evs)" for k
    using that del(1,3) w2 by (metis ComplD UnE restrict_in restrict_out set_append)
  ultimately show ?thesis by auto
qed


theorem deleter_drains_witness:
  "\<exists>d' w' x'. Deleter_Run (direct_DeleteKeys (pebble_DB mem_pebble)) (Some (#)) ([Mark [1], Mark [2]] @ [Tick [[3]]])
      NewDeleter [([1], [9]), ([4], [9])] [] = Ret (d', w', x') \<and>
    dl_pending d' = [[3]] \<and> map_of w' [1] = None"
proof -
  let ?w = "[([1], [9]), ([4], [9])] :: kvlist" and ?d = "\<lparr>dl_pending = [[1], [2]]\<rparr>"
  have "sorted_entries ?w" by (simp add: sorted_entries_def)
  moreover obtain w2 where "direct_DeleteKeys (pebble_DB mem_pebble) ?w [[1], [2]] = Ret (w2, None)"
    using mem_commits by (simp add: direct_DeleteKeys_def) (metis prod.collapse)
  ultimately show ?thesis
    using deleter_drains[OF direct.delete_backend_axioms, of ?w NewDeleter "[Mark [1], Mark [2]]" "(#)" "[]" ?d ?w "[]" w2 "[[3]]"]
    by (auto simp: NewDeleter_def MarkDeleted_def)
qed

text \<open>A malformed delivery tag stops all deletions of a cluster: once a key that is not 24
  bytes long has been marked, every later flush through Raft fails, for any consensus
  library; nothing is proposed, every key stays pending, and the list only grows.\<close>

theorem malformed_tag_blocks_deletion:
  assumes "k \<in> set (dl_pending d)" and "length k \<noteq> 24"
  shows "\<exists>d'. Deleter_Run (raft_DeleteKeys propose) OnDelete evs d w x = Ret (d', w, x) \<and>
    dl_pending d' = dl_pending d @ marked_keys evs"
  using assms(1)
proof (induction evs arbitrary: d rule: marked_keys.induct)
  case (2 key evs)
  then show ?case using "2.IH"[of "MarkDeleted d key"] by (simp add: MarkDeleted_def)
next
  case (3 during evs)
  obtain d1 where d1: "Deleter_flush (raft_DeleteKeys propose) OnDelete during d w x = Ret (d1, w, x)"
      "dl_pending d1 = dl_pending d @ during"
    using malformed_flush[OF "3.prems" assms(2), of propose OnDelete during w x] by blast
  then show ?case using "3.IH"[of d1] "3.prems" by simp
next
  case (4 during evs)
  then show ?case using malformed_flush[OF "4.prems" assms(2), of propose OnDelete during w x] by simp
qed simp

theorem malformed_tag_blocks_deletion_witness:
  "\<exists>d'. Deleter_Run (raft_DeleteKeys mem_propose) (Some (#)) [Tick [], Mark (replicate 24 0), Tick [], Tick []]
      \<lparr>dl_pending = [[7]]\<rparr> mem_replica [] = Ret (d', mem_replica, []) \<and> dl_pending d' = [[7], replicate 24 0]"
  using malformed_tag_blocks_deletion[of "[7]" "\<lparr>dl_pending = [[7]]\<rparr>" mem_propose "Some (#)"
      "[Tick [], Mark (replicate 24 0), Tick [], Tick []]" mem_replica "[]"] by simp

end
