(* ===== verification/Dispatcher.thy ===== *)
theory Dispatcher
  imports Hub Deleter Keys
begin

text \<open>
  The dispatcher, \<open>src/internal/dispatcher/dispatcher.go\<close>: it scans the due key range
  of every active topic, hands the messages to the hub, tracks what is in flight and gives
  expired messages to the deleter. The record \<open>dispatch_env\<close> holds what a pass takes
  from outside: the protobuf codec, the hash, the dispatch strategy, the order of each range
  over a map, the readings of the clock in nanoseconds (two for each visited key) and the
  configured bucket size. Time differences are integers: \<open>time.Since\<close> saturates, which
  does not change its comparison with a timeout.

  A pass classifies the scanned pairs against the in-flight table it starts with and then
  dispatches the due ones in key order; the properties follow from this normal form.
\<close>

section \<open>Definitions\<close>

record inFlightEntry =
  if_dispatchedAt :: int
  if_topic :: string

record Dispatcher =
  dp_interval :: i64
  dp_inFlightTimeout :: i64
  dp_inFlight :: "(bytes \<times> inFlightEntry) list"

definition NewDispatcher :: "i64 \<Rightarrow> i64 \<Rightarrow> Dispatcher" where
  "NewDispatcher interval inFlightTimeout =
    \<lparr>dp_interval = interval, dp_inFlightTimeout = inFlightTimeout, dp_inFlight = []\<rparr>"

definition RemoveInFlight :: "bytes \<Rightarrow> Dispatcher \<Rightarrow> Dispatcher" where
  "RemoveInFlight key d = d\<lparr>dp_inFlight := AList.delete key (dp_inFlight d)\<rparr>"

definition RemoveInFlightBatch :: "Dispatcher \<Rightarrow> bytes list \<Rightarrow> Dispatcher" where
  "RemoveInFlightBatch d keys = foldl (\<lambda>d k. d\<lparr>dp_inFlight := AList.delete k (dp_inFlight d)\<rparr>) d keys"

definition isInFlight :: "Dispatcher \<Rightarrow> int \<Rightarrow> bytes \<Rightarrow> Dispatcher \<times> bool" where
  "isInFlight d now key =
    (case map_of (dp_inFlight d) key of
       None \<Rightarrow> (d, False)
     | Some e \<Rightarrow>
        if now - if_dispatchedAt e < sint (dp_inFlightTimeout d) then (d, True)
        else (d\<lparr>dp_inFlight := AList.delete key (dp_inFlight d)\<rparr>, False))"

definition isExpired :: "'idx StoredMessage \<Rightarrow> i64 \<Rightarrow> bool" where
  "isExpired msg nowMs =
    (if sint (sm_TtlMs msg) \<le> 0 then False
     else sint nowMs \<ge> sint (sm_EnqueuedAtUnixMs msg + sm_TtlMs msg))"

record ('idx, 's) dispatch_env =
  de_proto :: "'idx proto_lib"
  de_hash :: "string \<Rightarrow> u64"
  de_select :: "'s \<Rightarrow> ConsumerEntry list \<Rightarrow> QueueMessage \<Rightarrow> 's \<times> ConsumerEntry option"
  de_gorder :: "nat \<Rightarrow> (string \<times> ConsumerEntry list) list \<Rightarrow> (string \<times> ConsumerEntry list) list"
  de_uorder :: "nat \<Rightarrow> (string \<times> ConsumerEntry) list \<Rightarrow> (string \<times> ConsumerEntry) list"
  de_torder :: "(string \<times> TopicSubscription) list \<Rightarrow> (string \<times> TopicSubscription) list"
  de_clock :: "nat \<Rightarrow> int"
  de_bucketSize :: i64

text \<open>The variables the callback of the scan changes; \<open>ds_n\<close> counts the visited keys.\<close>

record 's DispatchState =
  ds_d :: Dispatcher
  ds_hub :: "'s Hub"
  ds_n :: nat
  ds_dispatched :: nat
  ds_expired :: "bytes list"

definition queue_message :: "'idx StoredMessage \<Rightarrow> bytes \<Rightarrow> QueueMessage" where
  "queue_message msg key =
    \<lparr>qm_Topic = sm_Topic msg, qm_Payload = sm_Payload msg, qm_DeliveryTag = key,
     qm_EnqueuedAtUnixMs = sm_EnqueuedAtUnixMs msg, qm_DelayMs = sm_DelayMs msg\<rparr>"

definition dispatch_yield :: "('idx, 's) dispatch_env \<Rightarrow> string \<Rightarrow> i64 \<Rightarrow> 's DispatchState \<Rightarrow> bytes \<Rightarrow> bytes
    \<Rightarrow> 's DispatchState \<times> goerror option" where
  "dispatch_yield env topic nowMs s key val =
    (let n = ds_n s in
     case isInFlight (ds_d s) (de_clock env (2 * n)) key of
       (d1, True) \<Rightarrow> (s\<lparr>ds_d := d1, ds_n := n + 1\<rparr>, None)
     | (d1, False) \<Rightarrow>
        (case proto_Unmarshal (de_proto env) val of
           Inl err \<Rightarrow> (s\<lparr>ds_d := d1, ds_n := n + 1\<rparr>, None)
         | Inr msg \<Rightarrow>
            if isExpired msg nowMs
            then (s\<lparr>ds_d := d1, ds_n := n + 1, ds_expired := ds_expired s @ [key]\<rparr>, None)
            else case DispatchToTopic (de_select env) (de_gorder env n) (de_uorder env n) (ds_hub s) topic
                (queue_message msg key) key of
              (h', sentTo) \<Rightarrow>
                if length sentTo > 0
                then (s\<lparr>ds_d := d1\<lparr>dp_inFlight := AList.update key
                          \<lparr>if_dispatchedAt = de_clock env (2 * n + 1), if_topic = topic\<rparr> (dp_inFlight d1)\<rparr>,
                        ds_hub := h', ds_n := n + 1, ds_dispatched := ds_dispatched s + 1\<rparr>, None)
                else (s\<lparr>ds_d := d1, ds_hub := h', ds_n := n + 1\<rparr>, None)))"

text \<open>What a pass works on: dispatcher, hub, deleter, and the number of keys visited so far.\<close>

record 's Pass =
  ps_d :: Dispatcher
  ps_hub :: "'s Hub"
  ps_deleter :: Deleter
  ps_n :: nat

definition due_range :: "u64 \<Rightarrow> u64 \<Rightarrow> IterOptions option" where
  "due_range topicHash nowBucket =
    Some \<lparr>LowerBound = Some (TopicLowerBound topicHash), UpperBound = Some (DueUpperBound topicHash nowBucket)\<rparr>"

definition dispatchTopic :: "('idx, 's) dispatch_env \<Rightarrow> ('st, 'b) DB \<Rightarrow> 'st \<Rightarrow> string \<Rightarrow> i64 \<Rightarrow> 's Pass \<Rightarrow> ('s Pass \<times> nat) go" where
  "dispatchTopic env D st topic nowMs p =
    (let topicHash = de_hash env topic in
     bind_go (CalculateBucket nowMs (de_bucketSize env)) (\<lambda>nowBucket.
       case DB_Scan D st (due_range topicHash nowBucket) (dispatch_yield env topic nowMs)
           \<lparr>ds_d = ps_d p, ds_hub = ps_hub p, ds_n = ps_n p, ds_dispatched = 0, ds_expired = []\<rparr> of
         (s, err) \<Rightarrow>
           Ret (p\<lparr>ps_d := ds_d s, ps_hub := ds_hub s,
                  ps_deleter := (if length (ds_expired s) > 0 then foldl MarkDeleted (ps_deleter p) (ds_expired s) else ps_deleter p),
                  ps_n := ds_n s\<rparr>, ds_dispatched s)))"

text \<open>
  \<open>isLeader\<close>: no node host in standalone mode; otherwise the answer of
  \<open>GetLeaderID\<close>, a leader and whether it is valid, or an error.
\<close>

definition isLeader :: "(u64 \<Rightarrow> goerror + u64 \<times> bool) option \<Rightarrow> u64 \<Rightarrow> u64 \<Rightarrow> bool" where
  "isLeader nodeHost shardID nodeID =
    (case nodeHost of
       None \<Rightarrow> True
     | Some GetLeaderID \<Rightarrow>
        (case GetLeaderID shardID of
           Inl err \<Rightarrow> False
         | Inr (leaderID, valid) \<Rightarrow> if \<not> valid then False else leaderID = nodeID))"

fun dispatch_topics :: "('idx, 's) dispatch_env \<Rightarrow> ('st, 'b) DB \<Rightarrow> 'st \<Rightarrow> i64 \<Rightarrow> 's Pass \<Rightarrow> nat \<Rightarrow> string list \<Rightarrow> ('s Pass \<times> nat) go" where
  "dispatch_topics env D st nowMs p totalDispatched [] = Ret (p, totalDispatched)"
| "dispatch_topics env D st nowMs p totalDispatched (topic # topics) =
    bind_go (dispatchTopic env D st topic nowMs p) (\<lambda>(p', dispatched).
      dispatch_topics env D st nowMs p' (totalDispatched + dispatched) topics)"

definition dispatchAll :: "('idx, 's) dispatch_env \<Rightarrow> ('st, 'b) DB \<Rightarrow> 'st \<Rightarrow> bool \<Rightarrow> i64 \<Rightarrow> 's Pass \<Rightarrow> ('s Pass \<times> nat) go" where
  "dispatchAll env D st leader nowMs p =
    (if \<not> HasConsumers (ps_hub p) then Ret (p, 0)
     else if \<not> leader then Ret (p, 0)
     else let activeTopics = ActiveTopics (de_torder env) (ps_hub p)
       in if length activeTopics = 0 then Ret (p, 0)
          else dispatch_topics env D st nowMs p 0 activeTopics)"

text \<open>
  The event loop: each wake-up or timer event comes with the storage state, the leadership
  and the time it finds. The result is the state and the delay the timer is set to.
\<close>

datatype 'st run_event = CtxDone | Wake 'st bool i64 | Timer 'st bool i64

fun Dispatcher_Run :: "('idx, 's) dispatch_env \<Rightarrow> ('st, 'b) DB \<Rightarrow> 'st run_event list \<Rightarrow> 's Pass \<Rightarrow> i64 \<Rightarrow> ('s Pass \<times> i64) go" where
  "Dispatcher_Run env D [] p timer = Ret (p, timer)"
| "Dispatcher_Run env D (CtxDone # evs) p timer = Ret (p, timer)"
| "Dispatcher_Run env D (Wake st leader nowMs # evs) p timer =
    bind_go (dispatchAll env D st leader nowMs (p\<lparr>ps_hub := (ps_hub p)\<lparr>hub_wake := False\<rparr>\<rparr>)) (\<lambda>(p', dispatched).
      Dispatcher_Run env D evs p' (dp_interval (ps_d p')))"
| "Dispatcher_Run env D (Timer st leader nowMs # evs) p timer =
    bind_go (dispatchAll env D st leader nowMs p) (\<lambda>(p', dispatched).
      Dispatcher_Run env D evs p' (if dispatched > 0 then 0 else dp_interval (ps_d p')))"

subsection \<open>Specification\<close>

datatype pair_class = InFlight | Unreadable | Expired | Due QueueMessage

definition in_flight_at :: "Dispatcher \<Rightarrow> int \<Rightarrow> bytes \<Rightarrow> bool" where
  "in_flight_at d now key =
    (case map_of (dp_inFlight d) key of None \<Rightarrow> False
     | Some e \<Rightarrow> now - if_dispatchedAt e < sint (dp_inFlightTimeout d))"

definition classify :: "('idx, 's) dispatch_env \<Rightarrow> Dispatcher \<Rightarrow> i64 \<Rightarrow> nat \<Rightarrow> bytes \<Rightarrow> bytes \<Rightarrow> pair_class" where
  "classify env d nowMs n key val =
    (if in_flight_at d (de_clock env (2 * n)) key then InFlight
     else case proto_Unmarshal (de_proto env) val of
       Inl err \<Rightarrow> Unreadable
     | Inr msg \<Rightarrow> if isExpired msg nowMs then Expired else Due (queue_message msg key))"

fun due_msgs :: "('idx, 's) dispatch_env \<Rightarrow> Dispatcher \<Rightarrow> i64 \<Rightarrow> nat \<Rightarrow> (bytes \<times> bytes) list \<Rightarrow> (nat \<times> bytes \<times> QueueMessage) list" where
  "due_msgs env d nowMs n [] = []"
| "due_msgs env d nowMs n ((k, v) # kvs) =
    (case classify env d nowMs n k v of
       Due q \<Rightarrow> (n, k, q) # due_msgs env d nowMs (n + 1) kvs
     | _ \<Rightarrow> due_msgs env d nowMs (n + 1) kvs)"

fun expired_keys :: "('idx, 's) dispatch_env \<Rightarrow> Dispatcher \<Rightarrow> i64 \<Rightarrow> nat \<Rightarrow> (bytes \<times> bytes) list \<Rightarrow> bytes list" where
  "expired_keys env d nowMs n [] = []"
| "expired_keys env d nowMs n ((k, v) # kvs) =
    (case classify env d nowMs n k v of
       Expired \<Rightarrow> k # expired_keys env d nowMs (n + 1) kvs
     | _ \<Rightarrow> expired_keys env d nowMs (n + 1) kvs)"

text \<open>The dispatches of a list of messages, and which of them reached a consumer.\<close>

fun dispatch_list :: "('idx, 's) dispatch_env \<Rightarrow> string \<Rightarrow> 's Hub \<Rightarrow> (nat \<times> bytes \<times> QueueMessage) list
    \<Rightarrow> 's Hub \<times> (nat \<times> bytes) list" where
  "dispatch_list env topic h [] = (h, [])"
| "dispatch_list env topic h ((n, k, q) # ms) =
    (case DispatchToTopic (de_select env) (de_gorder env n) (de_uorder env n) h topic q k of (h1, sentTo) \<Rightarrow>
      case dispatch_list env topic h1 ms of (h2, sent) \<Rightarrow>
        (h2, if sentTo = [] then sent else (n, k) # sent))"

text \<open>
  An environment with the strategy the program uses and range loops that visit every pair,
  and a hub whose channels of a topic have room for \<open>n\<close> messages.
\<close>

definition env_ok :: "('idx, RoundRobinStrategy) dispatch_env \<Rightarrow> bool" where
  "env_ok env \<longleftrightarrow> de_select env = RoundRobin_Select \<and> range_order (de_torder env) \<and>
    (\<forall>n. range_order (de_gorder env n) \<and> range_order (de_uorder env n))"

definition hub_ready :: "'s Hub \<Rightarrow> string \<Rightarrow> TopicSubscription \<Rightarrow> nat \<Rightarrow> bool" where
  "hub_ready h topic sub n \<longleftrightarrow> hub_inv h \<and> map_of (hub_topics h) topic = Some sub \<and>
    list_all (\<lambda>(g, cs). length cs < 2 ^ 64) (ts_groups sub) \<and> distinct (map (ce_Ch \<circ> snd) (hub_byID h)) \<and>
    list_all (\<lambda>(i, c). ce_Topic c \<noteq> topic \<or>
      length (fst (hub_chans h (ce_Ch c))) + n \<le> snd (hub_chans h (ce_Ch c))) (hub_byID h)"

text \<open>A message of one topic, stored under bucket 5, and a hub with one consumer of the topic.\<close>

definition sample_msg :: "bytes StoredMessage" where
  "sample_msg = \<lparr>sm_Topic = ''t'', sm_Payload = [42], sm_EnqueuedAtUnixMs = 1, sm_DelayMs = 4, sm_TtlMs = 0, sm_Indexes = []\<rparr>"

definition sample_store :: kvlist where
  "sample_store = [(EventKey 5 7 1, case proto_Marshal mem_proto sample_msg of Inr v \<Rightarrow> v | Inl _ \<Rightarrow> [])]"

definition sample_env :: "(bytes, RoundRobinStrategy) dispatch_env" where
  "sample_env = \<lparr>de_proto = mem_proto, de_hash = (\<lambda>_. 7), de_select = RoundRobin_Select, de_gorder = (\<lambda>_. id),
     de_uorder = (\<lambda>_. id), de_torder = id, de_clock = int, de_bucketSize = 0\<rparr>"

definition sample_pass :: "RoundRobinStrategy Pass" where
  "sample_pass = \<lparr>ps_d = NewDispatcher 50 1000, ps_hub = Hub_Register (NewHub NewRoundRobinStrategy (\<lambda>_. ([], 8))) ''x'' ''t'' ''g'' 0,
     ps_deleter = NewDeleter, ps_n = 0\<rparr>"

section \<open>The normal form of a pass\<close>

lemma isInFlight_eq:
  "isInFlight d now key =
    (if in_flight_at d now key then (d, True) else (d\<lparr>dp_inFlight := AList.delete key (dp_inFlight d)\<rparr>, False))"
proof (cases "map_of (dp_inFlight d) key")
  case None
  then have "AList.delete key (dp_inFlight d) = dp_inFlight d" by (intro delete_id) (simp add: map_of_eq_None_iff)
  with None show ?thesis by (simp add: isInFlight_def in_flight_at_def)
qed (simp add: isInFlight_def in_flight_at_def)

text \<open>Only the entries of the keys still to come matter for the rest of a scan.\<close>

lemma classify_cong:
  "map_of (dp_inFlight d) k = map_of (dp_inFlight d') k \<Longrightarrow> dp_inFlightTimeout d = dp_inFlightTimeout d' \<Longrightarrow>
    classify env d nowMs n k v = classify env d' nowMs n k v"
  by (simp only: classify_def in_flight_at_def)

lemma yield_step:
  fixes env :: "('idx, 's) dispatch_env"
  obtains s' where "dispatch_yield env topic nowMs s k v = (s', None)"
    and "ds_n s' = ds_n s + 1" and "dp_inFlightTimeout (ds_d s') = dp_inFlightTimeout (ds_d s)"
    and "dp_interval (ds_d s') = dp_interval (ds_d s)"
    and "\<forall>k'. k' \<noteq> k \<longrightarrow> map_of (dp_inFlight (ds_d s')) k' = map_of (dp_inFlight (ds_d s)) k'"
    and "ds_expired s' = ds_expired s @ (if classify env (ds_d s) nowMs (ds_n s) k v = Expired then [k] else [])"
    and "\<forall>ms. dispatch_list env topic (ds_hub s) ((case classify env (ds_d s) nowMs (ds_n s) k v of
        Due q \<Rightarrow> [(ds_n s, k, q)] | _ \<Rightarrow> []) @ ms) =
      (fst (dispatch_list env topic (ds_hub s') ms), (if ds_dispatched s' = ds_dispatched s then [] else [(ds_n s, k)]) @
        snd (dispatch_list env topic (ds_hub s') ms))"
    and "ds_dispatched s' = ds_dispatched s \<or> ds_dispatched s' = ds_dispatched s + 1 \<and>
      map_of (dp_inFlight (ds_d s')) k = Some \<lparr>if_dispatchedAt = de_clock env (2 * ds_n s + 1), if_topic = topic\<rparr>"
proof (cases "in_flight_at (ds_d s) (de_clock env (2 * ds_n s)) k")
  case True
  then show ?thesis
    by (intro that[of "s\<lparr>ds_n := ds_n s + 1\<rparr>"])
      (simp_all add: dispatch_yield_def isInFlight_eq classify_def Let_def)
next
  case flight: False
  let ?d1 = "(ds_d s)\<lparr>dp_inFlight := AList.delete k (dp_inFlight (ds_d s))\<rparr>"
  show ?thesis
  proof (cases "proto_Unmarshal (de_proto env) v")
    case (Inl err)
    with flight show ?thesis
      by (intro that[of "s\<lparr>ds_d := ?d1, ds_n := ds_n s + 1\<rparr>"])
        (simp_all add: dispatch_yield_def isInFlight_eq classify_def Let_def delete_conv')
  next
    case (Inr msg)
    show ?thesis
    proof (cases "isExpired msg nowMs")
      case True
      with flight Inr show ?thesis
        by (intro that[of "s\<lparr>ds_d := ?d1, ds_n := ds_n s + 1, ds_expired := ds_expired s @ [k]\<rparr>"])
          (simp_all add: dispatch_yield_def isInFlight_eq classify_def Let_def delete_conv')
    next
      case False
      obtain h' sentTo where disp: "DispatchToTopic (de_select env) (de_gorder env (ds_n s)) (de_uorder env (ds_n s)) (ds_hub s)
          topic (queue_message msg k) k = (h', sentTo)" by fastforce
      show ?thesis
      proof (cases "sentTo = []")
        case True
        with flight Inr False disp show ?thesis
          by (intro that[of "s\<lparr>ds_d := ?d1, ds_hub := h', ds_n := ds_n s + 1\<rparr>"])
            (simp_all add: dispatch_yield_def isInFlight_eq classify_def Let_def delete_conv' split: prod.split)
      next
        case sent: False
        let ?d2 = "?d1\<lparr>dp_inFlight := AList.update k \<lparr>if_dispatchedAt = de_clock env (2 * ds_n s + 1), if_topic = topic\<rparr>
            (dp_inFlight ?d1)\<rparr>"
        from sent flight Inr False disp show ?thesis
          by (intro that[of "s\<lparr>ds_d := ?d2, ds_hub := h', ds_n := ds_n s + 1, ds_dispatched := ds_dispatched s + 1\<rparr>"])
            (simp_all add: dispatch_yield_def isInFlight_eq classify_def Let_def delete_conv' update_conv' split: prod.split)
      qed
    qed
  qed
qed

lemma scan_dispatch:
  assumes "distinct (map fst kvs)" and "\<forall>k\<in>fst ` set kvs. map_of (dp_inFlight (ds_d s)) k = map_of (dp_inFlight d0) k"
    and "dp_inFlightTimeout (ds_d s) = dp_inFlightTimeout d0"
  shows "\<exists>s' sent. scan_loop (dispatch_yield env topic nowMs) s kvs = (s', None) \<and>
    dispatch_list env topic (ds_hub s) (due_msgs env d0 nowMs (ds_n s) kvs) = (ds_hub s', sent) \<and>
    ds_dispatched s' = ds_dispatched s + length sent \<and>
    ds_expired s' = ds_expired s @ expired_keys env d0 nowMs (ds_n s) kvs \<and> ds_n s' = ds_n s + length kvs \<and>
    dp_inFlightTimeout (ds_d s') = dp_inFlightTimeout d0 \<and> dp_interval (ds_d s') = dp_interval (ds_d s) \<and>
    (\<forall>k. k \<notin> fst ` set kvs \<longrightarrow> map_of (dp_inFlight (ds_d s')) k = map_of (dp_inFlight (ds_d s)) k) \<and>
    (\<forall>(n, k)\<in>set sent. k \<in> fst ` set kvs \<and>
      map_of (dp_inFlight (ds_d s')) k = Some \<lparr>if_dispatchedAt = de_clock env (2 * n + 1), if_topic = topic\<rparr>)"
  using assms
proof (induction kvs arbitrary: s)
  case (Cons kv kvs)
  obtain k v where kv: "kv = (k, v)" by fastforce
  have cls: "classify env (ds_d s) nowMs (ds_n s) k v = classify env d0 nowMs (ds_n s) k v"
    using Cons.prems kv by (intro classify_cong) simp_all
  obtain s1 where s1: "dispatch_yield env topic nowMs s k v = (s1, None)" "ds_n s1 = ds_n s + 1"
      "dp_inFlightTimeout (ds_d s1) = dp_inFlightTimeout (ds_d s)" "dp_interval (ds_d s1) = dp_interval (ds_d s)"
      "\<forall>k'. k' \<noteq> k \<longrightarrow> map_of (dp_inFlight (ds_d s1)) k' = map_of (dp_inFlight (ds_d s)) k'"
      "ds_expired s1 = ds_expired s @ (if classify env (ds_d s) nowMs (ds_n s) k v = Expired then [k] else [])"
      "\<forall>ms. dispatch_list env topic (ds_hub s) ((case classify env (ds_d s) nowMs (ds_n s) k v of
          Due q \<Rightarrow> [(ds_n s, k, q)] | _ \<Rightarrow> []) @ ms) =
        (fst (dispatch_list env topic (ds_hub s1) ms), (if ds_dispatched s1 = ds_dispatched s then [] else [(ds_n s, k)]) @
          snd (dispatch_list env topic (ds_hub s1) ms))"
      "ds_dispatched s1 = ds_dispatched s \<or> ds_dispatched s1 = ds_dispatched s + 1 \<and>
        map_of (dp_inFlight (ds_d s1)) k = Some \<lparr>if_dispatchedAt = de_clock env (2 * ds_n s + 1), if_topic = topic\<rparr>"
    by (rule yield_step[of env topic nowMs s k v]) (rule that; assumption)
  have k: "k \<notin> fst ` set kvs" using Cons.prems(1) kv by auto
  have "\<forall>k'\<in>fst ` set kvs. map_of (dp_inFlight (ds_d s1)) k' = map_of (dp_inFlight d0) k'"
  proof
    fix k' assume k': "k' \<in> fst ` set kvs"
    with k have "k' \<noteq> k" by auto
    with k' s1(5) bspec[OF Cons.prems(2), of k'] show "map_of (dp_inFlight (ds_d s1)) k' = map_of (dp_inFlight d0) k'" by simp
  qed
  with Cons.IH[of s1] Cons.prems kv s1(3) obtain s' sent where s': "scan_loop (dispatch_yield env topic nowMs) s1 kvs = (s', None)"
      "dispatch_list env topic (ds_hub s1) (due_msgs env d0 nowMs (ds_n s1) kvs) = (ds_hub s', sent)"
      "ds_dispatched s' = ds_dispatched s1 + length sent"
      "ds_expired s' = ds_expired s1 @ expired_keys env d0 nowMs (ds_n s1) kvs" "ds_n s' = ds_n s1 + length kvs"
      "dp_inFlightTimeout (ds_d s') = dp_inFlightTimeout d0" "dp_interval (ds_d s') = dp_interval (ds_d s1)"
      "\<forall>k. k \<notin> fst ` set kvs \<longrightarrow> map_of (dp_inFlight (ds_d s')) k = map_of (dp_inFlight (ds_d s1)) k"
      "\<forall>(n, k)\<in>set sent. k \<in> fst ` set kvs \<and>
        map_of (dp_inFlight (ds_d s')) k = Some \<lparr>if_dispatchedAt = de_clock env (2 * n + 1), if_topic = topic\<rparr>"
    by auto
  let ?sent = "(if ds_dispatched s1 = ds_dispatched s then [] else [(ds_n s, k)]) @ sent"
  have due: "due_msgs env d0 nowMs (ds_n s) (kv # kvs) =
      (case classify env (ds_d s) nowMs (ds_n s) k v of Due q \<Rightarrow> [(ds_n s, k, q)] | _ \<Rightarrow> []) @ due_msgs env d0 nowMs (ds_n s1) kvs"
    unfolding cls by (simp add: kv s1(2) split: pair_class.split)
  have disp: "dispatch_list env topic (ds_hub s) (due_msgs env d0 nowMs (ds_n s) (kv # kvs)) = (ds_hub s', ?sent)"
    unfolding due using s1(7) s'(2) by simp
  have exp: "ds_expired s' = ds_expired s @ expired_keys env d0 nowMs (ds_n s) (kv # kvs)"
    using s1(6) s'(4) cls s1(2) by (simp add: kv split: pair_class.split)
  have key: "map_of (dp_inFlight (ds_d s')) k = map_of (dp_inFlight (ds_d s1)) k" using s'(8) k by blast
  show ?case
  proof (intro exI[of _ s'] exI[of _ ?sent] conjI)
    show "scan_loop (dispatch_yield env topic nowMs) s (kv # kvs) = (s', None)" using kv s1(1) s'(1) by simp
    show "ds_dispatched s' = ds_dispatched s + length ?sent" using s1(8) s'(3) by auto
    show "\<forall>k. k \<notin> fst ` set (kv # kvs) \<longrightarrow> map_of (dp_inFlight (ds_d s')) k = map_of (dp_inFlight (ds_d s)) k"
      using s'(8) s1(5) kv by simp
    show "\<forall>(n, k)\<in>set ?sent. k \<in> fst ` set (kv # kvs) \<and>
        map_of (dp_inFlight (ds_d s')) k = Some \<lparr>if_dispatchedAt = de_clock env (2 * n + 1), if_topic = topic\<rparr>"
      using s'(9) s1(8) key kv by auto
  qed (use disp exp s'(5-7) s1(2,4) in simp_all)
qed simp


context storage_db
begin

lemma dispatchTopic_pass:
  fixes env :: "('idx, 'd) dispatch_env"
  assumes G: "good st" and nb: "CalculateBucket nowMs (de_bucketSize env) = Ret nb"
  shows "\<exists>kvs p' sent. lists_store kvs (range_view (due_range (de_hash env topic) nb) (view st)) \<and>
    dispatchTopic env D st topic nowMs p = Ret (p', length sent) \<and>
    dispatch_list env topic (ps_hub p) (due_msgs env (ps_d p) nowMs (ps_n p) kvs) = (ps_hub p', sent) \<and>
    dl_pending (ps_deleter p') = dl_pending (ps_deleter p) @ expired_keys env (ps_d p) nowMs (ps_n p) kvs \<and>
    ps_n p' = ps_n p + length kvs \<and>
    dp_inFlightTimeout (ps_d p') = dp_inFlightTimeout (ps_d p) \<and> dp_interval (ps_d p') = dp_interval (ps_d p) \<and>
    (\<forall>k. k \<notin> fst ` set kvs \<longrightarrow> map_of (dp_inFlight (ps_d p')) k = map_of (dp_inFlight (ps_d p)) k) \<and>
    (\<forall>(n, k)\<in>set sent. map_of (dp_inFlight (ps_d p')) k =
      Some \<lparr>if_dispatchedAt = de_clock env (2 * n + 1), if_topic = topic\<rparr>)"
proof -
  let ?s0 = "\<lparr>ds_d = ps_d p, ds_hub = ps_hub p, ds_n = ps_n p, ds_dispatched = 0, ds_expired = []\<rparr>"
  obtain kvs where kvs: "lists_store kvs (range_view (due_range (de_hash env topic) nb) (view st))"
      and scan: "\<And>yield (s :: 'd DispatchState). DB_Scan D st (due_range (de_hash env topic) nb) yield s = scan_loop yield s kvs"
    by (rule Scan_spec[OF G, of "due_range (de_hash env topic) nb", where 's = "'d DispatchState"]) (rule that; assumption)
  have "distinct (map fst kvs)" using kvs by (simp add: lists_store_def sorted_entries_distinct)
  from scan_dispatch[OF this, of ?s0 "ps_d p" env topic nowMs, simplified] obtain s' sent where
    s': "scan_loop (dispatch_yield env topic nowMs) ?s0 kvs = (s', None)"
      "dispatch_list env topic (ps_hub p) (due_msgs env (ps_d p) nowMs (ps_n p) kvs) = (ds_hub s', sent)"
      "ds_dispatched s' = length sent" "ds_expired s' = expired_keys env (ps_d p) nowMs (ps_n p) kvs"
      "ds_n s' = ps_n p + length kvs" "dp_inFlightTimeout (ds_d s') = dp_inFlightTimeout (ps_d p)"
      "dp_interval (ds_d s') = dp_interval (ps_d p)"
      "\<forall>k. k \<notin> fst ` set kvs \<longrightarrow> map_of (dp_inFlight (ds_d s')) k = map_of (dp_inFlight (ps_d p)) k"
      "\<forall>x\<in>set sent. case x of (n, k) \<Rightarrow> k \<in> fst ` set kvs \<and> map_of (dp_inFlight (ds_d s')) k =
        Some \<lparr>if_dispatchedAt = de_clock env (2 * n + 1), if_topic = topic\<rparr>"
    by (elim exE conjE) (rule that; simp)
  let ?p' = "p\<lparr>ps_d := ds_d s', ps_hub := ds_hub s', ps_n := ds_n s', ps_deleter :=
      (if length (ds_expired s') > 0 then foldl MarkDeleted (ps_deleter p) (ds_expired s') else ps_deleter p)\<rparr>"
  have "dispatchTopic env D st topic nowMs p = Ret (?p', length sent)"
    using nb s'(1,3) by (simp add: dispatchTopic_def scan)
  moreover have "dl_pending (ps_deleter ?p') = dl_pending (ps_deleter p) @ expired_keys env (ps_d p) nowMs (ps_n p) kvs"
    using s'(4) by (simp add: pending_marks)
  ultimately show ?thesis
    using kvs s' by (intro exI[of _ kvs] exI[of _ ?p'] exI[of _ sent]) auto
qed

end

lemma due_msgs_mem:
  "(n, k, q) \<in> set (due_msgs env d nowMs n0 kvs) \<Longrightarrow>
    \<exists>v msg. (k, v) \<in> set kvs \<and> n0 \<le> n \<and> n < n0 + length kvs \<and> \<not> in_flight_at d (de_clock env (2 * n)) k \<and>
      proto_Unmarshal (de_proto env) v = Inr msg \<and> \<not> isExpired msg nowMs \<and> q = queue_message msg k"
proof (induction env d nowMs n0 kvs rule: due_msgs.induct)
  case (2 env d nowMs n0 k' v' kvs)
  show ?case
  proof (cases "(n, k, q) \<in> set (due_msgs env d nowMs (n0 + 1) kvs)")
    case True
    with 2 show ?thesis by (force split: pair_class.splits)
  next
    case False
    with "2.prems" have "n = n0" "k = k'" "classify env d nowMs n0 k' v' = Due q"
      by (auto split: pair_class.splits)
    then show ?thesis by (auto simp: classify_def split: if_splits sum.splits)
  qed
qed simp

lemma due_msgs_complete:
  assumes "(k, v) \<in> set kvs" and "proto_Unmarshal (de_proto env) v = Inr msg" and "\<not> isExpired msg nowMs"
    and "\<forall>n. n0 \<le> n \<and> n < n0 + length kvs \<longrightarrow> \<not> in_flight_at d (de_clock env (2 * n)) k"
  shows "\<exists>n. (n, k, queue_message msg k) \<in> set (due_msgs env d nowMs n0 kvs)"
  using assms
proof (induction kvs arbitrary: n0)
  case (Cons kv kvs)
  show ?case
  proof (cases "kv = (k, v)")
    case True
    with Cons.prems have "classify env d nowMs n0 k v = Due (queue_message msg k)" by (simp add: classify_def)
    with True show ?thesis by (auto simp del: fun_upd_apply)
  next
    case False
    then obtain n where "(n, k, queue_message msg k) \<in> set (due_msgs env d nowMs (n0 + 1) kvs)"
      using Cons.IH[of "n0 + 1"] Cons.prems by auto
    then show ?thesis by (cases kv) (auto split: pair_class.split)
  qed
qed simp

lemma expired_keys_mem:
  "k \<in> set (expired_keys env d nowMs n0 kvs) \<Longrightarrow>
    \<exists>v msg. (k, v) \<in> set kvs \<and> proto_Unmarshal (de_proto env) v = Inr msg \<and> isExpired msg nowMs"
  by (induction env d nowMs n0 kvs rule: expired_keys.induct)
    (fastforce simp: classify_def split: pair_class.splits sum.splits if_splits)+

lemma length_due_msgs: "length (due_msgs env d nowMs n kvs) \<le> length kvs"
  by (induction env d nowMs n kvs rule: due_msgs.induct) (auto split: pair_class.split)

lemma dispatch_list_frame:
  "dispatch_list env topic h ms = (h', sent) \<Longrightarrow> hub_topics h' = hub_topics h \<and> hub_byID h' = hub_byID h"
proof (induction env topic h ms arbitrary: h' sent rule: dispatch_list.induct)
  case (2 env topic h n k q ms)
  obtain h1 sentTo where h1: "DispatchToTopic (de_select env) (de_gorder env n) (de_uorder env n) h topic q k = (h1, sentTo)"
    by fastforce
  obtain h2 sent2 where h2: "dispatch_list env topic h1 ms = (h2, sent2)" by fastforce
  then show ?case using "2.IH"[OF h1[symmetric] h2] "2.prems" DispatchToTopic_frame(1,2)[OF h1] h1 by simp
qed simp

lemma dispatch_list_appends:
  "dispatch_list env topic h ms = (h', sent) \<Longrightarrow>
    \<exists>qs. hub_chans h' ch = (fst (hub_chans h ch) @ qs, snd (hub_chans h ch)) \<and> set qs \<subseteq> snd ` snd ` set ms"
proof (induction env topic h ms arbitrary: h' sent rule: dispatch_list.induct)
  case (2 env topic h n k q ms)
  obtain h1 sentTo where h1: "DispatchToTopic (de_select env) (de_gorder env n) (de_uorder env n) h topic q k = (h1, sentTo)"
    by fastforce
  obtain h2 sent2 where h2: "dispatch_list env topic h1 ms = (h2, sent2)" by fastforce
  then have h': "h' = h2" using "2.prems" h1 by simp
  obtain m where m: "hub_chans h1 ch = (fst (hub_chans h ch) @ replicate m q, snd (hub_chans h ch))"
    using DispatchToTopic_frame(3)[OF h1] by blast
  obtain qs where "hub_chans h2 ch = (fst (hub_chans h1 ch) @ qs, snd (hub_chans h1 ch))" "set qs \<subseteq> snd ` snd ` set ms"
    using "2.IH"[OF h1[symmetric] h2] by blast
  with m h' show ?case by (intro exI[of _ "replicate m q @ qs"]) auto
qed simp

text \<open>With room for all of them, every message reaches each group and each universal consumer.\<close>

lemma dispatch_list_room:
  assumes "hub_inv h" and "map_of (hub_topics h) topic = Some sub" and "de_select env = RoundRobin_Select"
    and "\<And>n. range_order (de_gorder env n)" and "\<And>n. range_order (de_uorder env n)"
    and "list_all (\<lambda>(g, cs). length cs < 2 ^ 64) (ts_groups sub)"
    and "distinct (map (ce_Ch \<circ> snd) (hub_byID h))"
    and "list_all (\<lambda>(i, c). ce_Topic c \<noteq> topic \<or>
      length (fst (hub_chans h (ce_Ch c))) + length ms \<le> snd (hub_chans h (ce_Ch c))) (hub_byID h)"
  shows "\<exists>h'. dispatch_list env topic h ms = (h', map (\<lambda>(n, k, q). (n, k)) ms) \<and>
    (\<forall>(n, k, q)\<in>set ms.
      list_all (\<lambda>(g, cs). \<exists>c. c \<in> set cs \<and> q \<in> set (fst (hub_chans h' (ce_Ch c)))) (ts_groups sub) \<and>
      list_all (\<lambda>(i, c). q \<in> set (fst (hub_chans h' (ce_Ch c)))) (ts_universal sub))"
  using assms
proof (induction ms arbitrary: h)
  case (Cons m ms)
  obtain n k q where m: "m = (n, k, q)" by (cases m)
  obtain h1 sentTo where h1: "DispatchToTopic RoundRobin_Select (de_gorder env n) (de_uorder env n) h topic q k = (h1, sentTo)"
    by fastforce
  note F = DispatchToTopic_frame[OF h1]
  have room: "list_all (\<lambda>(i, c). ce_Topic c \<noteq> topic \<or> has_room h c) (hub_byID h)"
    using Cons.prems(8) by (auto simp: list_all_iff has_room_def)
  note R = dispatch_room[OF Cons.prems(1,2,4,5,6,7) room h1]
  have "sentTo \<noteq> []"
    using R(1) hub_invD(4)[OF Cons.prems(1,2)] by (auto simp: ts_isEmpty_def)
  have "hub_inv h1" using DispatchToTopic_inv[OF Cons.prems(1)] h1 by (metis fst_conv)
  moreover have "list_all (\<lambda>(i, c). ce_Topic c \<noteq> topic \<or>
      length (fst (hub_chans h1 (ce_Ch c))) + length ms \<le> snd (hub_chans h1 (ce_Ch c))) (hub_byID h1)"
    unfolding F(2) list_all_iff
  proof
    fix ic assume ic: "ic \<in> set (hub_byID h)"
    obtain i c where c: "ic = (i, c)" by fastforce
    have "ce_Topic c \<noteq> topic \<or> length (fst (hub_chans h (ce_Ch c))) + Suc (length ms) \<le> snd (hub_chans h (ce_Ch c))"
      using Cons.prems(8) ic c by (auto simp: list_all_iff)
    then show "case ic of (i, c) \<Rightarrow> ce_Topic c \<noteq> topic \<or>
        length (fst (hub_chans h1 (ce_Ch c))) + length ms \<le> snd (hub_chans h1 (ce_Ch c))"
      using R(2)[of "ce_Ch c"] c by auto
  qed
  ultimately obtain h' where h': "dispatch_list env topic h1 ms = (h', map (\<lambda>(n, k, q). (n, k)) ms)"
      "\<forall>(n, k, q)\<in>set ms.
        list_all (\<lambda>(g, cs). \<exists>c. c \<in> set cs \<and> q \<in> set (fst (hub_chans h' (ce_Ch c)))) (ts_groups sub) \<and>
        list_all (\<lambda>(i, c). q \<in> set (fst (hub_chans h' (ce_Ch c)))) (ts_universal sub)"
    using Cons.IH[of h1] Cons.prems(2-7) F by auto
  have keep: "q \<in> set (fst (hub_chans h' (ce_Ch c)))" if "delivered h h1 q c" for c
    using dispatch_list_appends[OF h'(1), of "ce_Ch c"] that by (auto simp: delivered_def)
  have "list_all (\<lambda>(g, cs). \<exists>c. c \<in> set cs \<and> q \<in> set (fst (hub_chans h' (ce_Ch c)))) (ts_groups sub)"
      "list_all (\<lambda>(i, c). q \<in> set (fst (hub_chans h' (ce_Ch c)))) (ts_universal sub)"
    using R(1) keep unfolding list_all_iff by fast+
  moreover have "dispatch_list env topic h (m # ms) = (h', map (\<lambda>(n, k, q). (n, k)) (m # ms))"
    using Cons.prems(3) m h1 h'(1) \<open>sentTo \<noteq> []\<close> by simp
  ultimately show ?case using m h'(2) by auto
qed simp


lemma length_lists_store: "lists_store kvs m \<Longrightarrow> length kvs = card (dom m)"
proof -
  assume m: "lists_store kvs m"
  then have "distinct (map fst kvs)" "m = map_of kvs" by (simp_all add: lists_store_def sorted_entries_distinct)
  then show ?thesis using distinct_card[of "map fst kvs"] by (simp add: dom_map_of_conv_image_fst)
qed

lemma due_bounds_event:
  assumes "valid_bucketSize d" and "CalculateBucket nowMs d = Ret nb"
  shows "in_bounds (due_range h nb) (EventKey b h' i) \<longleftrightarrow> h' = h \<and> b \<le> nb"
  using due_range_event[of h b h' i nb] less_plus_one_iff[OF CalculateBucket_not_max[OF assms], of b]
  by (simp add: in_bounds_def due_range_def)

lemma dispatch_topics_frame:
  fixes env :: "('idx, 's) dispatch_env"
  assumes S: "storage_db D view pending good notfound" and G: "good st" and v: "valid_bucketSize (de_bucketSize env)"
  shows "hub_inv (ps_hub p) \<Longrightarrow> \<exists>p' n. dispatch_topics env D st nowMs p tot topics = Ret (p', n) \<and>
    hub_inv (ps_hub p') \<and> hub_topics (ps_hub p') = hub_topics (ps_hub p) \<and> hub_byID (ps_hub p') = hub_byID (ps_hub p)"
proof (induction topics arbitrary: p tot)
  case (Cons topic topics)
  obtain nb where nb: "CalculateBucket nowMs (de_bucketSize env) = Ret nb" using CalculateBucket_valid[OF v] by blast
  obtain kvs p1 sent where p1: "dispatchTopic env D st topic nowMs p = Ret (p1, length sent)"
      "dispatch_list env topic (ps_hub p) (due_msgs env (ps_d p) nowMs (ps_n p) kvs) = (ps_hub p1, sent)"
    using storage_db.dispatchTopic_pass[OF S G nb] by blast
  note F = dispatch_list_frame[OF p1(2)]
  then have "hub_inv (ps_hub p1)" using Cons.prems hub_inv_cong by blast
  from Cons.IH[OF this, of "tot + length sent"] p1(1) F show ?case by auto
qed simp

lemma sample_ready: "hub_ready (ps_hub sample_pass) ''t''
    \<lparr>ts_groups = [(''g'', [\<lparr>ce_ID = ''x'', ce_Topic = ''t'', ce_Group = ''g'', ce_Ch = 0\<rparr>])], ts_universal = []\<rparr> 1"
  by (simp add: hub_ready_def sample_pass_def Hub_Register_def NewHub_def NewRoundRobinStrategy_def newTopicSubscription_def
      ts_add_def IsUniversal_def map_get_def Let_def hub_inv_def ts_inv_def group_ok_def ts_isEmpty_def ts_member_def)

lemma sample_store_msg: "\<exists>v. sample_store = [(EventKey 5 7 1, v)] \<and> proto_Unmarshal mem_proto v = Inr sample_msg"
  using proto_contractD[OF mem_proto_contract, of sample_msg]
  by (simp add: sample_store_def mem_proto_def)

text \<open>Every due message is delivered: a stored, readable, unexpired message of the topic whose
  bucket has come and that is not in flight is, after one pass, in the channel of a member of
  each group and of every universal consumer, provided the channels of the topic have room
  for the due messages, and it is tracked as in flight.\<close>

theorem dispatch_delivers_due:
  assumes "storage_db D view pending good notfound" and "good st" and "env_ok env" and "valid_bucketSize (de_bucketSize env)"
    and "CalculateBucket nowMs (de_bucketSize env) = Ret nb" and "b \<le> nb"
    and "view st (EventKey b (de_hash env topic) i) = Some v" and "proto_Unmarshal (de_proto env) v = Inr msg"
    and "\<not> isExpired msg nowMs" and "\<forall>n. \<not> in_flight_at (ps_d p) (de_clock env n) (EventKey b (de_hash env topic) i)"
    and "hub_ready (ps_hub p) topic sub (card (dom (range_view (due_range (de_hash env topic) nb) (view st))))"
  shows "\<exists>p' n. dispatchTopic env D st topic nowMs p = Ret (p', n) \<and> 0 < n \<and>
    list_all (\<lambda>(g, cs). \<exists>c. c \<in> set cs \<and> queue_message msg (EventKey b (de_hash env topic) i)
      \<in> set (fst (hub_chans (ps_hub p') (ce_Ch c)))) (ts_groups sub) \<and>
    list_all (\<lambda>(j, c). queue_message msg (EventKey b (de_hash env topic) i)
      \<in> set (fst (hub_chans (ps_hub p') (ce_Ch c)))) (ts_universal sub) \<and>
    map_of (dp_inFlight (ps_d p')) (EventKey b (de_hash env topic) i) \<noteq> None"
proof -
  let ?k = "EventKey b (de_hash env topic) i"
  obtain kvs p' sent where kvs: "lists_store kvs (range_view (due_range (de_hash env topic) nb) (view st))"
    and p': "dispatchTopic env D st topic nowMs p = Ret (p', length sent)"
      "dispatch_list env topic (ps_hub p) (due_msgs env (ps_d p) nowMs (ps_n p) kvs) = (ps_hub p', sent)"
      "\<forall>(n, k)\<in>set sent. map_of (dp_inFlight (ps_d p')) k =
        Some \<lparr>if_dispatchedAt = de_clock env (2 * n + 1), if_topic = topic\<rparr>"
    using storage_db.dispatchTopic_pass[OF assms(1,2,5)] by blast
  let ?ms = "due_msgs env (ps_d p) nowMs (ps_n p) kvs"
  have "(?k, v) \<in> set kvs"
    using lists_store_set[OF kvs] assms(6,7) due_bounds_event[OF assms(4,5)] by (simp add: range_view_Some_iff)
  then obtain m where m: "(m, ?k, queue_message msg ?k) \<in> set ?ms"
    using due_msgs_complete[of ?k v kvs env msg nowMs "ps_n p" "ps_d p"] assms(8-10) by blast
  have room: "list_all (\<lambda>(i, c). ce_Topic c \<noteq> topic \<or>
      length (fst (hub_chans (ps_hub p) (ce_Ch c))) + length ?ms \<le> snd (hub_chans (ps_hub p) (ce_Ch c))) (hub_byID (ps_hub p))"
    using assms(11) length_due_msgs[of env "ps_d p" nowMs "ps_n p" kvs] length_lists_store[OF kvs]
    unfolding hub_ready_def list_all_iff by fastforce
  have "sent = map (\<lambda>(n, k, q). (n, k)) ?ms \<and> (\<forall>(n, k, q)\<in>set ?ms.
      list_all (\<lambda>(g, cs). \<exists>c. c \<in> set cs \<and> q \<in> set (fst (hub_chans (ps_hub p') (ce_Ch c)))) (ts_groups sub) \<and>
      list_all (\<lambda>(i, c). q \<in> set (fst (hub_chans (ps_hub p') (ce_Ch c)))) (ts_universal sub))"
    using dispatch_list_room[OF _ _ _ _ _ _ _ room, of sub env] assms(3,11) p'(2) unfolding env_ok_def hub_ready_def by fastforce
  with m p'(3) have "(m, ?k) \<in> set sent" and deliv: "list_all (\<lambda>(g, cs). \<exists>c. c \<in> set cs \<and> queue_message msg ?k
      \<in> set (fst (hub_chans (ps_hub p') (ce_Ch c)))) (ts_groups sub)"
    "list_all (\<lambda>(j, c). queue_message msg ?k \<in> set (fst (hub_chans (ps_hub p') (ce_Ch c)))) (ts_universal sub)"
    by force+
  with p'(1,3) show ?thesis by (intro exI[of _ p'] exI[of _ "length sent"]) auto
qed

section \<open>Properties\<close>

text \<open>C4: nothing is delivered early, expired, twice in its in-flight window or under a false
  name: every message a pass over a topic adds to any consumer's channel is the stored
  message of its delivery tag, the tag is a key of this topic in a bucket that is not after
  the current one, the time to live has not elapsed, and the key was not in flight.\<close>

theorem dispatch_only_due:
  assumes "storage_db D view pending good notfound" and "good st" and "valid_bucketSize (de_bucketSize env)"
    and "CalculateBucket nowMs (de_bucketSize env) = Ret nb"
    and "dispatchTopic env D st topic nowMs p = Ret (p', n)"
  shows "\<exists>qs. hub_chans (ps_hub p') ch = (fst (hub_chans (ps_hub p) ch) @ qs, snd (hub_chans (ps_hub p) ch)) \<and>
    list_all (\<lambda>q. \<exists>v msg. view st (qm_DeliveryTag q) = Some v \<and> proto_Unmarshal (de_proto env) v = Inr msg \<and>
      q = queue_message msg (qm_DeliveryTag q) \<and> \<not> isExpired msg nowMs \<and>
      (\<exists>n. \<not> in_flight_at (ps_d p) (de_clock env n) (qm_DeliveryTag q)) \<and>
      (\<forall>b h i. qm_DeliveryTag q = EventKey b h i \<longrightarrow> h = de_hash env topic \<and> b \<le> nb)) qs"
proof -
  obtain kvs p1 sent where kvs: "lists_store kvs (range_view (due_range (de_hash env topic) nb) (view st))"
    and p1: "dispatchTopic env D st topic nowMs p = Ret (p1, length sent)"
      "dispatch_list env topic (ps_hub p) (due_msgs env (ps_d p) nowMs (ps_n p) kvs) = (ps_hub p1, sent)"
    using storage_db.dispatchTopic_pass[OF assms(1,2,4)] by blast
  have p': "p' = p1" using p1(1) assms(5) by simp
  obtain qs where qs: "hub_chans (ps_hub p') ch = (fst (hub_chans (ps_hub p) ch) @ qs, snd (hub_chans (ps_hub p) ch))"
      "set qs \<subseteq> snd ` snd ` set (due_msgs env (ps_d p) nowMs (ps_n p) kvs)"
    using dispatch_list_appends[OF p1(2)] p' by blast
  have "\<exists>v msg. view st (qm_DeliveryTag q) = Some v \<and> proto_Unmarshal (de_proto env) v = Inr msg \<and>
      q = queue_message msg (qm_DeliveryTag q) \<and> \<not> isExpired msg nowMs \<and>
      (\<exists>n. \<not> in_flight_at (ps_d p) (de_clock env n) (qm_DeliveryTag q)) \<and>
      (\<forall>b h i. qm_DeliveryTag q = EventKey b h i \<longrightarrow> h = de_hash env topic \<and> b \<le> nb)" if q: "q \<in> set qs" for q
  proof -
    obtain m k where "(m, k, q) \<in> set (due_msgs env (ps_d p) nowMs (ps_n p) kvs)" using qs(2) q by force
    from due_msgs_mem[OF this] obtain v msg where v: "(k, v) \<in> set kvs" "\<not> in_flight_at (ps_d p) (de_clock env (2 * m)) k"
        "proto_Unmarshal (de_proto env) v = Inr msg" "\<not> isExpired msg nowMs" "q = queue_message msg k"
      by blast
    have view: "view st k = Some v" and "in_bounds (due_range (de_hash env topic) nb) k"
      using lists_store_set[OF kvs] v(1) by (simp_all add: range_view_Some_iff)
    then have due: "\<forall>b h i. k = EventKey b h i \<longrightarrow> h = de_hash env topic \<and> b \<le> nb"
      by (metis due_bounds_event assms(3,4))
    have tag: "qm_DeliveryTag q = k" using v(5) by (simp add: queue_message_def)
    show ?thesis unfolding tag
      by (intro exI[of _ v] exI[of _ msg] exI[of _ "2 * m"] conjI view v(2-5) due)
  qed
  then show ?thesis using qs(1) by (auto simp: list_all_iff)
qed

theorem dispatch_only_due_witness:
  "\<exists>p' n. dispatchTopic sample_env (pebble_DB mem_pebble) sample_store ''t'' 6 sample_pass = Ret (p', n) \<and>
    (\<exists>qs. hub_chans (ps_hub p') 0 = (qs, 8) \<and> list_all (\<lambda>q. \<exists>v msg. map_of sample_store (qm_DeliveryTag q) = Some v \<and>
      proto_Unmarshal mem_proto v = Inr msg \<and> q = queue_message msg (qm_DeliveryTag q)) qs)"
proof -
  have G: "sorted_entries sample_store" by (simp add: sample_store_def sorted_entries_def)
  have v: "valid_bucketSize (de_bucketSize sample_env)" by (simp add: sample_env_def valid_bucketSize_def)
  have nb: "CalculateBucket 6 (de_bucketSize sample_env) = Ret 6" by (simp add: sample_env_def CalculateBucket_def)
  obtain p' n where p': "dispatchTopic sample_env (pebble_DB mem_pebble) sample_store ''t'' 6 sample_pass = Ret (p', n)"
    using memp.dispatchTopic_pass[OF G nb] by blast
  have "hub_chans (ps_hub sample_pass) 0 = ([], 8)" by (simp add: sample_pass_def Hub_Register_def NewHub_def Let_def)
  moreover have "de_proto sample_env = mem_proto" by (simp add: sample_env_def)
  ultimately show ?thesis
    using p' dispatch_only_due[OF memp.storage_db_axioms G v nb p', of 0] by (fastforce simp: list_all_iff)
qed

theorem dispatch_delivers_due_witness:
  "\<exists>p' n. dispatchTopic sample_env (pebble_DB mem_pebble) sample_store ''t'' 6 sample_pass = Ret (p', n) \<and> 0 < n \<and>
    queue_message sample_msg (EventKey 5 7 1) \<in> set (fst (hub_chans (ps_hub p') 0))"
proof -
  have G: "sorted_entries sample_store" by (simp add: sample_store_def sorted_entries_def)
  have E: "env_ok sample_env" "valid_bucketSize (de_bucketSize sample_env)" "CalculateBucket 6 (de_bucketSize sample_env) = Ret 6"
    by (simp_all add: sample_env_def env_ok_def range_order_def valid_bucketSize_def CalculateBucket_def)
  obtain v where v: "sample_store = [(EventKey 5 7 1, v)]" "proto_Unmarshal mem_proto v = Inr sample_msg"
    using sample_store_msg by blast
  have h: "de_hash sample_env ''t'' = 7" "de_proto sample_env = mem_proto" by (simp_all add: sample_env_def)
  have "dom (range_view (due_range 7 6) (map_of sample_store)) = {EventKey 5 7 1}"
    using due_bounds_event[OF E(2,3), of 7 5 7 1] unfolding v(1) by (auto simp: dom_def range_view_Some_iff split: if_splits)
  then have ready: "hub_ready (ps_hub sample_pass) ''t''
      \<lparr>ts_groups = [(''g'', [\<lparr>ce_ID = ''x'', ce_Topic = ''t'', ce_Group = ''g'', ce_Ch = 0\<rparr>])], ts_universal = []\<rparr>
      (card (dom (range_view (due_range (de_hash sample_env ''t'') 6) (map_of sample_store))))"
    using sample_ready h by simp
  have "map_of sample_store (EventKey 5 (de_hash sample_env ''t'') 1) = Some v" "\<not> isExpired sample_msg 6"
      "\<forall>n. \<not> in_flight_at (ps_d sample_pass) (de_clock sample_env n) (EventKey 5 (de_hash sample_env ''t'') 1)"
    unfolding v(1) using h by (simp_all add: isExpired_def sample_msg_def sample_pass_def in_flight_at_def NewDispatcher_def)
  from dispatch_delivers_due[OF memp.storage_db_axioms G E _ this(1) _ this(2,3) ready] v(2) h show ?thesis by auto
qed


text \<open>A dispatch pass always comes to its end: for every bucket size the configuration
  accepts, whatever is stored, \<open>dispatchAll\<close> returns without a panic, keeps the
  registry invariant and the registered consumers, and on a node that is not the leader it
  does nothing at all.\<close>

theorem dispatch_all_returns:
  assumes "storage_db D view pending good notfound" and "good st" and "valid_bucketSize (de_bucketSize env)"
    and "hub_inv (ps_hub p)"
  shows "\<exists>p' n. dispatchAll env D st (isLeader nodeHost shardID nodeID) nowMs p = Ret (p', n) \<and> hub_inv (ps_hub p') \<and>
    hub_topics (ps_hub p') = hub_topics (ps_hub p) \<and> hub_byID (ps_hub p') = hub_byID (ps_hub p) \<and>
    (nodeHost \<noteq> None \<and> the nodeHost shardID \<noteq> Inr (nodeID, True) \<longrightarrow> p' = p \<and> n = 0)"
proof (cases "isLeader nodeHost shardID nodeID")
  case True
  then have "\<not> (nodeHost \<noteq> None \<and> the nodeHost shardID \<noteq> Inr (nodeID, True))"
    by (auto simp: isLeader_def split: option.splits sum.splits if_splits)
  moreover obtain p' n where "dispatch_topics env D st nowMs p 0 (ActiveTopics (de_torder env) (ps_hub p)) = Ret (p', n)"
      "hub_inv (ps_hub p')" "hub_topics (ps_hub p') = hub_topics (ps_hub p)" "hub_byID (ps_hub p') = hub_byID (ps_hub p)"
    using dispatch_topics_frame[OF assms] by blast
  ultimately show ?thesis using True assms(4) by (auto simp: dispatchAll_def Let_def)
next
  case False
  with assms(4) show ?thesis by (simp add: dispatchAll_def)
qed

theorem dispatch_all_returns_witness:
  "\<exists>p' n. dispatchAll sample_env (pebble_DB mem_pebble) sample_store
      (isLeader (Some (\<lambda>_. Inr (2, True))) 1 1) 6 sample_pass = Ret (p', n) \<and> p' = sample_pass \<and> n = 0"
proof -
  have G: "sorted_entries sample_store" by (simp add: sample_store_def sorted_entries_def)
  have v: "valid_bucketSize (de_bucketSize sample_env)" by (simp add: sample_env_def valid_bucketSize_def)
  have "hub_inv (ps_hub sample_pass)" using sample_ready by (simp add: hub_ready_def)
  from dispatch_all_returns[OF memp.storage_db_axioms G v this, of "Some (\<lambda>_. Inr (2, True))" 1 1 6] show ?thesis by auto
qed

text \<open>A time to live counts from the enqueue time as long as their sum is a valid time; a sum
  beyond the 64-bit range wraps to the past, and then the message counts as expired at once,
  at any time of the clock.\<close>

theorem ttl_expiry:
  assumes "0 \<le> sint (sm_EnqueuedAtUnixMs msg)" and "0 < sint (sm_TtlMs msg)" and "0 \<le> sint nowMs"
  shows "isExpired msg nowMs \<longleftrightarrow>
    sint (sm_EnqueuedAtUnixMs msg) + sint (sm_TtlMs msg) \<le> sint nowMs \<or>
    2 ^ 63 \<le> sint (sm_EnqueuedAtUnixMs msg) + sint (sm_TtlMs msg)"
proof -
  have b: "sint x < 2 ^ 63" for x :: i64 using sint_lt[of x] by simp
  note sum = sint_add_nonneg[OF assms(1) less_imp_le[OF assms(2)]]
  show ?thesis using assms b[of nowMs] b[of "sm_EnqueuedAtUnixMs msg"] b[of "sm_TtlMs msg"] by (simp add: isExpired_def sum)
qed

theorem ttl_expiry_witness:
  "isExpired (sample_msg\<lparr>sm_TtlMs := 9223372036854775807\<rparr>) 0 \<and> \<not> isExpired (sample_msg\<lparr>sm_TtlMs := 5\<rparr>) 5"
  using ttl_expiry[of "sample_msg\<lparr>sm_TtlMs := 9223372036854775807\<rparr>" 0] ttl_expiry[of "sample_msg\<lparr>sm_TtlMs := 5\<rparr>" 5]
  by (simp add: sample_msg_def)

end
