(* ===== verification/Config.thy ===== *)
theory Config
  imports Keys Maps
begin

text \<open>
  Configuration, \<open>src/internal/config\<close>: the configuration record, its defaults,
  loading with the explicit environment overrides, and validation. Reading and merging YAML
  is done by the viper and yaml packages, the record parameter \<open>config_lib\<close>; the
  environment is a function. A duration is a number of nanoseconds, as in theory
  \<open>Prelude\<close>.

  The properties say what every loaded configuration satisfies and which configurations are
  rejected, and what the conversion of the configured intervals to durations does.
\<close>

section \<open>Definitions\<close>

definition Quorum :: string where
  "Quorum = ''Quorum''"

definition NoAck :: string where
  "NoAck = ''NoAck''"

record ServerConfig =
  sv_Listen :: string
  sv_MaxConns :: u32
  sv_Timeout :: i64
  sv_MaxRecvSizeKB :: i64
  sv_MaxSendSizeKB :: i64

record LoggerConfig =
  lg_Level :: string

record MetricsConfig =
  mt_Addr :: string

record ObservabilityConfig =
  ob_Logger :: LoggerConfig
  ob_Metrics :: MetricsConfig

record BoltConfig =
  bc_DataPath :: string
  bc_DefaultBucket :: string

record PebbleConfig =
  pc_DisableWAL :: bool
  pc_DataPath :: string
  pc_CacheSizeMB :: i64
  pc_InMemTableSizeMB :: u64

record StorageConfig =
  st_MinAckLevel :: string
  st_Persist :: bool
  st_TimeBucketSize :: i64
  st_Type :: string
  st_Pebble :: PebbleConfig
  st_Bolt :: BoltConfig

record RaftConfig =
  rf_Enabled :: bool
  rf_NodeID :: u64
  rf_ClusterID :: u64
  rf_ListenAddress :: string
  rf_DataPath :: string
  rf_InitialMembers :: "(u64 \<times> string) list"
  rf_RTTMillisecond :: u64
  rf_SnapshotEntries :: u64
  rf_CompactionOverhead :: u64

record ConsumerConfig =
  cc_DispatchPollIntervalMs :: u64
  cc_DeleteBatchIntervalMs :: u64
  cc_InFlightTimeoutMs :: u64
  cc_TTLJanitorIntervalMs :: u64

record Config =
  cf_Server :: ServerConfig
  cf_Observability :: ObservabilityConfig
  cf_Storage :: StorageConfig
  cf_Raft :: RaftConfig
  cf_Consumer :: ConsumerConfig

text \<open>\<open>time.Millisecond\<close> and \<open>time.Second\<close>, in nanoseconds.\<close>

definition Millisecond :: i64 where
  "Millisecond = 1000000"

definition Second :: i64 where
  "Second = 1000000000"

definition defaultConfig :: Config where
  "defaultConfig = \<lparr>
     cf_Server = \<lparr>sv_Listen = ''0.0.0.0:8443'', sv_MaxConns = 10, sv_Timeout = 5 * Second, sv_MaxRecvSizeKB = 100, sv_MaxSendSizeKB = 100\<rparr>,
     cf_Observability = \<lparr>ob_Logger = \<lparr>lg_Level = ''info''\<rparr>, ob_Metrics = \<lparr>mt_Addr = ''0.0.0.0:9090''\<rparr>\<rparr>,
     cf_Storage = \<lparr>st_MinAckLevel = Quorum, st_Persist = True, st_TimeBucketSize = 1 * Millisecond, st_Type = ''pebble'',
       st_Pebble = \<lparr>pc_DisableWAL = False, pc_DataPath = ''./data'', pc_CacheSizeMB = 16, pc_InMemTableSizeMB = 64\<rparr>,
       st_Bolt = \<lparr>bc_DataPath = ''./data'', bc_DefaultBucket = ''futureq''\<rparr>\<rparr>,
     cf_Raft = \<lparr>rf_Enabled = False, rf_NodeID = 1, rf_ClusterID = 1, rf_ListenAddress = ''0.0.0.0:50005'', rf_DataPath = ''./raft-data'',
       rf_InitialMembers = [(1, ''0.0.0.0:50005'')], rf_RTTMillisecond = 200, rf_SnapshotEntries = 10000, rf_CompactionOverhead = 5000\<rparr>,
     cf_Consumer = \<lparr>cc_DispatchPollIntervalMs = 50, cc_DeleteBatchIntervalMs = 500, cc_InFlightTimeoutMs = 5000, cc_TTLJanitorIntervalMs = 60000\<rparr>\<rparr>"

subsection \<open>Validation\<close>

definition runPostLoadHooks :: "Config \<Rightarrow> Config" where
  "runPostLoadHooks c =
    (if \<not> st_Persist (cf_Storage c)
     then c\<lparr>cf_Storage := (cf_Storage c)\<lparr>st_Pebble := (st_Pebble (cf_Storage c))\<lparr>pc_DataPath := ''''\<rparr>,
                                          st_Bolt := (st_Bolt (cf_Storage c))\<lparr>bc_DataPath := ''''\<rparr>\<rparr>\<rparr>
     else c)"

definition validateStorage :: "Config \<Rightarrow> goerror + Config" where
  "validateStorage c =
    (if st_Persist (cf_Storage c) \<and> pc_DataPath (st_Pebble (cf_Storage c)) = ''''
     then Inl (Errorf ''pebble's data path cannot be empty when persist is true'' [])
     else let c1 = (if sint (st_TimeBucketSize (cf_Storage c)) < sint (1 * Millisecond)
            then c\<lparr>cf_Storage := (cf_Storage c)\<lparr>st_TimeBucketSize := 0\<rparr>\<rparr> else c)
       in if \<not> rf_Enabled (cf_Raft c1) \<and> pc_DisableWAL (st_Pebble (cf_Storage c1))
          then Inl (Errorf ''WAL can not be disabled on single node setup without raft'' [])
          else if st_Type (cf_Storage c1) \<noteq> ''pebble'' \<and> st_Type (cf_Storage c1) \<noteq> ''bolt''
          then Inl (Errorf ''storage type can only be in (pebble, bolt)'' [])
          else Inr c1)"

definition validateRaft :: "Config \<Rightarrow> goerror option" where
  "validateRaft c =
    (if rf_SnapshotEntries (cf_Raft c) = 0 then Some (Errorf ''raft's snapshot entries cannot be zero'' [])
     else if rf_CompactionOverhead (cf_Raft c) = 0 then Some (Errorf ''raft's compaction overhead cannot be zero'' [])
     else if rf_RTTMillisecond (cf_Raft c) = 0 then Some (Errorf ''raft's rtt millisecond cannot be zero'' [])
     else None)"

definition validate_config :: "Config \<Rightarrow> goerror + Config" where
  "validate_config c =
    (case validateStorage c of
       Inl err \<Rightarrow> Inl err
     | Inr c1 \<Rightarrow> (case validateRaft c1 of Some err \<Rightarrow> Inl err | None \<Rightarrow> Inr c1))"

subsection \<open>Loading\<close>

text \<open>\<open>strconv.ParseUint(s, 10, 64)\<close>: decimal digits only, at least one, at most 64 bits.\<close>

definition decimal :: "string \<Rightarrow> nat" where
  "decimal s = foldl (\<lambda>n c. 10 * n + (of_char c - 48)) 0 s"

definition ParseUint :: "string \<Rightarrow> goerror + u64" where
  "ParseUint s =
    (if s = '''' \<or> \<not> list_all (\<lambda>c. (48 :: nat) \<le> of_char c \<and> of_char c \<le> (57 :: nat)) s then Inl (LibError ''invalid syntax'')
     else if decimal s \<ge> 2 ^ 64 then Inl (LibError ''value out of range'')
     else Inr (of_nat (decimal s)))"

text \<open>
  The calls of the yaml and viper packages, on a state \<open>'v\<close> of viper: writing the
  defaults, reading them, merging a file, and filling the record.
\<close>

record 'v config_lib =
  yaml_Marshal :: "Config \<Rightarrow> goerror + bytes"
  v_ReadConfig :: "bytes \<Rightarrow> goerror + 'v"
  v_MergeInConfig :: "string \<Rightarrow> 'v \<Rightarrow> goerror + 'v"
  v_Unmarshal :: "'v \<Rightarrow> goerror + Config"

definition env_overrides :: "(string \<Rightarrow> string) \<Rightarrow> Config \<Rightarrow> Config" where
  "env_overrides Getenv c =
    (let nodeID = Getenv ''FUTUREQ_RAFT_NODEID'';
         c1 = (if nodeID \<noteq> '''' then
                 (case ParseUint nodeID of Inr v \<Rightarrow> c\<lparr>cf_Raft := (cf_Raft c)\<lparr>rf_NodeID := v\<rparr>\<rparr> | Inl err \<Rightarrow> c)
               else c);
         raftAddr = Getenv ''FUTUREQ_RAFT_LISTENADDRESS''
     in if raftAddr \<noteq> '''' then c1\<lparr>cf_Raft := (cf_Raft c1)\<lparr>rf_ListenAddress := raftAddr\<rparr>\<rparr> else c1)"

definition Load :: "'v config_lib \<Rightarrow> (string \<Rightarrow> string) \<Rightarrow> string \<Rightarrow> goerror + Config" where
  "Load l Getenv path =
    (case yaml_Marshal l defaultConfig of
       Inl err \<Rightarrow> Inl (Wrap ''error unmarshalling default config'' err)
     | Inr defaultConfigBytes \<Rightarrow>
        (case v_ReadConfig l defaultConfigBytes of
           Inl err \<Rightarrow> Inl (Wrap ''error reading default config'' err)
         | Inr v \<Rightarrow>
            (case (if path \<noteq> '''' then v_MergeInConfig l path v else Inr v) of
               Inl err \<Rightarrow> Inl (Wrap ''error merge config'' err)
             | Inr v' \<Rightarrow>
                (case v_Unmarshal l v' of
                   Inl err \<Rightarrow> Inl (Wrap ''error unmarshalling config'' err)
                 | Inr c \<Rightarrow>
                    (case validate_config (runPostLoadHooks (env_overrides Getenv c)) of
                       Inl err \<Rightarrow> Inl (Wrap ''error validating config'' err)
                     | Inr c' \<Rightarrow> Inr c')))))"

subsection \<open>Intervals\<close>

text \<open>
  \<open>time.Duration(ms) * time.Millisecond\<close>: the product wraps. \<open>time.NewTicker\<close>
  panics for a duration that is not positive.
\<close>

definition duration_of_ms :: "u64 \<Rightarrow> i64" where
  "duration_of_ms ms = ms * Millisecond"

definition NewTicker :: "i64 \<Rightarrow> unit go" where
  "NewTicker d = (if sint d \<le> 0 then Panic ''non-positive interval for NewTicker'' else Ret ())"

subsection \<open>Specification\<close>

definition config_ok :: "Config \<Rightarrow> bool" where
  "config_ok c \<longleftrightarrow>
    st_Type (cf_Storage c) \<in> {''pebble'', ''bolt''} \<and>
    (st_Persist (cf_Storage c) \<longrightarrow> pc_DataPath (st_Pebble (cf_Storage c)) \<noteq> '''') \<and>
    (\<not> st_Persist (cf_Storage c) \<longrightarrow> pc_DataPath (st_Pebble (cf_Storage c)) = '''' \<and> bc_DataPath (st_Bolt (cf_Storage c)) = '''') \<and>
    (pc_DisableWAL (st_Pebble (cf_Storage c)) \<longrightarrow> rf_Enabled (cf_Raft c)) \<and>
    (st_TimeBucketSize (cf_Storage c) = 0 \<or> sint Millisecond \<le> sint (st_TimeBucketSize (cf_Storage c))) \<and>
    rf_SnapshotEntries (cf_Raft c) \<noteq> 0 \<and> rf_CompactionOverhead (cf_Raft c) \<noteq> 0 \<and> rf_RTTMillisecond (cf_Raft c) \<noteq> 0"

text \<open>The configurations validation accepts, and what it does to their bucket size.\<close>

definition acceptable :: "Config \<Rightarrow> bool" where
  "acceptable c \<longleftrightarrow> config_ok (c\<lparr>cf_Storage := (cf_Storage c)\<lparr>st_TimeBucketSize := 0\<rparr>\<rparr>)"

definition round_bucket :: "Config \<Rightarrow> Config" where
  "round_bucket c = (if sint (st_TimeBucketSize (cf_Storage c)) < sint Millisecond
     then c\<lparr>cf_Storage := (cf_Storage c)\<lparr>st_TimeBucketSize := 0\<rparr>\<rparr> else c)"

text \<open>A library whose files hold a change of the default configuration, written as its lines.\<close>

definition mem_config_lib :: "(string \<Rightarrow> (Config \<Rightarrow> Config) option) \<Rightarrow> Config config_lib" where
  "mem_config_lib files = \<lparr>
     yaml_Marshal = (\<lambda>c. if c = defaultConfig then Inr [1] else Inl (LibError ''yaml'')),
     v_ReadConfig = (\<lambda>bs. if bs = [1] then Inr defaultConfig else Inl (LibError ''yaml'')),
     v_MergeInConfig = (\<lambda>path c. case files path of None \<Rightarrow> Inl (LibError ''no such file'') | Some f \<Rightarrow> Inr (f c)),
     v_Unmarshal = Inr\<rparr>"

section \<open>Lemmas\<close>

lemma sint_Millisecond [simp]: "sint Millisecond = 1000000"
  by (simp add: Millisecond_def)

lemma runPostLoadHooks_idem [simp]: "runPostLoadHooks (runPostLoadHooks c) = runPostLoadHooks c"
  by (simp add: runPostLoadHooks_def)

lemma validate_config_eq:
  assumes "runPostLoadHooks c = c"
  shows "validate_config c = Inr c' \<longleftrightarrow> acceptable c \<and> c' = round_bucket c"
proof -
  have "\<not> st_Persist (cf_Storage c) \<Longrightarrow> pc_DataPath (st_Pebble (cf_Storage c)) = '''' \<and> bc_DataPath (st_Bolt (cf_Storage c)) = ''''"
    using arg_cong[OF assms, of cf_Storage]
    by (simp add: runPostLoadHooks_def) (metis BoltConfig.select_convs(1) BoltConfig.surjective BoltConfig.update_convs(1)
      PebbleConfig.select_convs(2) PebbleConfig.surjective PebbleConfig.update_convs(2) StorageConfig.select_convs(5,6)
      StorageConfig.surjective StorageConfig.update_convs(5,6))
  then show ?thesis
    by (auto simp: validate_config_def validateStorage_def validateRaft_def acceptable_def config_ok_def round_bucket_def Let_def)
qed

lemma round_bucket_ok: "acceptable c \<Longrightarrow> config_ok (round_bucket c)"
  by (auto simp: acceptable_def config_ok_def round_bucket_def)

lemma Load_Inr:
  assumes "Load l Getenv path = Inr c"
  obtains raw where "acceptable (runPostLoadHooks (env_overrides Getenv raw))"
    and "c = round_bucket (runPostLoadHooks (env_overrides Getenv raw))"
proof -
  obtain raw where "validate_config (runPostLoadHooks (env_overrides Getenv raw)) = Inr c"
    using assms by (auto simp: Load_def split: sum.splits if_splits)
  then show ?thesis using that validate_config_eq[OF runPostLoadHooks_idem] by blast
qed

lemma config_ok_hooks: "config_ok c \<Longrightarrow> runPostLoadHooks c = c"
  by (auto simp: config_ok_def runPostLoadHooks_def intro!: Config.equality StorageConfig.equality PebbleConfig.equality BoltConfig.equality)

lemma round_bucket_id: "config_ok c \<Longrightarrow> round_bucket c = c"
  by (auto simp: config_ok_def round_bucket_def intro!: Config.equality StorageConfig.equality)

lemma config_ok_acceptable: "config_ok c \<Longrightarrow> acceptable c"
  by (simp add: acceptable_def config_ok_def)

lemma acceptable_consumer: "acceptable (c\<lparr>cf_Consumer := cc\<rparr>) = acceptable c"
  by (simp add: acceptable_def config_ok_def)

lemma sint_duration:
  assumes "uint ms \<le> 18446744073709"
  shows "sint (duration_of_ms ms) = (if uint ms \<le> 9223372036854 then uint ms * 1000000 else uint ms * 1000000 - 2 ^ 64)"
proof -
  define x where "x = uint ms * 1000000"
  have "duration_of_ms ms = word_of_int x"
    by (simp add: duration_of_ms_def Millisecond_def x_def)
  then have s: "sint (duration_of_ms ms) = (x + 2 ^ 63) mod 2 ^ 64 - 2 ^ 63"
    by (simp only: int_word_sint) simp
  show ?thesis
  proof (cases "uint ms \<le> 9223372036854")
    case True
    then have "0 \<le> x + 2 ^ 63" "x + 2 ^ 63 < 2 ^ 64" by (simp_all add: x_def)
    with s True show ?thesis by (simp only: mod_pos_pos_trivial x_def if_True)
  next
    case False
    then have "0 \<le> x + 2 ^ 63 - 2 ^ 64" "x + 2 ^ 63 - 2 ^ 64 < 2 ^ 64" using assms by (simp_all add: x_def)
    then have "(x + 2 ^ 63 - 2 ^ 64) mod 2 ^ 64 = x + 2 ^ 63 - 2 ^ 64" by (rule mod_pos_pos_trivial)
    then have "(x + 2 ^ 63) mod 2 ^ 64 = x + 2 ^ 63 - 2 ^ 64" by (simp only: minus_mod_self2)
    with s False show ?thesis by (simp add: x_def)
  qed
qed

section \<open>Properties\<close>



text \<open>C40: the consumer intervals are not validated: acceptance does not depend on them. A
  positive number of milliseconds up to 9223372036854 becomes a timer of exactly that length;
  zero makes \<open>time.NewTicker\<close> panic, and so does a number whose product with a
  millisecond wraps to a negative duration.\<close>

theorem interval_conversion:
  "(validate_config (runPostLoadHooks (c\<lparr>cf_Consumer := cc\<rparr>)) = Inr c' \<longleftrightarrow>
      (\<exists>c0. validate_config (runPostLoadHooks c) = Inr c0 \<and> c' = c0\<lparr>cf_Consumer := cc\<rparr>)) \<and>
   (0 < uint ms \<and> uint ms \<le> 9223372036854 \<longrightarrow>
      sint (duration_of_ms ms) = uint ms * 1000000 \<and> NewTicker (duration_of_ms ms) = Ret ()) \<and>
   (ms = 0 \<or> 9223372036854 < uint ms \<and> uint ms \<le> 18446744073709 \<longrightarrow> (\<exists>s. NewTicker (duration_of_ms ms) = Panic s))"
proof -
  have hooks: "runPostLoadHooks (c\<lparr>cf_Consumer := cc\<rparr>) = (runPostLoadHooks c)\<lparr>cf_Consumer := cc\<rparr>"
    and round: "round_bucket ((runPostLoadHooks c)\<lparr>cf_Consumer := cc\<rparr>) = (round_bucket (runPostLoadHooks c))\<lparr>cf_Consumer := cc\<rparr>"
    by (simp_all add: runPostLoadHooks_def round_bucket_def)
  have "validate_config (runPostLoadHooks (c\<lparr>cf_Consumer := cc\<rparr>)) = Inr c' \<longleftrightarrow>
      (\<exists>c0. validate_config (runPostLoadHooks c) = Inr c0 \<and> c' = c0\<lparr>cf_Consumer := cc\<rparr>)"
    using validate_config_eq[OF runPostLoadHooks_idem, of "c\<lparr>cf_Consumer := cc\<rparr>" c']
      validate_config_eq[OF runPostLoadHooks_idem, of c] by (simp only: hooks round acceptable_consumer) blast
  moreover have "0 < uint ms \<and> uint ms \<le> 9223372036854 \<longrightarrow>
      sint (duration_of_ms ms) = uint ms * 1000000 \<and> NewTicker (duration_of_ms ms) = Ret ()"
    using sint_duration[of ms] by (simp add: NewTicker_def)
  moreover have "ms = 0 \<or> 9223372036854 < uint ms \<and> uint ms \<le> 18446744073709 \<longrightarrow> (\<exists>s. NewTicker (duration_of_ms ms) = Panic s)"
    using sint_duration[of ms] by (auto simp: NewTicker_def)
  ultimately show ?thesis by blast
qed

theorem interval_conversion_witness:
  "NewTicker (duration_of_ms 500) = Ret () \<and> (\<exists>s. NewTicker (duration_of_ms 0) = Panic s) \<and>
    (\<exists>s. NewTicker (duration_of_ms 10000000000000) = Panic s)"
  using interval_conversion[of _ _ _ 500] interval_conversion[of _ _ _ 0] interval_conversion[of _ _ _ 10000000000000] by auto

end
