(* ===== verification/Consumer.thy ===== *)
theory Consumer
  imports Dispatcher Config NodeHost Rpc
begin

text \<open>
  The consumer handler, \<open>src/internal/api/grpc/handlers/consumer.go\<close>: the handshake
  of a subscription, its registration with the hub, and the two goroutines that send messages
  and process acknowledgements. They run interleaved with each other and with the rest of the
  broker: a connection is driven by a list of events, what \<open>Recv\<close> returns, a turn of
  the sender with the result of \<open>Send\<close>, the end of the context, and steps of other
  goroutines on hub and deleter. It ends with the first value in the error channel.

  The properties are what a connection leaves behind, what acknowledgements do, and what a
  negative acknowledgement does not do.
\<close>

section \<open>Definitions\<close>

record SubscribeInit =
  si_Topic :: string
  si_GroupId :: string

record AckRequest =
  ar_DeliveryTag :: bytes
  ar_Success :: bool

text \<open>The oneof body of a frame; \<open>BNone\<close> is an unset body.\<close>

datatype ConsumerFrame = BInit SubscribeInit | BAck AckRequest | BNone

definition GetInit :: "ConsumerFrame \<Rightarrow> SubscribeInit option" where
  "GetInit f = (case f of BInit i \<Rightarrow> Some i | _ \<Rightarrow> None)"

definition GetAck :: "ConsumerFrame \<Rightarrow> AckRequest option" where
  "GetAck f = (case f of BAck a \<Rightarrow> Some a | _ \<Rightarrow> None)"

text \<open>\<open>readInit\<close> returns a pointer; at the end of the stream it returns nil and no error.\<close>

definition readInit :: "ConsumerFrame recv \<Rightarrow> rpc_error + SubscribeInit option" where
  "readInit first =
    (case first of
       RecvErr err \<Rightarrow> if err = IoEOF then Inr None else Inl (Status Internal ''failed to read init frame'')
     | Frame f \<Rightarrow>
        (case GetInit f of
           None \<Rightarrow> Inl (Status InvalidArgument ''first frame must be a SubscribeInit'')
         | Some i \<Rightarrow>
            if si_Topic i = '''' then Inl (Status InvalidArgument ''SubscribeInit.topic must not be empty'')
            else Inr (Some i)))"

abbreviation nil_deref :: string where
  "nil_deref \<equiv> ''runtime error: invalid memory address or nil pointer dereference''"

text \<open>The warning of a rejected consumer reads the topic through the pointer.\<close>

definition checkLeadership :: "'w NodeHost option \<Rightarrow> Config \<Rightarrow> 'w \<Rightarrow> SubscribeInit option \<Rightarrow> (rpc_error option) go" where
  "checkLeadership nodeHost cfg w init =
    (case nodeHost of
       None \<Rightarrow> Ret None
     | Some nh \<Rightarrow>
        (let isLeader0 = (case nh_GetLeaderID nh w (rf_ClusterID (cf_Raft cfg)) of
               Inl err \<Rightarrow> False
             | Inr (leaderID, term, valid) \<Rightarrow> valid \<and> leaderID = rf_NodeID (cf_Raft cfg))
         in if \<not> isLeader0
            then (case init of None \<Rightarrow> Panic nil_deref
              | Some i \<Rightarrow> Ret (Some (Status FailedPrecondition ''node is not the cluster leader'')))
            else Ret None))"

text \<open>What a connection works on: hub, deleter, the messages sent, and the error channel.\<close>

record 's SubState =
  ss_hub :: "'s Hub"
  ss_deleter :: Deleter
  ss_out :: "QueueMessage list"
  ss_errCh :: "goerror option list"

datatype 's sub_event =
    SRecv "ConsumerFrame recv"
  | SSend "goerror option"
  | SCtxDone goerror
  | SOther "'s Hub \<times> Deleter \<Rightarrow> 's Hub \<times> Deleter"

definition receiver :: "string \<Rightarrow> 's SubState \<Rightarrow> ConsumerFrame recv \<Rightarrow> 's SubState" where
  "receiver consumerID s r =
    (case r of
       RecvErr err \<Rightarrow> s\<lparr>ss_errCh := ss_errCh s @ [if err = IoEOF then None else Some err]\<rparr>
     | Frame frame \<Rightarrow>
        (case GetAck frame of
           None \<Rightarrow> s
         | Some ackReq \<Rightarrow>
            s\<lparr>ss_hub := RemoveInFlightForConsumer (ss_hub s) consumerID (ar_DeliveryTag ackReq),
              ss_deleter := (if ar_Success ackReq then MarkDeleted (ss_deleter s) (ar_DeliveryTag ackReq) else ss_deleter s)\<rparr>))"

text \<open>A turn of the sender: it takes a message from the channel, if there is one, and sends it.\<close>

definition sender :: "nat \<Rightarrow> 's SubState \<Rightarrow> goerror option \<Rightarrow> 's SubState" where
  "sender ch s result =
    (case hub_chans (ss_hub s) ch of
       ([], cap) \<Rightarrow> s
     | (msg # buf, cap) \<Rightarrow>
        (let s1 = s\<lparr>ss_hub := (ss_hub s)\<lparr>hub_chans := (hub_chans (ss_hub s))(ch := (buf, cap))\<rparr>\<rparr>
         in case result of
              Some err \<Rightarrow> s1\<lparr>ss_errCh := ss_errCh s1 @ [Some err]\<rparr>
            | None \<Rightarrow> s1\<lparr>ss_out := ss_out s1 @ [msg]\<rparr>))"

definition sub_step :: "string \<Rightarrow> nat \<Rightarrow> 's SubState \<Rightarrow> 's sub_event \<Rightarrow> 's SubState" where
  "sub_step consumerID ch s ev =
    (case ev of
       SRecv r \<Rightarrow> receiver consumerID s r
     | SSend result \<Rightarrow> sender ch s result
     | SCtxDone err \<Rightarrow> s\<lparr>ss_errCh := ss_errCh s @ [Some err]\<rparr>
     | SOther f \<Rightarrow> (case f (ss_hub s, ss_deleter s) of (h, d) \<Rightarrow> s\<lparr>ss_hub := h, ss_deleter := d\<rparr>))"

text \<open>The events up to the first value in the error channel.\<close>

fun sub_run :: "string \<Rightarrow> nat \<Rightarrow> 's SubState \<Rightarrow> 's sub_event list \<Rightarrow> 's SubState" where
  "sub_run consumerID ch s [] = s"
| "sub_run consumerID ch s (ev # evs) = (if ss_errCh s \<noteq> [] then s else sub_run consumerID ch (sub_step consumerID ch s ev) evs)"

text \<open>
  Registration with a fresh channel, and what follows the first error: the deferred
  unregistration and the result. \<open>None\<close> means that the handler has not returned.
\<close>

definition sub_open :: "string \<Rightarrow> nat \<Rightarrow> SubscribeInit \<Rightarrow> 's SubState \<Rightarrow> 's SubState" where
  "sub_open consumerID ch i s =
    (let h0 = (ss_hub s)\<lparr>hub_chans := (hub_chans (ss_hub s))(ch := ([], 1024))\<rparr>
     in s\<lparr>ss_hub := Hub_Register h0 consumerID (si_Topic i) (si_GroupId i) ch, ss_errCh := []\<rparr>)"

definition sub_close :: "string \<Rightarrow> 's SubState \<Rightarrow> 's SubState \<times> rpc_error option option" where
  "sub_close consumerID s =
    (case ss_errCh s of
       [] \<Rightarrow> (s, None)
     | err # _ \<Rightarrow>
        (s\<lparr>ss_hub := Hub_Unregister (ss_hub s) consumerID\<rparr>,
         case err of
           None \<Rightarrow> Some None
         | Some e \<Rightarrow>
            if \<not> errors_Is e ContextCanceled \<and> \<not> errors_Is e ContextDeadlineExceeded \<and> e \<noteq> IoEOF
            then Some (Some (Status Internal ''stream error'')) else Some None))"

text \<open>The identifier is a fresh UUID, the channel a fresh address.\<close>

definition Subscribe :: "'w NodeHost option \<Rightarrow> Config \<Rightarrow> 'w \<Rightarrow> string \<Rightarrow> nat \<Rightarrow> ConsumerFrame recv \<Rightarrow> 's sub_event list \<Rightarrow> 's SubState
    \<Rightarrow> ('s SubState \<times> rpc_error option option) go" where
  "Subscribe nodeHost cfg w consumerID ch first evs s =
    (case readInit first of
       Inl err \<Rightarrow> Ret (s, Some (Some err))
     | Inr init \<Rightarrow>
        bind_go (checkLeadership nodeHost cfg w init) (\<lambda>r. case r of
          Some err \<Rightarrow> Ret (s, Some (Some err))
        | None \<Rightarrow>
           (case init of
              None \<Rightarrow> Panic nil_deref
            | Some i \<Rightarrow> Ret (sub_close consumerID (sub_run consumerID ch (sub_open consumerID ch i s) evs)))))"

definition boolToStr :: "bool \<Rightarrow> string" where
  "boolToStr b = (if b then ''true'' else ''false'')"

subsection \<open>Specification\<close>

text \<open>The tags a list of events acknowledges positively.\<close>

definition event_acks :: "'s sub_event \<Rightarrow> bytes list" where
  "event_acks ev = (case ev of SRecv (Frame (BAck a)) \<Rightarrow> if ar_Success a then [ar_DeliveryTag a] else [] | _ \<Rightarrow> [])"

definition acked_tags :: "'s sub_event list \<Rightarrow> bytes list" where
  "acked_tags evs = concat (map event_acks evs)"

text \<open>Other goroutines keep the hub's invariant and this consumer's registration; they keep the deleter.\<close>

definition others_keep :: "string \<Rightarrow> 's sub_event list \<Rightarrow> bool" where
  "others_keep consumerID evs \<longleftrightarrow> (\<forall>f h d. SOther f \<in> set evs \<longrightarrow> hub_inv h \<longrightarrow>
    hub_inv (fst (f (h, d))) \<and> map_of (hub_byID (fst (f (h, d)))) consumerID = map_of (hub_byID h) consumerID)"

definition others_mark_nothing :: "'s sub_event list \<Rightarrow> bool" where
  "others_mark_nothing evs \<longleftrightarrow> (\<forall>f h d. SOther f \<in> set evs \<longrightarrow> snd (f (h, d)) = d)"

text \<open>A connection's frames: subscribe, acknowledge one message, reject another, end.\<close>

definition sample_init :: "ConsumerFrame recv" where
  "sample_init = Frame (BInit \<lparr>si_Topic = ''t'', si_GroupId = ''g''\<rparr>)"

definition sample_frames :: "RoundRobinStrategy sub_event list" where
  "sample_frames = [SRecv (Frame (BAck \<lparr>ar_DeliveryTag = [1], ar_Success = True\<rparr>)), SRecv (Frame (BAck \<lparr>ar_DeliveryTag = [2], ar_Success = False\<rparr>)),
     SRecv (RecvErr IoEOF)]"

definition sample_sub :: "RoundRobinStrategy SubState" where
  "sample_sub = \<lparr>ss_hub = NewHub NewRoundRobinStrategy (\<lambda>_. ([], 0)), ss_deleter = NewDeleter, ss_out = [], ss_errCh = []\<rparr>"

text \<open>A pass with the message of \<open>sample_store\<close> in flight since time zero.\<close>

definition sample_nacked :: "RoundRobinStrategy Hub \<Rightarrow> RoundRobinStrategy Pass" where
  "sample_nacked h = sample_pass\<lparr>ps_hub := h, ps_d := \<lparr>dp_interval = 50, dp_inFlightTimeout = 1000,
     dp_inFlight = [(EventKey 5 7 1, \<lparr>if_dispatchedAt = 0, if_topic = ''t''\<rparr>)]\<rparr>\<rparr>"

section \<open>Lemmas\<close>

lemma receiver_hub:
  "hub_topics (ss_hub (receiver i s r)) = hub_topics (ss_hub s)" "hub_byID (ss_hub (receiver i s r)) = hub_byID (ss_hub s)"
  by (simp_all add: receiver_def RemoveInFlightForConsumer_def Let_def split: recv.split option.split)

lemma sender_hub:
  "hub_topics (ss_hub (sender ch s r)) = hub_topics (ss_hub s)" "hub_byID (ss_hub (sender ch s r)) = hub_byID (ss_hub s)"
  "ss_deleter (sender ch s r) = ss_deleter s"
  by (simp_all add: sender_def Let_def split: prod.split list.split option.split)

text \<open>A step of a connection keeps the registry and this consumer's entry in it.\<close>

lemma sub_step_keeps:
  assumes "hub_inv (ss_hub s)" and "others_keep consumerID [ev]"
  shows "hub_inv (ss_hub (sub_step consumerID ch s ev)) \<and>
    map_of (hub_byID (ss_hub (sub_step consumerID ch s ev))) consumerID = map_of (hub_byID (ss_hub s)) consumerID"
proof (cases ev)
  case (SRecv r)
  then show ?thesis using assms(1) hub_inv_cong[OF receiver_hub, of consumerID s r] by (simp add: sub_step_def receiver_hub)
next
  case (SSend r)
  then show ?thesis using assms(1) hub_inv_cong[OF sender_hub(1,2), of ch s r] by (simp add: sub_step_def sender_hub)
next
  case (SOther f)
  obtain h d where f: "f (ss_hub s, ss_deleter s) = (h, d)" by fastforce
  with assms SOther have "hub_inv h \<and> map_of (hub_byID h) consumerID = map_of (hub_byID (ss_hub s)) consumerID"
    unfolding others_keep_def by (metis fst_conv list.set_intros(1))
  with f SOther show ?thesis by (simp add: sub_step_def)
qed (use assms in \<open>simp add: sub_step_def\<close>)

lemma sub_run_keeps:
  assumes "hub_inv (ss_hub s)" and "others_keep consumerID evs"
  shows "hub_inv (ss_hub (sub_run consumerID ch s evs)) \<and>
    map_of (hub_byID (ss_hub (sub_run consumerID ch s evs))) consumerID = map_of (hub_byID (ss_hub s)) consumerID"
  using assms
proof (induction evs arbitrary: s)
  case (Cons ev evs)
  have k: "others_keep consumerID [ev]" "others_keep consumerID evs" using Cons.prems(2) by (auto simp: others_keep_def)
  from sub_step_keeps[OF Cons.prems(1) k(1), of ch] Cons.IH[OF _ k(2), of "sub_step consumerID ch s ev"] Cons.prems(1) show ?case
    by simp
qed simp

text \<open>The keys a connection marks are those of the positive acknowledgements it has processed.\<close>

lemma sub_run_marks:
  assumes "others_mark_nothing evs"
  shows "\<exists>n. dl_pending (ss_deleter (sub_run consumerID ch s evs)) = dl_pending (ss_deleter s) @ acked_tags (take n evs) \<and>
    (ss_errCh (sub_run consumerID ch s evs) = [] \<longrightarrow> take n evs = evs)"
  using assms
proof (induction evs arbitrary: s)
  case (Cons ev evs)
  show ?case
  proof (cases "ss_errCh s = []")
    case True
    have "others_mark_nothing evs" using Cons.prems by (simp add: others_mark_nothing_def)
    from Cons.IH[OF this, of "sub_step consumerID ch s ev"] obtain n where
      n: "dl_pending (ss_deleter (sub_run consumerID ch (sub_step consumerID ch s ev) evs)) =
          dl_pending (ss_deleter (sub_step consumerID ch s ev)) @ acked_tags (take n evs)"
        "ss_errCh (sub_run consumerID ch (sub_step consumerID ch s ev) evs) = [] \<longrightarrow> take n evs = evs" by blast
    have "snd (f (ss_hub s, ss_deleter s)) = ss_deleter s" if "ev = SOther f" for f
      using Cons.prems that by (simp add: others_mark_nothing_def)
    then have "dl_pending (ss_deleter (sub_step consumerID ch s ev)) = dl_pending (ss_deleter s) @ event_acks ev"
      by (cases ev) (auto simp: sub_step_def receiver_def sender_hub GetAck_def event_acks_def MarkDeleted_def
        split: recv.split ConsumerFrame.split prod.split)
    with n True show ?thesis by (intro exI[of _ "Suc n"]) (simp add: acked_tags_def)
  qed (auto simp: acked_tags_def intro: exI[of _ 0])
qed (simp add: acked_tags_def)

section \<open>Properties\<close>

text \<open>C12: a subscription is registered exactly as long as its connection is open: the handler
  does not panic after the handshake; while it has not returned the consumer is in the registry
  under its topic, group and channel, and once it has returned, for whatever reason, neither
  the registry nor the in-flight index mentions it. The registry's invariant holds throughout,
  whatever the other goroutines do between the events.\<close>

theorem subscription_lifecycle:
  assumes inv: "hub_inv (ss_hub s)" and fresh: "map_of (hub_byID (ss_hub s)) consumerID = None"
    and others: "others_keep consumerID evs"
    and init: "readInit first = Inr (Some i)" "checkLeadership nodeHost cfg w (Some i) = Ret None"
  shows "\<exists>s' r. Subscribe nodeHost cfg w consumerID ch first evs s = Ret (s', r) \<and> hub_inv (ss_hub s') \<and>
    (case r of
       None \<Rightarrow> map_of (hub_byID (ss_hub s')) consumerID =
         Some \<lparr>ce_ID = consumerID, ce_Topic = si_Topic i, ce_Group = si_GroupId i, ce_Ch = ch\<rparr>
     | Some e \<Rightarrow> map_of (hub_byID (ss_hub s')) consumerID = None \<and> map_of (hub_inFlightByConsumer (ss_hub s')) consumerID = None)"
proof -
  define c where "c = \<lparr>ce_ID = consumerID, ce_Topic = si_Topic i, ce_Group = si_GroupId i, ce_Ch = ch\<rparr>"
  define s0 where "s0 = sub_open consumerID ch i s"
  define s1 where "s1 = sub_run consumerID ch s0 evs"
  let ?h0 = "(ss_hub s)\<lparr>hub_chans := (hub_chans (ss_hub s))(ch := ([], 1024))\<rparr>"
  have "hub_inv ?h0" using inv hub_inv_cong[of ?h0 "ss_hub s"] by simp
  then have "hub_inv (ss_hub s0)" using fresh by (simp add: s0_def sub_open_def Register_inv)
  moreover have "map_of (hub_byID (ss_hub s0)) consumerID = Some c"
    by (simp add: s0_def sub_open_def Hub_Register_def Let_def update_conv' c_def)
  ultimately have k: "hub_inv (ss_hub s1)" "map_of (hub_byID (ss_hub s1)) consumerID = Some c"
    using sub_run_keeps[OF _ others, of s0 ch] by (simp_all add: s1_def)
  then have u: "hub_inv (Hub_Unregister (ss_hub s1) consumerID)" "map_of (hub_byID (Hub_Unregister (ss_hub s1) consumerID)) consumerID = None"
    "map_of (hub_inFlightByConsumer (Hub_Unregister (ss_hub s1) consumerID)) consumerID = None"
    by (simp_all add: Unregister_inv) (simp_all add: Hub_Unregister_def Let_def delete_conv')
  have run: "Subscribe nodeHost cfg w consumerID ch first evs s = Ret (sub_close consumerID s1)"
    by (simp add: Subscribe_def init s1_def s0_def)
  show ?thesis
  proof (cases "ss_errCh s1")
    case Nil
    then show ?thesis using run k by (simp add: sub_close_def c_def)
  next
    case (Cons err errs)
    then show ?thesis using run u by (cases err) (simp_all add: sub_close_def)
  qed
qed

lemma sample_handshake: "readInit sample_init = Inr (Some \<lparr>si_Topic = ''t'', si_GroupId = ''g''\<rparr>)"
  by (simp add: readInit_def sample_init_def GetInit_def)

theorem subscription_lifecycle_witness:
  "\<exists>s' r. Subscribe None defaultConfig () ''x'' 0 sample_init sample_frames sample_sub = Ret (s', Some r) \<and> hub_inv (ss_hub s') \<and>
    map_of (hub_byID (ss_hub s')) ''x'' = None"
proof -
  have inv: "hub_inv (ss_hub sample_sub)" "map_of (hub_byID (ss_hub sample_sub)) ''x'' = None"
    by (simp_all add: sample_sub_def NewHub_def hub_inv_def)
  have o: "others_keep ''x'' sample_frames" by (simp add: others_keep_def sample_frames_def)
  have c: "checkLeadership None defaultConfig () (Some \<lparr>si_Topic = ''t'', si_GroupId = ''g''\<rparr>) = Ret None" by (simp add: checkLeadership_def)
  have closed: "ss_errCh (sub_run ''x'' 0 s sample_frames) \<noteq> []" if "ss_errCh s = []" for s
    using that by (simp add: sample_frames_def sub_step_def receiver_def GetAck_def)
  have "\<not> (\<exists>s'. Subscribe None defaultConfig () ''x'' 0 sample_init sample_frames sample_sub = Ret (s', None))"
    using closed[of "sub_open ''x'' 0 \<lparr>si_Topic = ''t'', si_GroupId = ''g''\<rparr> sample_sub"]
    by (auto simp: Subscribe_def sample_handshake c sub_close_def sub_open_def split: list.splits option.splits if_splits)
  with subscription_lifecycle[OF inv o sample_handshake c, of 0] show ?thesis by (auto split: option.splits)
qed

text \<open>C20: acknowledgements reach the deleter: what a connection marks for deletion are exactly
  the tags of the positive acknowledgements it has processed, in their order; negative ones and
  other frames mark nothing. A connection that is still open has processed all its events.\<close>

theorem acks_reach_deleter:
  assumes others: "others_mark_nothing evs" and init: "readInit first = Inr (Some i)" "checkLeadership nodeHost cfg w (Some i) = Ret None"
    and sub: "Subscribe nodeHost cfg w consumerID ch first evs s = Ret (s', r)"
  shows "\<exists>n. dl_pending (ss_deleter s') = dl_pending (ss_deleter s) @ acked_tags (take n evs) \<and> (r = None \<longrightarrow> take n evs = evs)"
proof -
  have "(s', r) = sub_close consumerID (sub_run consumerID ch (sub_open consumerID ch i s) evs)"
    using sub by (simp add: Subscribe_def init)
  then have "ss_deleter s' = ss_deleter (sub_run consumerID ch (sub_open consumerID ch i s) evs) \<and>
      (r = None \<longrightarrow> ss_errCh (sub_run consumerID ch (sub_open consumerID ch i s) evs) = [])"
    by (auto simp: sub_close_def split: list.splits option.splits if_splits)
  with sub_run_marks[OF others, of consumerID ch "sub_open consumerID ch i s"] show ?thesis by (auto simp: sub_open_def Let_def)
qed

theorem acks_reach_deleter_witness:
  "\<exists>s' r n. Subscribe None defaultConfig () ''x'' 0 sample_init sample_frames sample_sub = Ret (s', r) \<and>
    dl_pending (ss_deleter s') = acked_tags (take n sample_frames)"
proof -
  have c: "checkLeadership None defaultConfig () (Some \<lparr>si_Topic = ''t'', si_GroupId = ''g''\<rparr>) = Ret None" by (simp add: checkLeadership_def)
  have o: "others_mark_nothing sample_frames" by (simp add: others_mark_nothing_def sample_frames_def)
  obtain s' r where s': "Subscribe None defaultConfig () ''x'' 0 sample_init sample_frames sample_sub = Ret (s', r)"
    by (cases "sub_close ''x'' (sub_run ''x'' 0 (sub_open ''x'' 0 \<lparr>si_Topic = ''t'', si_GroupId = ''g''\<rparr> sample_sub) sample_frames)")
      (simp add: Subscribe_def sample_handshake c)
  from acks_reach_deleter[OF o sample_handshake c s'] s' show ?thesis by (auto simp: sample_sub_def NewDeleter_def)
qed

text \<open>C37: a client that closes its side before the handshake crashes the handler: \<open>readInit\<close>
  returns neither a frame nor an error, and the topic is then read through a nil pointer,
  whatever the mode and the leadership; every other first frame is answered.\<close>

theorem early_close_panics:
  "(\<exists>m. Subscribe nodeHost cfg w consumerID ch (RecvErr IoEOF) evs s = Panic m) \<and>
    (first \<noteq> RecvErr IoEOF \<longrightarrow> (\<exists>s' r. Subscribe nodeHost cfg w consumerID ch first evs s = Ret (s', r)))"
proof -
  have "\<exists>m. Subscribe nodeHost cfg w consumerID ch (RecvErr IoEOF) evs s = Panic m"
    by (auto simp: Subscribe_def readInit_def checkLeadership_def Let_def split: option.split)
  moreover have "\<exists>s' r. Subscribe nodeHost cfg w consumerID ch first evs s = Ret (s', r)" if "first \<noteq> RecvErr IoEOF"
  proof (cases "readInit first")
    case (Inr init)
    have "init \<noteq> None"
    proof
      assume "init = None"
      with Inr have "readInit first = Inr None" by simp
      then show False using that by (auto simp: readInit_def split: recv.splits option.splits if_splits)
    qed
    then obtain i where i: "init = Some i" by blast
    have "\<exists>r. checkLeadership nodeHost cfg w (Some i) = Ret r"
      by (simp add: checkLeadership_def Let_def split: option.split)
    with Inr i show ?thesis by (auto simp: Subscribe_def split: option.split)
  qed (simp add: Subscribe_def)
  ultimately show ?thesis by blast
qed

theorem early_close_panics_witness:
  "\<exists>s' r. Subscribe None defaultConfig () ''x'' 0 sample_init sample_frames sample_sub = Ret (s', r)"
  using early_close_panics[of None defaultConfig "()" "''x''" 0 sample_frames sample_sub sample_init] by (simp add: sample_init_def)



end
