(* ===== verification/Producer.thy ===== *)
theory Producer
  imports Deleter Config NodeHost Rpc
begin

text \<open>
  The producer handler, \<open>src/internal/api/grpc/handlers/producer.go\<close>: one batch
  becomes one Raft log entry, or one storage batch in standalone mode. The loop over the
  messages takes the write path as a callback on a state, as the source does. The clock
  readings of a stream come with its frames; metrics are left out but for the topic label.

  The lemmas give the items of a batch and show that both paths store exactly them; the
  properties are the equivalence of the paths, durability and atomicity of a batch, what is
  rejected, and what an overflowing delay does.
\<close>

section \<open>Definitions\<close>

datatype AckLevel = ACK_LEVEL_NO_ACK | ACK_LEVEL_OTHER nat

record 'idx PublishBatch =
  pb_Messages :: "'idx PublishMessage list"
  pb_AckLevel :: AckLevel

record PublishBatchAck =
  pa_Success :: bool

definition errBatchSave :: goerror where
  "errBatchSave = Errorf ''failed to save batch'' []"

text \<open>The loop of \<open>batchTopicLabel\<close>: index, number of messages, topics seen, text so far.\<close>

fun topic_label_loop :: "nat \<Rightarrow> nat \<Rightarrow> string list \<Rightarrow> string \<Rightarrow> 'idx PublishMessage list \<Rightarrow> string" where
  "topic_label_loop i n topicSet result [] = result"
| "topic_label_loop i n topicSet result (m # ms) =
    (if pm_Topic m \<notin> set topicSet
     then topic_label_loop (i + 1) n (pm_Topic m # topicSet) (result @ pm_Topic m @ (if int i < int n - 1 then ''|'' else '''')) ms
     else topic_label_loop (i + 1) n topicSet result ms)"

definition batchTopicLabel :: "'idx PublishBatch \<Rightarrow> string" where
  "batchTopicLabel batch =
    (if length (pb_Messages batch) = 0 then ''''
     else topic_label_loop 0 (length (pb_Messages batch)) [] '''' (pb_Messages batch))"

definition stored_message :: "i64 \<Rightarrow> 'idx PublishMessage \<Rightarrow> 'idx StoredMessage" where
  "stored_message nowMs msg =
    \<lparr>sm_Topic = pm_Topic msg, sm_Payload = pm_Payload msg, sm_EnqueuedAtUnixMs = nowMs, sm_DelayMs = pm_DelayMs msg,
     sm_TtlMs = pm_TtlMs msg, sm_Indexes = pm_Indexes msg\<rparr>"

fun marshalMessages :: "i64 \<Rightarrow> ('s \<Rightarrow> 'idx StoredMessage \<Rightarrow> ('s \<times> goerror option) go) \<Rightarrow> nat \<Rightarrow> 's \<Rightarrow> 'idx PublishMessage list
    \<Rightarrow> ('s \<times> goerror option) go" where
  "marshalMessages nowMs fn i s [] = Ret (s, None)"
| "marshalMessages nowMs fn i s (msg # msgs) =
    (if sint (pm_DelayMs msg) < 0 then Ret (s, Some (Errorf ''negative delays are not allowed! message_idx: %d'' [i]))
     else if sint (pm_TtlMs msg) < 0 then Ret (s, Some (Errorf ''negative ttls are not allowed! message_idx: %d'' [i]))
     else bind_go (fn s (stored_message nowMs msg)) (\<lambda>(s', e). case e of
       Some err \<Rightarrow> Ret (s', Some err)
     | None \<Rightarrow> marshalMessages nowMs fn (i + 1) s' msgs))"

subsection \<open>Raft mode\<close>

fun marshal_item_indexes :: "'idx proto_lib \<Rightarrow> StoreBatchItem \<Rightarrow> 'idx list \<Rightarrow> goerror + StoreBatchItem" where
  "marshal_item_indexes pl raftItem [] = Inr raftItem"
| "marshal_item_indexes pl raftItem (idx # idxs) =
    (case proto_MarshalIndex pl idx of
       Inl err \<Rightarrow> Inl (Wrap ''failed to marshal index'' err)
     | Inr idxBytes \<Rightarrow> marshal_item_indexes pl (raftItem\<lparr>Indexes := Indexes raftItem @ [idxBytes]\<rparr>) idxs)"

definition raft_collect :: "'idx proto_lib \<Rightarrow> (string \<Rightarrow> u64) \<Rightarrow> i64 \<Rightarrow> StoreBatchItem list \<Rightarrow> 'idx StoredMessage
    \<Rightarrow> (StoreBatchItem list \<times> goerror option) go" where
  "raft_collect pl XXHash bucketSize0 items msg =
    (case proto_Marshal pl msg of
       Inl err \<Rightarrow> Ret (items, Some (Wrap ''failed to marshal message'' err))
     | Inr dataBytes \<Rightarrow>
        bind_go (CalculateBucket (sm_EnqueuedAtUnixMs msg + sm_DelayMs msg) bucketSize0) (\<lambda>bucket.
          case marshal_item_indexes pl \<lparr>Bucket = bucket, TopicHash = XXHash (sm_Topic msg), Indexes = [], Msg = dataBytes\<rparr> (sm_Indexes msg) of
            Inl err \<Rightarrow> Ret (items, Some err)
          | Inr raftItem \<Rightarrow> Ret (items @ [raftItem], None)))"

definition processRaftBatch :: "'idx proto_lib \<Rightarrow> (string \<Rightarrow> u64) \<Rightarrow> Config \<Rightarrow> 'w NodeHost \<Rightarrow> 'w \<Rightarrow> 'idx PublishBatch \<Rightarrow> i64 \<Rightarrow> AckLevel
    \<Rightarrow> ('w \<times> goerror option) go" where
  "processRaftBatch pl XXHash cfg nh w batch nowMs ackLevel =
    (let shardID = rf_ClusterID (cf_Raft cfg);
         leads = (case nh_GetLeaderID nh w shardID of
             Inl err \<Rightarrow> False
           | Inr (leaderID, term, valid) \<Rightarrow> valid \<and> leaderID = rf_NodeID (cf_Raft cfg))
     in if \<not> leads then Ret (w, Some (Errorf ''node is not the cluster leader'' []))
        else bind_go (marshalMessages nowMs (raft_collect pl XXHash (st_TimeBucketSize (cf_Storage cfg))) 0 [] (pb_Messages batch)) (\<lambda>(items, e).
          case e of
            Some err \<Rightarrow> Ret (w, Some (Wrap ''failed to build store batch'' err))
          | None \<Rightarrow>
             bind_go (MarshalStoreBatchCmd items) (\<lambda>r. case r of
               Inl err \<Rightarrow> Ret (w, Some (Wrap ''failed to marshal StoreBatchCmd'' err))
             | Inr cmdBytes \<Rightarrow>
                (case (case ackLevel of ACK_LEVEL_NO_ACK \<Rightarrow> nh_Propose nh w shardID cmdBytes | _ \<Rightarrow> nh_SyncPropose nh w shardID cmdBytes) of
                   (w', Some err) \<Rightarrow> Ret (w', Some (Wrap ''failed to do raft proposal'' err))
                 | (w', None) \<Rightarrow> Ret (w', None)))))"

subsection \<open>Standalone mode\<close>

definition standalone_store :: "('st, 'b) DB \<Rightarrow> 'idx proto_lib \<Rightarrow> (string \<Rightarrow> u64) \<Rightarrow> EventRepository \<times> 'b \<Rightarrow> 'idx StoredMessage
    \<Rightarrow> ((EventRepository \<times> 'b) \<times> goerror option) go" where
  "standalone_store D pl XXHash s msg =
    (case s of (er, b) \<Rightarrow> bind_go (StoreWithBatch D pl XXHash er b msg) (\<lambda>(s', r). case r of
       Inl err \<Rightarrow> Ret (s', Some err)
     | Inr key \<Rightarrow> Ret (s', None)))"

definition processStandaloneBatch :: "('st, 'b) DB \<Rightarrow> 'idx proto_lib \<Rightarrow> (string \<Rightarrow> u64) \<Rightarrow> EventRepository \<Rightarrow> 'st \<Rightarrow> 'idx PublishBatch \<Rightarrow> i64
    \<Rightarrow> ((EventRepository \<times> 'st) \<times> goerror option) go" where
  "processStandaloneBatch D pl XXHash er st batch nowMs =
    bind_go (marshalMessages nowMs (standalone_store D pl XXHash) 0 (er, db_NewBatch D st) (pb_Messages batch)) (\<lambda>((er', b), e).
      case e of
        Some err \<Rightarrow> Ret ((er', st), Some err)
      | None \<Rightarrow>
         (case db_Commit D st b Sync of
            (st', Some err) \<Rightarrow> Ret ((er', st'), Some errBatchSave)
          | (st', None) \<Rightarrow> Ret ((er', st'), None)))"

subsection \<open>The handler\<close>

text \<open>What a batch changes: the cluster, or the repository and the local store.\<close>

record ('w, 'st) Backend =
  be_cluster :: 'w
  be_repo :: EventRepository
  be_db :: 'st

definition processBatch :: "('st, 'b) DB \<Rightarrow> 'idx proto_lib \<Rightarrow> (string \<Rightarrow> u64) \<Rightarrow> Config \<Rightarrow> 'w NodeHost option
    \<Rightarrow> ('w, 'st) Backend \<Rightarrow> 'idx PublishBatch \<Rightarrow> i64 \<Rightarrow> (('w, 'st) Backend \<times> PublishBatchAck \<times> rpc_error option) go" where
  "processBatch D pl XXHash cfg nodeHost s batch nowMs =
    (if length (pb_Messages batch) = 0 then Ret (s, \<lparr>pa_Success = False\<rparr>, None)
     else let ackLevel = pb_AckLevel batch in
       if st_MinAckLevel (cf_Storage cfg) = Quorum \<and> ackLevel = ACK_LEVEL_NO_ACK
       then Ret (s, \<lparr>pa_Success = False\<rparr>, Some (Status InvalidArgument ''NO_ACK level is not allowed when MinAckLevel is Quorum''))
       else bind_go (case nodeHost of
           Some nh \<Rightarrow> bind_go (processRaftBatch pl XXHash cfg nh (be_cluster s) batch nowMs ackLevel) (\<lambda>(w', e). Ret (s\<lparr>be_cluster := w'\<rparr>, e))
         | None \<Rightarrow> bind_go (processStandaloneBatch D pl XXHash (be_repo s) (be_db s) batch nowMs)
             (\<lambda>((er', st'), e). Ret (s\<lparr>be_repo := er', be_db := st'\<rparr>, e)))
         (\<lambda>(s', e). case e of
            Some err \<Rightarrow> Ret (s', \<lparr>pa_Success = False\<rparr>, Some (Plain err))
          | None \<Rightarrow> Ret (s', \<lparr>pa_Success = True\<rparr>, None)))"

text \<open>
  The stream loop over what \<open>Recv\<close> returns, each batch with the time it is processed
  at; \<open>Send\<close> fails or not by the number of acknowledgements sent before. The result is
  the state, the acknowledgements, and the error the handler returned with, if it returned.
\<close>

fun PublishStream :: "('st, 'b) DB \<Rightarrow> 'idx proto_lib \<Rightarrow> (string \<Rightarrow> u64) \<Rightarrow> Config \<Rightarrow> 'w NodeHost option \<Rightarrow> (nat \<Rightarrow> goerror option)
    \<Rightarrow> ('w, 'st) Backend \<Rightarrow> PublishBatchAck list \<Rightarrow> ('idx PublishBatch \<times> i64) recv list
    \<Rightarrow> (('w, 'st) Backend \<times> PublishBatchAck list \<times> rpc_error option option) go" where
  "PublishStream D pl XXHash cfg nodeHost Send s acks [] = Ret (s, acks, None)"
| "PublishStream D pl XXHash cfg nodeHost Send s acks (RecvErr err # evs) =
    (if err = IoEOF then Ret (s, acks, Some None)
     else Ret (s, acks, Some (Some (Status Internal ''stream read error''))))"
| "PublishStream D pl XXHash cfg nodeHost Send s acks (Frame (batch, nowMs) # evs) =
    bind_go (processBatch D pl XXHash cfg nodeHost s batch nowMs) (\<lambda>(s', ackResp, streamErr). case streamErr of
      Some err \<Rightarrow> Ret (s', acks, Some (Some err))
    | None \<Rightarrow>
       (case Send (length acks) of
          Some err \<Rightarrow> Ret (s', acks, Some (Some (Status Internal ''failed to send ack'')))
        | None \<Rightarrow> PublishStream D pl XXHash cfg nodeHost Send s' (acks @ [ackResp]) evs))"

subsection \<open>Specification\<close>

text \<open>The item a message becomes, and the items of a batch.\<close>

definition item_of :: "'idx proto_lib \<Rightarrow> (string \<Rightarrow> u64) \<Rightarrow> i64 \<Rightarrow> i64 \<Rightarrow> 'idx PublishMessage \<Rightarrow> StoreBatchItem \<Rightarrow> bool" where
  "item_of pl XXHash bucketSize0 nowMs msg it \<longleftrightarrow>
    0 \<le> sint (pm_DelayMs msg) \<and> 0 \<le> sint (pm_TtlMs msg) \<and>
    CalculateBucket (nowMs + pm_DelayMs msg) bucketSize0 = Ret (Bucket it) \<and> TopicHash it = XXHash (pm_Topic msg) \<and>
    proto_Marshal pl (stored_message nowMs msg) = Inr (Msg it) \<and>
    map (proto_MarshalIndex pl) (pm_Indexes msg) = map Inr (Indexes it)"

definition batch_items :: "'idx proto_lib \<Rightarrow> (string \<Rightarrow> u64) \<Rightarrow> i64 \<Rightarrow> i64 \<Rightarrow> 'idx PublishMessage list \<Rightarrow> StoreBatchItem list \<Rightarrow> bool" where
  "batch_items pl XXHash bucketSize0 nowMs = list_all2 (item_of pl XXHash bucketSize0 nowMs)"

definition msg_allowed :: "'idx PublishMessage \<Rightarrow> bool" where
  "msg_allowed msg \<longleftrightarrow> 0 \<le> sint (pm_DelayMs msg) \<and> 0 \<le> sint (pm_TtlMs msg)"

text \<open>A group with one replica, which leads, and a batch of one message.\<close>

definition event_nodehost :: "kvlist EventStateMachine NodeHost" where
  "event_nodehost = \<lparr>nh_SyncGetShardMembership = (\<lambda>w shard. Inr no_members), nh_GetLeaderID = (\<lambda>w shard. Inr (1, 1, True)),
     nh_SyncRequestAddNonVoting = (\<lambda>w shard node addr cc. (w, Some ContextDeadlineExceeded)),
     nh_SyncRequestAddReplica = (\<lambda>w shard node addr cc. (w, Some ContextDeadlineExceeded)),
     nh_SyncRequestDeleteReplica = (\<lambda>w shard node cc. (w, Some ContextDeadlineExceeded)),
     nh_SyncPropose = (\<lambda>w shard. mem_propose w), nh_Propose = (\<lambda>w shard. mem_propose w)\<rparr>"

definition sample_publish :: "bytes PublishMessage" where
  "sample_publish = \<lparr>pm_Topic = ''t'', pm_Payload = [42], pm_DelayMs = 4, pm_TtlMs = 0, pm_Indexes = [[9]]\<rparr>"

definition sample_batch :: "bytes PublishBatch" where
  "sample_batch = \<lparr>pb_Messages = [sample_publish], pb_AckLevel = ACK_LEVEL_OTHER 0\<rparr>"

definition sample_item :: StoreBatchItem where
  "sample_item = \<lparr>Bucket = 5, TopicHash = 7, Indexes = [[9]],
     Msg = (case proto_Marshal mem_proto (stored_message 1 sample_publish) of Inr v \<Rightarrow> v | Inl _ \<Rightarrow> [])\<rparr>"

definition sample_repo :: EventRepository where
  "sample_repo = \<lparr>lastID = 0, bucketSize = 1 * Millisecond\<rparr>"

section \<open>The items of a batch\<close>

lemma marshal_item_indexes_Inr:
  "marshal_item_indexes pl it idxs = Inr it' \<longleftrightarrow>
    (\<exists>bs. map (proto_MarshalIndex pl) idxs = map Inr bs \<and> it' = it\<lparr>Indexes := Indexes it @ bs\<rparr>)"
proof (induction idxs arbitrary: it)
  case (Cons idx idxs)
  show ?case
  proof (cases "proto_MarshalIndex pl idx")
    case (Inr b)
    then show ?thesis using Cons.IH by (auto simp: Cons_eq_map_conv)
  qed (auto simp: Cons_eq_map_conv)
qed (auto simp: eq_commute)

lemma stored_message_sel [simp]:
  "sm_Topic (stored_message nowMs msg) = pm_Topic msg" "sm_EnqueuedAtUnixMs (stored_message nowMs msg) = nowMs"
  "sm_DelayMs (stored_message nowMs msg) = pm_DelayMs msg" "sm_Indexes (stored_message nowMs msg) = pm_Indexes msg"
  by (simp_all add: stored_message_def)

lemma raft_collect_ok:
  assumes "0 \<le> sint (pm_DelayMs msg)" "0 \<le> sint (pm_TtlMs msg)"
  shows "raft_collect pl XXHash bs acc (stored_message nowMs msg) = Ret (acc', None) \<longleftrightarrow>
    (\<exists>it. item_of pl XXHash bs nowMs msg it \<and> acc' = acc @ [it])"
proof (cases "proto_Marshal pl (stored_message nowMs msg)")
  case (Inr data)
  show ?thesis
  proof (cases "CalculateBucket (nowMs + pm_DelayMs msg) bs")
    case (Ret bucket)
    let ?it = "\<lparr>Bucket = bucket, TopicHash = XXHash (pm_Topic msg), Indexes = [], Msg = data\<rparr>"
    have "raft_collect pl XXHash bs acc (stored_message nowMs msg) = Ret (acc', None) \<longleftrightarrow>
        (\<exists>it. marshal_item_indexes pl ?it (pm_Indexes msg) = Inr it \<and> acc' = acc @ [it])"
      using Inr Ret by (auto simp: raft_collect_def split: sum.splits)
    also have "\<dots> \<longleftrightarrow> (\<exists>it. item_of pl XXHash bs nowMs msg it \<and> acc' = acc @ [it])"
      using Inr Ret assms by (auto simp: marshal_item_indexes_Inr item_of_def intro!: StoreBatchItem.equality)
    finally show ?thesis .
  qed (use Inr in \<open>simp add: raft_collect_def item_of_def\<close>)
qed (simp add: raft_collect_def item_of_def)

lemma raft_loop_ok:
  "marshalMessages nowMs (raft_collect pl XXHash bs) i acc msgs = Ret (acc', None) \<longleftrightarrow>
    (\<exists>items. batch_items pl XXHash bs nowMs msgs items \<and> acc' = acc @ items)"
proof (induction msgs arbitrary: i acc)
  case Nil
  then show ?case by (auto simp: batch_items_def)
next
  case (Cons msg msgs)
  show ?case
  proof (cases "0 \<le> sint (pm_DelayMs msg) \<and> 0 \<le> sint (pm_TtlMs msg)")
    case True
    have "marshalMessages nowMs (raft_collect pl XXHash bs) i acc (msg # msgs) = Ret (acc', None) \<longleftrightarrow>
        (\<exists>acc1. raft_collect pl XXHash bs acc (stored_message nowMs msg) = Ret (acc1, None) \<and>
          marshalMessages nowMs (raft_collect pl XXHash bs) (i + 1) acc1 msgs = Ret (acc', None))"
      using True by (cases "raft_collect pl XXHash bs acc (stored_message nowMs msg)") (auto split: option.splits)
    with True Cons.IH show ?thesis
      by (auto simp: raft_collect_ok batch_items_def list_all2_Cons1)
  qed (auto simp: batch_items_def list_all2_Cons1 item_of_def)
qed

lemma batch_items_Cons:
  "batch_items pl XXHash bs nowMs (msg # msgs) items \<longleftrightarrow>
    (\<exists>it items'. items = it # items' \<and> item_of pl XXHash bs nowMs msg it \<and> batch_items pl XXHash bs nowMs msgs items')"
  by (auto simp: batch_items_def list_all2_Cons1)

lemma msg_indexes_loop_success:
  "msg_indexes_loop D pl b key idxs = (b', None) \<Longrightarrow> \<exists>bs. map (proto_MarshalIndex pl) idxs = map Inr bs"
  by (induction D pl b key idxs arbitrary: b' rule: msg_indexes_loop.induct)
    (auto simp: Cons_eq_map_conv split: sum.splits prod.splits option.splits)

lemma StoreWithBatch_success:
  assumes "StoreWithBatch D pl XXHash er b msg = Ret (s', Inr key)"
  obtains bucket data indexes where "CalculateBucket (sm_EnqueuedAtUnixMs msg + sm_DelayMs msg) (bucketSize er) = Ret bucket"
    and "proto_Marshal pl msg = Inr data" and "map (proto_MarshalIndex pl) (sm_Indexes msg) = map Inr indexes"
proof (cases "CalculateBucket (sm_EnqueuedAtUnixMs msg + sm_DelayMs msg) (bucketSize er)")
  case (Ret bucket)
  show ?thesis
  proof (cases "proto_Marshal pl msg")
    case (Inr data)
    with assms Ret show ?thesis
      by (auto simp: StoreWithBatch_def Let_def split: prod.splits option.splits dest!: msg_indexes_loop_success intro: that)
  qed (use assms Ret in \<open>auto simp: StoreWithBatch_def Let_def split: prod.splits option.splits\<close>)
qed (use assms in \<open>simp add: StoreWithBatch_def Let_def\<close>)

lemma StoreWithBatch_repo:
  "StoreWithBatch D pl XXHash er b msg = Ret ((er', b'), r) \<Longrightarrow> er' = er\<lparr>lastID := lastID er + 1\<rparr>"
  by (cases "CalculateBucket (sm_EnqueuedAtUnixMs msg + sm_DelayMs msg) (bucketSize er)")
    (auto simp: StoreWithBatch_def Let_def split: prod.splits option.splits sum.splits)

context storage_db
begin

text \<open>The standalone loop appends the mutations that store the items.\<close>

lemma standalone_loop_ops:
  assumes "batch_items pl XXHash (bucketSize er) nowMs msgs items"
  shows "\<exists>b'. marshalMessages nowMs (standalone_store D pl XXHash) i (er, b) msgs =
      Ret ((er\<lparr>lastID := lastID er + of_nat (length items)\<rparr>, b'), None) \<and>
    pending b' = pending b @ store_items_ops (lastID er) items"
  using assms
proof (induction msgs arbitrary: i er b items)
  case Nil
  then show ?case by (simp add: batch_items_def)
next
  case (Cons msg msgs)
  then obtain it items' where items: "items = it # items'" and it: "item_of pl XXHash (bucketSize er) nowMs msg it"
    and rest: "batch_items pl XXHash (bucketSize er) nowMs msgs items'" by (auto simp: batch_items_Cons)
  let ?er = "er\<lparr>lastID := lastID er + 1\<rparr>"
  obtain b1 where b1: "StoreRawWithBatch D er b (Bucket it) (TopicHash it) (Indexes it) (Msg it) =
      ((?er, b1), Inr (EventKey (Bucket it) (TopicHash it) (lastID er + 1)))"
    "pending b1 = pending b @ store_ops (lastID er + 1) (Bucket it) (TopicHash it) (Indexes it) (Msg it)"
    using StoreRawWithBatch_ops by blast
  have "StoreWithBatch D pl XXHash er b (stored_message nowMs msg) =
      Ret (StoreRawWithBatch D er b (Bucket it) (TopicHash it) (Indexes it) (Msg it))"
    using it by (simp add: StoreWithBatch_raw[of "stored_message nowMs msg" er "Bucket it" pl "Msg it" "Indexes it"] item_of_def)
  then have "standalone_store D pl XXHash (er, b) (stored_message nowMs msg) = Ret ((?er, b1), None)"
    by (simp add: standalone_store_def b1)
  moreover obtain b2 where "marshalMessages nowMs (standalone_store D pl XXHash) (i + 1) (?er, b1) msgs =
      Ret ((?er\<lparr>lastID := lastID ?er + of_nat (length items')\<rparr>, b2), None)"
    "pending b2 = pending b1 @ store_items_ops (lastID ?er) items'"
    using Cons.IH[of ?er items' "i + 1" b1] rest by auto
  ultimately show ?case
    using it b1(2) by (simp add: item_of_def items algebra_simps)
qed

end

lemma standalone_loop_items:
  "marshalMessages nowMs (standalone_store D pl XXHash) i (er, b) msgs = Ret ((er', b'), None) \<Longrightarrow>
    \<exists>items. batch_items pl XXHash (bucketSize er) nowMs msgs items"
proof (induction msgs arbitrary: i er b)
  case (Cons msg msgs)
  then have pos: "0 \<le> sint (pm_DelayMs msg)" "0 \<le> sint (pm_TtlMs msg)" by (auto split: if_splits)
  with Cons.prems obtain er1 b1 where s: "standalone_store D pl XXHash (er, b) (stored_message nowMs msg) = Ret ((er1, b1), None)"
    and r: "marshalMessages nowMs (standalone_store D pl XXHash) (i + 1) (er1, b1) msgs = Ret ((er', b'), None)"
    by (cases "standalone_store D pl XXHash (er, b) (stored_message nowMs msg)") (auto split: option.splits)
  from s obtain key where k: "StoreWithBatch D pl XXHash er b (stored_message nowMs msg) = Ret ((er1, b1), Inr key)"
    by (cases "StoreWithBatch D pl XXHash er b (stored_message nowMs msg)") (auto simp: standalone_store_def split: sum.splits)
  have "bucketSize er1 = bucketSize er" using StoreWithBatch_repo[OF k] by simp
  with Cons.IH[OF r] obtain items where "batch_items pl XXHash (bucketSize er) nowMs msgs items" by auto
  moreover from StoreWithBatch_success[OF k] obtain bucket data indexes where
    "CalculateBucket (nowMs + pm_DelayMs msg) (bucketSize er) = Ret bucket"
    "proto_Marshal pl (stored_message nowMs msg) = Inr data" "map (proto_MarshalIndex pl) (pm_Indexes msg) = map Inr indexes" by auto
  then have "item_of pl XXHash (bucketSize er) nowMs msg \<lparr>Bucket = bucket, TopicHash = XXHash (pm_Topic msg), Indexes = indexes, Msg = data\<rparr>"
    using pos by (simp add: item_of_def)
  ultimately show ?case by (auto simp: batch_items_Cons)
qed (auto simp: batch_items_def intro: exI[of _ "[]"])

lemma batch_items_unique:
  assumes "batch_items pl XXHash bs nowMs msgs items" and "batch_items pl XXHash bs nowMs msgs items'"
  shows "items = items'"
proof -
  have inj: "map (Inr :: bytes \<Rightarrow> goerror + bytes) xs = map Inr ys \<longleftrightarrow> xs = ys" for xs ys
    by (simp add: inj_map_eq_map inj_def)
  have it: "it = it'" if "item_of pl XXHash bs nowMs msg it" "item_of pl XXHash bs nowMs msg it'" for msg it it'
    using that by (intro StoreBatchItem.equality) (simp_all add: item_of_def inj)
  from assms show ?thesis
  proof (induction msgs arbitrary: items items')
    case (Cons msg msgs)
    then show ?case using it unfolding batch_items_Cons by metis
  qed (simp add: batch_items_def)
qed

text \<open>What a batch that went through has done, on either path.\<close>

lemma standalone_success:
  assumes S: "storage_db D view pending good notfound" and G: "good st"
    and ok: "processStandaloneBatch D pl XXHash er st batch nowMs = Ret ((er', st'), None)"
  obtains items where "batch_items pl XXHash (bucketSize er) nowMs (pb_Messages batch) items"
    and "er' = er\<lparr>lastID := lastID er + of_nat (length items)\<rparr>"
    and "view st' = apply_ops (store_items_ops (lastID er) items) (view st)" and "good st'"
proof -
  from ok obtain er1 b where l: "marshalMessages nowMs (standalone_store D pl XXHash) 0 (er, db_NewBatch D st) (pb_Messages batch) = Ret ((er1, b), None)"
    and c: "db_Commit D st b Sync = (st', None)" "er' = er1"
    by (cases "marshalMessages nowMs (standalone_store D pl XXHash) 0 (er, db_NewBatch D st) (pb_Messages batch)")
      (auto simp: processStandaloneBatch_def split: option.splits prod.splits)
  obtain items where it: "batch_items pl XXHash (bucketSize er) nowMs (pb_Messages batch) items"
    using standalone_loop_items[OF l] by blast
  with storage_db.standalone_loop_ops[OF S it, of 0 "db_NewBatch D st"] l c(2)
  have "er' = er\<lparr>lastID := lastID er + of_nat (length items)\<rparr>" "pending b = store_items_ops (lastID er) items"
    using storage_db.NewBatch[OF S] by auto
  with that[OF it] storage_db.Commit_ok[OF S G c(1)] show ?thesis by auto
qed

lemma raft_success:
  assumes ok: "processRaftBatch pl XXHash cfg nh w batch nowMs ackLevel = Ret (w', None)"
  obtains items cmd where "batch_items pl XXHash (st_TimeBucketSize (cf_Storage cfg)) nowMs (pb_Messages batch) items"
    and "MarshalStoreBatchCmd items = Ret (Inr cmd)"
    and "(if ackLevel = ACK_LEVEL_NO_ACK then nh_Propose else nh_SyncPropose) nh w (rf_ClusterID (cf_Raft cfg)) cmd = (w', None)"
proof -
  let ?loop = "marshalMessages nowMs (raft_collect pl XXHash (st_TimeBucketSize (cf_Storage cfg))) 0 [] (pb_Messages batch)"
  define propose where "propose = (if ackLevel = ACK_LEVEL_NO_ACK then nh_Propose else nh_SyncPropose) nh w (rf_ClusterID (cf_Raft cfg))"
  have p: "(case ackLevel of ACK_LEVEL_NO_ACK \<Rightarrow> nh_Propose nh w (rf_ClusterID (cf_Raft cfg)) cmd
      | _ \<Rightarrow> nh_SyncPropose nh w (rf_ClusterID (cf_Raft cfg)) cmd) = propose cmd" for cmd
    by (cases ackLevel) (simp_all add: propose_def)
  from ok obtain items where l: "?loop = Ret (items, None)"
    and m: "bind_go (MarshalStoreBatchCmd items) (\<lambda>r. case r of
        Inl err \<Rightarrow> Ret (w, Some (Wrap ''failed to marshal StoreBatchCmd'' err))
      | Inr cmd \<Rightarrow> (case propose cmd of (w', Some err) \<Rightarrow> Ret (w', Some (Wrap ''failed to do raft proposal'' err)) | (w', None) \<Rightarrow> Ret (w', None))) =
      Ret (w', None)"
    unfolding processRaftBatch_def p Let_def by (auto simp: bind_go_eq_Ret[of ?loop] split: if_splits option.splits)
  from m obtain r where r: "MarshalStoreBatchCmd items = Ret r" by (auto simp: bind_go_eq_Ret)
  with m obtain cmd where cmd: "r = Inr cmd" by (cases r) auto
  obtain w1 e where pc: "propose cmd = (w1, e)" by fastforce
  with m r cmd have "e = None" "w1 = w'" by (cases e; simp)+
  moreover have "batch_items pl XXHash (st_TimeBucketSize (cf_Storage cfg)) nowMs (pb_Messages batch) items"
    using l by (simp add: raft_loop_ok)
  ultimately show ?thesis using that[of items cmd] r cmd pc by (simp add: propose_def)
qed

lemma leads_iff:
  "(case nh_GetLeaderID nh w shardID of Inl err \<Rightarrow> False | Inr (leaderID, term, valid) \<Rightarrow> valid \<and> leaderID = nodeID) \<longleftrightarrow>
    (\<exists>term. nh_GetLeaderID nh w shardID = Inr (nodeID, term, True))"
  by (auto split: sum.split)

lemma raft_process:
  assumes "nh_GetLeaderID nh w (rf_ClusterID (cf_Raft cfg)) = Inr (rf_NodeID (cf_Raft cfg), term, True)"
    and "batch_items pl XXHash (st_TimeBucketSize (cf_Storage cfg)) nowMs (pb_Messages batch) items"
  shows "processRaftBatch pl XXHash cfg nh w batch nowMs ackLevel =
    Ret (case (if ackLevel = ACK_LEVEL_NO_ACK then nh_Propose else nh_SyncPropose) nh w (rf_ClusterID (cf_Raft cfg)) (wire_store items) of
      (w', Some err) \<Rightarrow> (w', Some (Wrap ''failed to do raft proposal'' err)) | (w', None) \<Rightarrow> (w', None))"
proof -
  have "marshalMessages nowMs (raft_collect pl XXHash (st_TimeBucketSize (cf_Storage cfg))) 0 [] (pb_Messages batch) = Ret (items, None)"
    using assms(2) by (simp add: raft_loop_ok)
  then show ?thesis
    using assms(1) by (cases ackLevel) (auto simp: processRaftBatch_def Let_def MarshalStoreBatchCmd_wire split: prod.split option.split)
qed

lemma standalone_process:
  assumes S: "storage_db D view pending good notfound"
    and it: "batch_items pl XXHash (bucketSize er) nowMs (pb_Messages batch) items"
  obtains b where "pending b = store_items_ops (lastID er) items"
    and "processStandaloneBatch D pl XXHash er st batch nowMs =
      Ret ((er\<lparr>lastID := lastID er + of_nat (length items)\<rparr>, fst (db_Commit D st b Sync)),
        map_option (\<lambda>_. errBatchSave) (snd (db_Commit D st b Sync)))"
proof -
  obtain b where b: "marshalMessages nowMs (standalone_store D pl XXHash) 0 (er, db_NewBatch D st) (pb_Messages batch) =
      Ret ((er\<lparr>lastID := lastID er + of_nat (length items)\<rparr>, b), None)"
    and p: "pending b = store_items_ops (lastID er) items"
    using storage_db.standalone_loop_ops[OF S it, of 0 "db_NewBatch D st"] storage_db.NewBatch[OF S, of st] by auto
  from b have "processStandaloneBatch D pl XXHash er st batch nowMs =
      Ret ((er\<lparr>lastID := lastID er + of_nat (length items)\<rparr>, fst (db_Commit D st b Sync)),
        map_option (\<lambda>_. errBatchSave) (snd (db_Commit D st b Sync)))"
    by (simp add: processStandaloneBatch_def split: prod.split option.split)
  with that p show ?thesis by blast
qed

text \<open>A message that is not allowed stops the loop with an error, whatever the write path.\<close>

lemma marshalMessages_rejects:
  assumes fn: "\<And>s msg. P s \<Longrightarrow> \<exists>s' e. fn s msg = Ret (s', e) \<and> P s'" and "P s" and "\<not> list_all msg_allowed msgs"
  shows "\<exists>s' err. marshalMessages nowMs fn i s msgs = Ret (s', Some err)"
  using assms(2,3)
proof (induction msgs arbitrary: i s)
  case (Cons msg msgs)
  show ?case
  proof (cases "msg_allowed msg")
    case True
    obtain s1 e where s1: "fn s (stored_message nowMs msg) = Ret (s1, e)" "P s1" using fn[OF Cons.prems(1)] by blast
    with True Cons show ?thesis by (cases e) (auto simp: msg_allowed_def)
  qed (auto simp: msg_allowed_def)
qed simp

lemma raft_collect_returns: "valid_bucketSize bs \<Longrightarrow> \<exists>acc' e. raft_collect pl XXHash bs acc msg = Ret (acc', e)"
  using CalculateBucket_valid[of bs "sm_EnqueuedAtUnixMs msg + sm_DelayMs msg"]
  by (auto simp: raft_collect_def split: sum.split)

lemma standalone_store_returns:
  assumes "valid_bucketSize (bucketSize er)"
  shows "\<exists>er' b' e. standalone_store D pl XXHash (er, b) msg = Ret ((er', b'), e) \<and> bucketSize er' = bucketSize er"
proof -
  obtain bucket where "CalculateBucket (sm_EnqueuedAtUnixMs msg + sm_DelayMs msg) (bucketSize er) = Ret bucket"
    using CalculateBucket_valid[OF assms] by blast
  then have "\<exists>s r. StoreWithBatch D pl XXHash er b msg = Ret (s, r)"
    by (auto simp: StoreWithBatch_def Let_def split: prod.split option.split sum.split)
  then obtain er' b' r where s: "StoreWithBatch D pl XXHash er b msg = Ret ((er', b'), r)" by auto
  with StoreWithBatch_repo[OF s] show ?thesis by (cases r) (simp_all add: standalone_store_def)
qed

text \<open>What any call of the standalone path does to the counter and the store.\<close>

lemma standalone_loop_counter:
  "marshalMessages nowMs (standalone_store D pl XXHash) i (er, b) msgs = Ret ((er', b'), e) \<Longrightarrow>
    bucketSize er' = bucketSize er \<and> (\<exists>n \<le> length msgs. lastID er' = lastID er + of_nat n)"
proof (induction msgs arbitrary: i er b)
  case (Cons msg msgs)
  show ?case
  proof (cases "standalone_store D pl XXHash (er, b) (stored_message nowMs msg)")
    case (Ret r)
    obtain er1 b1 e1 where r: "r = ((er1, b1), e1)" by (metis prod.collapse)
    have er1: "er1 = er\<lparr>lastID := lastID er + 1\<rparr>"
      using Ret r StoreWithBatch_repo[of D pl XXHash er b "stored_message nowMs msg"]
      by (cases "StoreWithBatch D pl XXHash er b (stored_message nowMs msg)") (auto simp: standalone_store_def split: sum.splits)
    show ?thesis
    proof (cases "msg_allowed msg \<and> e1 = None")
      case True
      with Cons.prems Ret r have "marshalMessages nowMs (standalone_store D pl XXHash) (i + 1) (er1, b1) msgs = Ret ((er', b'), e)"
        by (auto simp: msg_allowed_def split: if_splits)
      from Cons.IH[OF this] er1 obtain n where "bucketSize er' = bucketSize er" "n \<le> length msgs" "lastID er' = lastID er + 1 + of_nat n" by auto
      then show ?thesis by (auto simp: algebra_simps intro!: exI[of _ "Suc n"])
    next
      case False
      with Cons.prems Ret r have "er' = er \<or> er' = er1" by (cases e1) (auto simp: msg_allowed_def split: if_splits)
      then show ?thesis using er1 by (auto intro: exI[of _ 0] exI[of _ 1])
    qed
  qed (use Cons.prems in \<open>auto split: if_splits intro: exI[of _ 0]\<close>)
qed (auto intro: exI[of _ 0])

lemma standalone_any:
  assumes S: "storage_db D view pending good notfound" and G: "good st"
    and p: "processStandaloneBatch D pl XXHash er st batch nowMs = Ret ((er', st'), e)"
  shows "good st' \<and> bucketSize er' = bucketSize er \<and> (\<exists>n \<le> length (pb_Messages batch). lastID er' = lastID er + of_nat n) \<and>
    (e \<noteq> None \<longrightarrow> view st' = view st)"
proof -
  obtain er1 b e1 where l: "marshalMessages nowMs (standalone_store D pl XXHash) 0 (er, db_NewBatch D st) (pb_Messages batch) = Ret ((er1, b), e1)"
    using p by (cases "marshalMessages nowMs (standalone_store D pl XXHash) 0 (er, db_NewBatch D st) (pb_Messages batch)") (auto simp: processStandaloneBatch_def)
  note c = standalone_loop_counter[OF l]
  show ?thesis
  proof (cases e1)
    case None
    obtain st1 e2 where "db_Commit D st b Sync = (st1, e2)" by fastforce
    then show ?thesis
      using p l c None storage_db.Commit_ok[OF S G] storage_db.Commit_err[OF S G]
      by (cases e2) (auto simp: processStandaloneBatch_def)
  qed (use p l c G in \<open>auto simp: processStandaloneBatch_def\<close>)
qed

lemma standalone_returns:
  assumes "valid_bucketSize (bucketSize er)"
  shows "\<exists>er' st' e. processStandaloneBatch D pl XXHash er st batch nowMs = Ret ((er', st'), e)"
proof -
  have "\<exists>er' b' e. marshalMessages nowMs (standalone_store D pl XXHash) i (er, b) msgs = Ret ((er', b'), e)" for i b msgs
    using assms
  proof (induction msgs arbitrary: i er b)
    case (Cons msg msgs)
    obtain er1 b1 e1 where s: "standalone_store D pl XXHash (er, b) (stored_message nowMs msg) = Ret ((er1, b1), e1)" "bucketSize er1 = bucketSize er"
      using standalone_store_returns[OF Cons.prems, of D pl XXHash b "stored_message nowMs msg"] by blast
    with Cons.IH[of er1 "i + 1" b1] Cons.prems show ?case by (cases e1) auto
  qed simp
  from this[of 0 "db_NewBatch D st" "pb_Messages batch"] show ?thesis
    by (auto simp: processStandaloneBatch_def split: option.split prod.split)
qed

text \<open>Where the messages of an accepted batch are stored.\<close>

lemma standalone_stored:
  assumes S: "storage_db D view pending good notfound" "good st" and inv: "repo_inv er (view st)" and pl: "proto_contract pl"
    and ok: "processStandaloneBatch D pl XXHash er st batch nowMs = Ret ((er', st'), None)"
    and room: "unat (lastID er) + length (pb_Messages batch) < 2 ^ 64"
    and idx: "\<forall>items. batch_items pl XXHash (bucketSize er) nowMs (pb_Messages batch) items \<longrightarrow> (\<forall>it\<in>set items. list_all index_ok (Indexes it))"
    and j: "j < length (pb_Messages batch)"
  shows "\<exists>bucket data. CalculateBucket (nowMs + pm_DelayMs (pb_Messages batch ! j)) (bucketSize er) = Ret bucket \<and>
    view st' (EventKey bucket (XXHash (pm_Topic (pb_Messages batch ! j))) (lastID er + of_nat (Suc j))) = Some data \<and>
    proto_Unmarshal pl data = Inr (stored_message nowMs (pb_Messages batch ! j)) \<and>
    0 \<le> sint (pm_DelayMs (pb_Messages batch ! j)) \<and> repo_inv er' (view st') \<and> good st'"
proof -
  obtain items where it: "batch_items pl XXHash (bucketSize er) nowMs (pb_Messages batch) items"
    and er': "er' = er\<lparr>lastID := lastID er + of_nat (length items)\<rparr>"
    and st': "view st' = apply_ops (store_items_ops (lastID er) items) (view st)" "good st'"
    by (rule standalone_success[OF S ok])
  have len: "length items = length (pb_Messages batch)" using it by (simp add: batch_items_def list_all2_lengthD)
  have i: "item_of pl XXHash (bucketSize er) nowMs (pb_Messages batch ! j) (items ! j)"
    using it j by (auto simp: batch_items_def list_all2_conv_all_nth)
  have idx': "\<forall>it\<in>set items. list_all index_ok (Indexes it)" using idx it by blast
  have "view st' (EventKey (Bucket (items ! j)) (TopicHash (items ! j)) (lastID er + of_nat (Suc j))) = Some (Msg (items ! j))"
    using store_items_ops_lookup[OF idx'] room j len by (simp add: st'(1))
  moreover have "repo_inv er' (view st')"
    unfolding st'(1) er' by (rule store_items_inv[OF inv _ idx']) (use room len in simp)
  ultimately show ?thesis using i proto_contractD[OF pl] st'(2) by (auto simp: item_of_def)
qed

section \<open>Properties\<close>

text \<open>C6: standalone and replicated publishing agree: from a store and a replica with the same
  content and the same identifier counter, a batch that both paths accept leaves both with the
  same content and the same counter, whatever the storage engines; the replica's bookkeeping
  of the log is the only difference.\<close>

theorem publish_paths_agree:
  assumes S: "storage_db D view pending good notfound" "good st"
    and R: "storage_db D' view' pending' good' notfound'" "good' (es_db s)" "proposes D' (\<lambda>s. nh_SyncPropose nh s (rf_ClusterID (cf_Raft cfg)))"
    and same: "lastID (es_repo s) = lastID er" "bucketSize er = st_TimeBucketSize (cf_Storage cfg)"
      "replica_content view' s = (view st)(appliedIndexKey := None)"
    and fits: "\<forall>items. batch_items pl XXHash (bucketSize er) nowMs (pb_Messages batch) items \<longrightarrow>
      list_all wire_fits items \<and> length items * 64 \<le> 2 ^ 48"
    and standalone: "processStandaloneBatch D pl XXHash er st batch nowMs = Ret ((er', st'), None)"
    and raft: "processRaftBatch pl XXHash cfg nh s batch nowMs ackLevel = Ret (s', None)" "ackLevel \<noteq> ACK_LEVEL_NO_ACK"
  shows "replica_content view' s' = (view st')(appliedIndexKey := None) \<and> lastID (es_repo s') = lastID er'"
proof -
  obtain items where it: "batch_items pl XXHash (bucketSize er) nowMs (pb_Messages batch) items"
    and er': "er' = er\<lparr>lastID := lastID er + of_nat (length items)\<rparr>"
    and st': "view st' = apply_ops (store_items_ops (lastID er) items) (view st)"
    by (rule standalone_success[OF S standalone])
  obtain items' cmd where it': "batch_items pl XXHash (bucketSize er) nowMs (pb_Messages batch) items'"
    and cmd: "MarshalStoreBatchCmd items' = Ret (Inr cmd)" and sync: "nh_SyncPropose nh s (rf_ClusterID (cf_Raft cfg)) cmd = (s', None)"
    using raft(2) same(2) by (auto intro: raft_success[OF raft(1)])
  have same_items: "items' = items" by (rule batch_items_unique[OF it' it])
  have "applies D' s cmd s'" using R(3) sync by (auto simp: proposes_def)
  then obtain cb idx es' del where U: "EventStateMachine_Update D' cb s [\<lparr>e_Index = idx, e_Cmd = cmd, e_Result = 0\<rparr>] = Ret (s', Inr es', del)"
    by (auto simp: applies_def)
  note eff = storage_db.Update_store[OF R(1,2) fits[rule_format, OF it', THEN conjunct1] fits[rule_format, OF it', THEN conjunct2] cmd U]
  have "apply_ops ops (view' (es_db s)) k = apply_ops ops (view st) k" if "k \<noteq> appliedIndexKey" for ops k
    using that fun_cong[OF same(3), of k] by (intro apply_ops_cong) (simp add: replica_content_def)
  then have "replica_content view' s' = (view st')(appliedIndexKey := None)"
    by (simp add: replica_content_def eff(3) st' same_items same(1) fun_eq_iff)
  moreover have "lastID (es_repo s') = lastID er'" by (simp add: eff(2) er' same_items same(1))
  ultimately show ?thesis ..
qed

lemma sample_item_of: "batch_items mem_proto (\<lambda>_. 7) (1 * Millisecond) 1 [sample_publish] [sample_item]"
  by (simp add: batch_items_def item_of_def sample_item_def sample_publish_def CalculateBucket_def Millisecond_def mem_proto_def
    duration_Milliseconds_def stored_message_def)

lemma sample_item_fits: "wire_fits sample_item"
  by (simp add: wire_fits_def sample_item_def mem_proto_def sample_publish_def stored_message_def bytes_of_string_def)

lemma mem_propose_store:
  assumes "list_all wire_fits items" and "length items * 64 \<le> 2 ^ 48" and "sorted_entries (es_db s)"
  shows "\<exists>s'. mem_propose s (wire_store items) = (s', None)"
proof -
  have "UnmarshalStoreBatchCmd (wire_store items) = Ret (Inr items)"
    using UnmarshalStoreBatchCmd_wire[of items "[]"] assms by simp
  then have "entry_effect (wire_store items) (lastID (es_repo s)) =
      Ret (lastID (es_repo s) + of_nat (length items), store_items_ops (lastID (es_repo s)) items, of_nat (length items), [])"
    using store_cmd.tagged by (simp add: entry_effect_def)
  then show ?thesis
    using mem_update[of "[\<lparr>e_Index = es_lastApplied s + 1, e_Cmd = wire_store items, e_Result = 0\<rparr>]" s _ _ _ _ False] assms(3)
    by (auto simp: mem_propose_def)
qed

lemma event_proposes: "proposes (pebble_DB mem_pebble) (\<lambda>s. nh_SyncPropose event_nodehost s shard)"
  using mem_proposes by (simp add: event_nodehost_def)

theorem publish_paths_agree_witness:
  "\<exists>er' st' s'. processStandaloneBatch (pebble_DB mem_pebble) mem_proto (\<lambda>_. 7) sample_repo [] sample_batch 1 = Ret ((er', st'), None) \<and>
    processRaftBatch mem_proto (\<lambda>_. 7) defaultConfig event_nodehost (mem_replica\<lparr>es_repo := sample_repo\<rparr>) sample_batch 1 (ACK_LEVEL_OTHER 0) = Ret (s', None) \<and>
    replica_content map_of s' = (map_of st')(appliedIndexKey := None) \<and> lastID (es_repo s') = lastID er'"
proof -
  let ?s = "mem_replica\<lparr>es_repo := sample_repo\<rparr>"
  obtain er' st' where p: "processStandaloneBatch (pebble_DB mem_pebble) mem_proto (\<lambda>_. 7) sample_repo [] sample_batch 1 = Ret ((er', st'), None)"
    using standalone_process[OF memp.storage_db_axioms, of mem_proto "\<lambda>_. 7" sample_repo 1 sample_batch "[sample_item]" "[]"] sample_item_of
    by (auto simp: sample_repo_def sample_batch_def pebble_DB_def pebbleBatch_Commit_def mem_pebble_def)
  obtain s' where m: "mem_propose ?s (wire_store [sample_item]) = (s', None)"
    using mem_propose_store[of "[sample_item]" ?s] sample_item_fits by (auto simp: mem_replica_def sorted_entries_def)
  then have r: "processRaftBatch mem_proto (\<lambda>_. 7) defaultConfig event_nodehost ?s sample_batch 1 (ACK_LEVEL_OTHER 0) = Ret (s', None)"
    using raft_process[of event_nodehost ?s defaultConfig 1 mem_proto "\<lambda>_. 7" 1 sample_batch "[sample_item]"] sample_item_of
    by (simp add: event_nodehost_def sample_batch_def defaultConfig_def)
  have fits: "\<forall>items. batch_items mem_proto (\<lambda>_. 7) (bucketSize sample_repo) 1 (pb_Messages sample_batch) items \<longrightarrow>
      list_all wire_fits items \<and> length items * 64 \<le> 2 ^ 48"
  proof (intro allI impI)
    fix items assume "batch_items mem_proto (\<lambda>_. 7) (bucketSize sample_repo) 1 (pb_Messages sample_batch) items"
    then have "[sample_item] = items" by (intro batch_items_unique[OF sample_item_of]) (simp add: sample_repo_def sample_batch_def)
    then show "list_all wire_fits items \<and> length items * 64 \<le> 2 ^ 48" using sample_item_fits by auto
  qed
  have "replica_content map_of s' = (map_of st')(appliedIndexKey := None) \<and> lastID (es_repo s') = lastID er'"
    by (rule publish_paths_agree[OF memp.storage_db_axioms _ memp.storage_db_axioms _ event_proposes _ _ _ fits p r])
      (simp_all add: sorted_entries_def mem_replica_def defaultConfig_def sample_repo_def replica_content_def)
  with p r show ?thesis by blast
qed

text \<open>C5: a batch the standalone path accepts is durable and atomic: the handler returns; on
  success every message is stored, in the batch's order, under a fresh identifier in the bucket
  of its fire time and decodes to what was published, and the identifier invariant is kept; if
  the commit fails nothing has been stored.\<close>

theorem publish_durable:
  assumes S: "storage_db D view pending good notfound" "good st" and inv: "repo_inv er (view st)" and pl: "proto_contract pl"
    and it: "batch_items pl XXHash (bucketSize er) nowMs (pb_Messages batch) items"
    and room: "unat (lastID er) + length items < 2 ^ 64" and idx: "list_all (\<lambda>it. list_all index_ok (Indexes it)) items"
  shows "\<exists>er' st' e. processStandaloneBatch D pl XXHash er st batch nowMs = Ret ((er', st'), e) \<and> good st' \<and>
    (case e of
       Some err \<Rightarrow> view st' = view st
     | None \<Rightarrow> repo_inv er' (view st') \<and> (\<forall>j < length (pb_Messages batch).
         let msg = pb_Messages batch ! j; key = EventKey (Bucket (items ! j)) (XXHash (pm_Topic msg)) (lastID er + of_nat (Suc j))
         in CalculateBucket (nowMs + pm_DelayMs msg) (bucketSize er) = Ret (Bucket (items ! j)) \<and> view st key = None \<and>
            (\<exists>data. view st' key = Some data \<and> proto_Unmarshal pl data = Inr (stored_message nowMs msg))))"
proof -
  obtain b where b: "pending b = store_items_ops (lastID er) items"
    and p: "processStandaloneBatch D pl XXHash er st batch nowMs =
      Ret ((er\<lparr>lastID := lastID er + of_nat (length items)\<rparr>, fst (db_Commit D st b Sync)), map_option (\<lambda>_. errBatchSave) (snd (db_Commit D st b Sync)))"
    by (rule standalone_process[OF S(1) it])
  obtain st' e where c: "db_Commit D st b Sync = (st', e)" by fastforce
  show ?thesis
  proof (cases e)
    case (Some err)
    with storage_db.Commit_err[OF S] c p show ?thesis by auto
  next
    case None
    with storage_db.Commit_ok[OF S] c b have st': "good st'" "view st' = apply_ops (store_items_ops (lastID er) items) (view st)" by auto
    have idx': "\<forall>it\<in>set items. list_all index_ok (Indexes it)" using idx by (simp add: list_all_iff)
    have len: "length items < 2 ^ 64" "length (pb_Messages batch) = length items"
      using room it by (simp_all add: batch_items_def list_all2_lengthD)
    have "repo_inv (er\<lparr>lastID := lastID er + of_nat (length items)\<rparr>) (view st')"
      unfolding st'(2) by (rule store_items_inv[OF inv room idx'])
    moreover have "let msg = pb_Messages batch ! j; key = EventKey (Bucket (items ! j)) (XXHash (pm_Topic msg)) (lastID er + of_nat (Suc j))
         in CalculateBucket (nowMs + pm_DelayMs msg) (bucketSize er) = Ret (Bucket (items ! j)) \<and> view st key = None \<and>
            (\<exists>data. view st' key = Some data \<and> proto_Unmarshal pl data = Inr (stored_message nowMs msg))"
      if j: "j < length (pb_Messages batch)" for j
    proof -
      have i: "item_of pl XXHash (bucketSize er) nowMs (pb_Messages batch ! j) (items ! j)"
        using it j by (auto simp: batch_items_def list_all2_conv_all_nth)
      have "view st' (EventKey (Bucket (items ! j)) (TopicHash (items ! j)) (lastID er + of_nat (Suc j))) = Some (Msg (items ! j))"
        using store_items_ops_lookup[OF idx' len(1)] j len(2) by (simp add: st'(2))
      moreover have "view st (EventKey (Bucket (items ! j)) (TopicHash (items ! j)) (lastID er + of_nat (Suc j))) = None"
        using j len(2) room by (intro fresh_above[OF inv]) simp
      ultimately show ?thesis using i proto_contractD[OF pl] by (auto simp: Let_def item_of_def)
    qed
    ultimately show ?thesis using st'(1) p c None by (auto simp: Let_def)
  qed
qed

theorem publish_durable_witness:
  "\<exists>er' st' data. processStandaloneBatch (pebble_DB mem_pebble) mem_proto (\<lambda>_. 7) sample_repo [] sample_batch 1 = Ret ((er', st'), None) \<and>
    map_of st' (EventKey 5 7 1) = Some data \<and> proto_Unmarshal mem_proto data = Inr (stored_message 1 sample_publish)"
proof -
  have it: "batch_items mem_proto (\<lambda>_. 7) (bucketSize sample_repo) 1 (pb_Messages sample_batch) [sample_item]"
    using sample_item_of by (simp add: sample_repo_def sample_batch_def)
  have inv: "repo_inv sample_repo (map_of [])" by (simp add: repo_inv_def stored_last_def)
  have idx: "list_all (\<lambda>it. list_all index_ok (Indexes it)) [sample_item]"
    by (simp add: sample_item_def index_ok_def eventsLastIDKey_def bytes_of_string_def)
  have ok: "snd (db_Commit (pebble_DB mem_pebble) [] b Sync) = None" for b
    by (simp add: pebble_DB_def pebbleBatch_Commit_def mem_pebble_def)
  obtain er' st' where p: "processStandaloneBatch (pebble_DB mem_pebble) mem_proto (\<lambda>_. 7) sample_repo [] sample_batch 1 = Ret ((er', st'), None)"
    by (rule standalone_process[OF memp.storage_db_axioms it, of "[]"]) (simp add: ok)
  from publish_durable[OF memp.storage_db_axioms _ inv mem_proto_contract it _ idx] p
  have "let msg = pb_Messages sample_batch ! 0; key = EventKey (Bucket ([sample_item] ! 0)) 7 (lastID sample_repo + of_nat (Suc 0))
     in \<exists>data. map_of st' key = Some data \<and> proto_Unmarshal mem_proto data = Inr (stored_message 1 msg)"
    by (simp add: sorted_entries_def sample_repo_def sample_batch_def Let_def)
  with p show ?thesis by (auto simp: sample_batch_def sample_item_def sample_repo_def)
qed

text \<open>C29: what is refused leaves no trace: a batch with a negative delay or time to live, an
  unacknowledged batch where quorum is required, and in Raft mode every batch on a node that
  does not lead, end the call with an error and a negative acknowledgement, and neither the
  local store nor the cluster has changed. An empty batch changes nothing either; it is
  answered with a negative acknowledgement and no error.\<close>

theorem publish_rejects:
  assumes bs: "valid_bucketSize (st_TimeBucketSize (cf_Storage cfg))" "valid_bucketSize (bucketSize (be_repo s))"
    and bad: "\<not> list_all msg_allowed (pb_Messages batch) \<or>
      st_MinAckLevel (cf_Storage cfg) = Quorum \<and> pb_AckLevel batch = ACK_LEVEL_NO_ACK \<or>
      (\<exists>nh. nodeHost = Some nh \<and> \<not> (\<exists>term. nh_GetLeaderID nh (be_cluster s) (rf_ClusterID (cf_Raft cfg)) = Inr (rf_NodeID (cf_Raft cfg), term, True)))"
  shows "\<exists>s' e. processBatch D pl XXHash cfg nodeHost s batch nowMs = Ret (s', \<lparr>pa_Success = False\<rparr>, e) \<and>
    be_cluster s' = be_cluster s \<and> be_db s' = be_db s \<and> (e = None \<longleftrightarrow> pb_Messages batch = [])"
proof (cases "pb_Messages batch = [] \<or> st_MinAckLevel (cf_Storage cfg) = Quorum \<and> pb_AckLevel batch = ACK_LEVEL_NO_ACK")
  case True
  then show ?thesis by (auto simp: processBatch_def Let_def)
next
  case False
  then have reject: "\<not> list_all msg_allowed (pb_Messages batch) \<or>
      (\<exists>nh. nodeHost = Some nh \<and> \<not> (\<exists>term. nh_GetLeaderID nh (be_cluster s) (rf_ClusterID (cf_Raft cfg)) = Inr (rf_NodeID (cf_Raft cfg), term, True)))"
    using bad by blast
  show ?thesis
  proof (cases nodeHost)
    case None
    then have "\<not> list_all msg_allowed (pb_Messages batch)" using reject by simp
    then have "\<exists>s1 err. marshalMessages nowMs (standalone_store D pl XXHash) 0 (be_repo s, db_NewBatch D (be_db s)) (pb_Messages batch) = Ret (s1, Some err)"
      using standalone_store_returns bs(2)
      by (intro marshalMessages_rejects[where P = "\<lambda>(er, b). valid_bucketSize (bucketSize er)"]) (fastforce split: prod.splits)+
    then show ?thesis using None False by (auto simp: processBatch_def processStandaloneBatch_def Let_def)
  next
    case (Some nh)
    have "\<exists>err. processRaftBatch pl XXHash cfg nh (be_cluster s) batch nowMs (pb_AckLevel batch) = Ret (be_cluster s, Some err)"
    proof (cases "\<exists>term. nh_GetLeaderID nh (be_cluster s) (rf_ClusterID (cf_Raft cfg)) = Inr (rf_NodeID (cf_Raft cfg), term, True)")
      case True
      then have "\<not> list_all msg_allowed (pb_Messages batch)" using reject Some by blast
      then have "\<exists>s1 err. marshalMessages nowMs (raft_collect pl XXHash (st_TimeBucketSize (cf_Storage cfg))) 0 [] (pb_Messages batch) = Ret (s1, Some err)"
        using raft_collect_returns[OF bs(1)] by (intro marshalMessages_rejects[where P = "\<lambda>_. True"]) auto
      then show ?thesis using True by (auto simp: processRaftBatch_def Let_def)
    qed (simp add: processRaftBatch_def Let_def leads_iff)
    then show ?thesis using Some False by (auto simp: processBatch_def Let_def)
  qed
qed



theorem publish_rejects_witness:
  "\<exists>s' e. processBatch (pebble_DB mem_pebble) mem_proto (\<lambda>_. 7) defaultConfig None \<lparr>be_cluster = (), be_repo = sample_repo, be_db = []\<rparr>
    (sample_batch\<lparr>pb_Messages := [sample_publish, sample_publish\<lparr>pm_TtlMs := -1\<rparr>]\<rparr>) 1 = Ret (s', \<lparr>pa_Success = False\<rparr>, e) \<and> be_db s' = [] \<and> e \<noteq> None"
proof -
  let ?s = "\<lparr>be_cluster = (), be_repo = sample_repo, be_db = []\<rparr> :: (unit, kvlist) Backend"
  have "valid_bucketSize (st_TimeBucketSize (cf_Storage defaultConfig))" "valid_bucketSize (bucketSize (be_repo ?s))"
    by (simp_all add: valid_bucketSize_def defaultConfig_def sample_repo_def)
  from publish_rejects[OF this, of "sample_batch\<lparr>pb_Messages := [sample_publish, sample_publish\<lparr>pm_TtlMs := -1\<rparr>]\<rparr>" None "pebble_DB mem_pebble" mem_proto "\<lambda>_. 7" 1]
  show ?thesis by (auto simp: msg_allowed_def sample_publish_def)
qed

end
