(* ===== verification/Lifecycle.thy ===== *)
theory Lifecycle
  imports Cluster Consumer Producer
begin

text \<open>
  Start-up, \<open>src/internal/app/app.go\<close> and \<open>src/cmd/futureq\<close>: opening the
  storage engine a configuration names, loading the repository, joining a cluster through
  seeds, starting the two Raft groups, announcing the client address, and leaving. The host
  and port functions of package \<open>net\<close> are modelled as they are written. The consensus
  library and the file system are the record parameter \<open>raft_lib\<close> on the state of the
  cluster; a loop that waits consumes a list of events and is \<open>None\<close> while it waits.
\<close>

section \<open>Definitions\<close>

subsection \<open>Host and port\<close>

definition index_byte :: "char \<Rightarrow> string \<Rightarrow> nat option" where
  "index_byte c s = (if c \<in> set s then Some (length (takeWhile (\<lambda>d. d \<noteq> c) s)) else None)"

definition last_index_byte :: "char \<Rightarrow> string \<Rightarrow> nat option" where
  "last_index_byte c s = map_option (\<lambda>i. length s - 1 - i) (index_byte c (rev s))"

abbreviation addr_error :: "string \<Rightarrow> goerror" where
  "addr_error why \<equiv> LibError why"

definition SplitHostPort :: "string \<Rightarrow> goerror + string \<times> string" where
  "SplitHostPort hostport =
    (case last_index_byte CHR '':'' hostport of
       None \<Rightarrow> Inl (addr_error ''missing port in address'')
     | Some i \<Rightarrow>
        let bracketed = (hostport ! 0 = CHR ''['') in
        case (if bracketed then
                (case index_byte CHR '']'' hostport of
                   None \<Rightarrow> Inl (addr_error ''missing ']' in address'')
                 | Some e \<Rightarrow>
                    if e + 1 = length hostport then Inl (addr_error ''missing port in address'')
                    else if e + 1 = i then Inr (take (e - 1) (drop 1 hostport), 1, e + 1)
                    else if hostport ! (e + 1) = CHR '':'' then Inl (addr_error ''too many colons in address'')
                    else Inl (addr_error ''missing port in address''))
              else if CHR '':'' \<in> set (take i hostport) then Inl (addr_error ''too many colons in address'')
              else Inr (take i hostport, 0, 0)) of
          Inl err \<Rightarrow> Inl err
        | Inr (host, j, k) \<Rightarrow>
            if CHR ''['' \<in> set (drop j hostport) then Inl (addr_error ''unexpected '[' in address'')
            else if CHR '']'' \<in> set (drop k hostport) then Inl (addr_error ''unexpected ']' in address'')
            else Inr (host, drop (i + 1) hostport))"

definition JoinHostPort :: "string \<Rightarrow> string \<Rightarrow> string" where
  "JoinHostPort host port =
    (if CHR '':'' \<in> set host then ''['' @ host @ '']:'' @ port else host @ '':'' @ port)"

definition grpcAdvertiseAddr :: "string \<Rightarrow> string \<Rightarrow> goerror + string" where
  "grpcAdvertiseAddr raftAddr grpcListen =
    (case SplitHostPort raftAddr of
       Inl err \<Rightarrow> Inl (Wrap ''invalid raft address'' err)
     | Inr (host, _) \<Rightarrow>
        (case SplitHostPort grpcListen of
           Inl err \<Rightarrow> Inl (Wrap ''invalid grpc listen address'' err)
         | Inr (_, grpcPort) \<Rightarrow> Inr (JoinHostPort host grpcPort)))"

subsection \<open>Storage and repository\<close>

text \<open>
  \<open>Init\<close>: the engine the type names; any other type leaves the database nil. The two
  opening functions are parameters, the adapters of theories \<open>Pebble\<close> and
  \<open>Bolt\<close> with their engines.
\<close>

definition app_Init :: "(PebbleConfig \<Rightarrow> goerror + 'db) \<Rightarrow> (BoltConfig \<Rightarrow> goerror + 'db) \<Rightarrow> Config \<Rightarrow> goerror + 'db option" where
  "app_Init NewPebble NewBolt cfg =
    (if st_Type (cf_Storage cfg) = ''pebble'' then
       (case NewPebble (st_Pebble (cf_Storage cfg)) of
          Inl err \<Rightarrow> Inl (Wrap ''failed to initialize pebble storage'' err) | Inr s \<Rightarrow> Inr (Some s))
     else if st_Type (cf_Storage cfg) = ''bolt'' then
       (case NewBolt (st_Bolt (cf_Storage cfg)) of
          Inl err \<Rightarrow> Inl (Wrap ''failed to initialize bolt storage'' err) | Inr s \<Rightarrow> Inr (Some s))
     else Inr None)"

definition WithRepositories :: "('st, 'b) DB \<Rightarrow> 'st \<Rightarrow> Config \<Rightarrow> (goerror + EventRepository) go" where
  "WithRepositories D st cfg =
    bind_go (NewEventRepository D st (st_TimeBucketSize (cf_Storage cfg))) (\<lambda>r. case r of
      Inl err \<Rightarrow> Ret (Inl (Wrap ''failed to init event repo'' err))
    | Inr er \<Rightarrow> Ret (Inr er))"

subsection \<open>Starting Raft\<close>

record RaftGroupConfig =
  rc_ReplicaID :: u64
  rc_ShardID :: u64
  rc_ElectionRTT :: u64
  rc_HeartbeatRTT :: u64
  rc_CheckQuorum :: bool
  rc_SnapshotEntries :: u64
  rc_CompactionOverhead :: u64

text \<open>
  \<open>rl_Stat\<close> takes the elements of the path; \<open>rl_meta\<close> is the metadata replica
  the factory has captured.
\<close>

record 'w raft_lib =
  rl_NewNodeHost :: "'w \<Rightarrow> 'w \<times> (goerror + 'w NodeHost)"
  rl_RaftAddress :: "'w \<Rightarrow> string"
  rl_StartReplica :: "'w \<Rightarrow> node_map \<Rightarrow> bool \<Rightarrow> RaftGroupConfig \<Rightarrow> 'w \<times> goerror option"
  rl_StartOnDiskReplica :: "'w \<Rightarrow> node_map \<Rightarrow> bool \<Rightarrow> RaftGroupConfig \<Rightarrow> 'w \<times> goerror option"
  rl_RemoveAll :: "'w \<Rightarrow> string \<Rightarrow> 'w"
  rl_Stat :: "'w \<Rightarrow> string list \<Rightarrow> bool"
  rl_meta :: "'w \<Rightarrow> MetadataStateMachine"

definition ErrShardNotBootstrapped :: goerror where
  "ErrShardNotBootstrapped = LibError ''shard not bootstrapped''"

definition hasRaftData :: "'w raft_lib \<Rightarrow> Config \<Rightarrow> 'w \<Rightarrow> bool" where
  "hasRaftData l cfg w = rl_Stat l w [rf_DataPath (cf_Raft cfg), ''logdb-0'', ''MANIFEST-000001'']"

definition initial_members :: "'w raft_lib \<Rightarrow> (node_map \<Rightarrow> node_map) \<Rightarrow> Config \<Rightarrow> 'w \<Rightarrow> bool \<Rightarrow> node_map" where
  "initial_members l morder cfg w join =
    (if \<not> join \<and> \<not> hasRaftData l cfg w then copy_map [] (morder (rf_InitialMembers (cf_Raft cfg))) else [])"

definition metadataRC :: "Config \<Rightarrow> RaftGroupConfig" where
  "metadataRC cfg = \<lparr>rc_ReplicaID = rf_NodeID (cf_Raft cfg), rc_ShardID = MetadataShardID, rc_ElectionRTT = 10, rc_HeartbeatRTT = 1,
     rc_CheckQuorum = True, rc_SnapshotEntries = 5, rc_CompactionOverhead = 5\<rparr>"

definition eventRC :: "Config \<Rightarrow> RaftGroupConfig" where
  "eventRC cfg = \<lparr>rc_ReplicaID = rf_NodeID (cf_Raft cfg), rc_ShardID = rf_ClusterID (cf_Raft cfg), rc_ElectionRTT = 10, rc_HeartbeatRTT = 1,
     rc_CheckQuorum = True, rc_SnapshotEntries = rf_SnapshotEntries (cf_Raft cfg), rc_CompactionOverhead = rf_CompactionOverhead (cf_Raft cfg)\<rparr>"

text \<open>What a failed start of a group does to the data directory.\<close>

definition wipe_unbootstrapped :: "'w raft_lib \<Rightarrow> Config \<Rightarrow> 'w \<Rightarrow> goerror \<Rightarrow> 'w" where
  "wipe_unbootstrapped l cfg w err =
    (if errors_Is err ErrShardNotBootstrapped then rl_RemoveAll l w (rf_DataPath (cf_Raft cfg)) else w)"

text \<open>The registration loop; an event says whether the context ends before the next attempt.\<close>

fun register_loop :: "'w Service \<Rightarrow> 'w \<Rightarrow> u64 \<Rightarrow> string \<Rightarrow> bool list \<Rightarrow> (('w \<times> goerror option) go) option" where
  "register_loop svc w nodeID addr evs =
    (case RegisterNodeAddr svc w nodeID addr of
       Panic m \<Rightarrow> Some (Panic m)
     | Ret (w1, None) \<Rightarrow> Some (Ret (w1, None))
     | Ret (w1, Some err) \<Rightarrow>
        (case evs of
           [] \<Rightarrow> None
         | ctxDone # evs' \<Rightarrow>
            if ctxDone then Some (Ret (w1, Some (Wrap ''failed to register gRPC address'' err)))
            else register_loop svc w1 nodeID addr evs'))"

definition StartRaft :: "'w raft_lib \<Rightarrow> (node_map \<Rightarrow> node_map) \<Rightarrow> (nat \<Rightarrow> node_map \<Rightarrow> node_map) \<Rightarrow> (node_map \<Rightarrow> node_map) \<Rightarrow> (node_map \<Rightarrow> node_map)
    \<Rightarrow> Config \<Rightarrow> bool list \<Rightarrow> 'w \<Rightarrow> bool \<Rightarrow> (('w Service option \<times> 'w \<times> goerror option) go) option" where
  "StartRaft l morder order aorder gorder cfg evs w join =
    (case rl_NewNodeHost l w of
       (w1, Inl err) \<Rightarrow> Some (Ret (None, w1, Some (Wrap ''failed to create dragonboat nodehost'' err)))
     | (w1, Inr nh) \<Rightarrow>
        (let svc1 = SetNodeHost (NewService None (\<lambda>w cmd. nh_SyncPropose nh w MetadataShardID cmd)) nh;
             members = initial_members l morder cfg w1 join
         in case rl_StartReplica l w1 members join (metadataRC cfg) of
              (w2, Some err) \<Rightarrow> Some (Ret (Some svc1, wipe_unbootstrapped l cfg w2 err, Some (Wrap ''failed to start metadata raft group'' err)))
            | (w2, None) \<Rightarrow>
               (let svc2 = SetGrpcAddrsSource svc1 (\<lambda>w. GetGrpcAddrs gorder (rl_meta l w))
                in case rl_StartOnDiskReplica l w2 members join (eventRC cfg) of
                     (w3, Some err) \<Rightarrow> Some (Ret (Some svc2, wipe_unbootstrapped l cfg w3 err, Some (Wrap ''failed to start event raft group'' err)))
                   | (w3, None) \<Rightarrow>
                      (case grpcAdvertiseAddr (rl_RaftAddress l w3) (sv_Listen (cf_Server cfg)) of
                         Inl err \<Rightarrow> Some (Ret (Some svc2, w3, Some (Wrap ''failed to compute gRPC advertise address'' err)))
                       | Inr grpcAdvertise \<Rightarrow>
                          map_option (\<lambda>g. bind_go g (\<lambda>(w4, e). case e of
                              Some err \<Rightarrow> Ret (Some svc2, w4, Some err)
                            | None \<Rightarrow> bind_go (RegisterShard order aorder svc2 w4 (rf_ClusterID (cf_Raft cfg))) (\<lambda>(svc3, w5). Ret (Some svc3, w5, None))))
                            (register_loop svc2 w3 (rf_NodeID (cf_Raft cfg)) grpcAdvertise evs)))))"

subsection \<open>Joining and leaving\<close>

text \<open>
  The RPC to a seed: connecting can fail, the call can fail, or there is a response. The loop
  returns the seed that accepted, or \<open>None\<close> for the fatal exit.
\<close>

datatype rpc_result = ConnectErr goerror | CallErr goerror | Response MemberResponse

definition join_request :: "Config \<Rightarrow> JoinRequest" where
  "join_request cfg = \<lparr>jr_NodeId = rf_NodeID (cf_Raft cfg), jr_RaftAddress = rf_ListenAddress (cf_Raft cfg), jr_GrpcAddress = sv_Listen (cf_Server cfg)\<rparr>"

fun joinCluster :: "('w \<Rightarrow> string \<Rightarrow> JoinRequest \<Rightarrow> 'w \<times> rpc_result) \<Rightarrow> Config \<Rightarrow> 'w \<Rightarrow> string list \<Rightarrow> 'w \<times> string option" where
  "joinCluster call cfg w [] = (w, None)"
| "joinCluster call cfg w (seed # seeds) =
    (case call w seed (join_request cfg) of
       (w1, ConnectErr err) \<Rightarrow> joinCluster call cfg w1 seeds
     | (w1, CallErr err) \<Rightarrow> joinCluster call cfg w1 seeds
     | (w1, Response resp) \<Rightarrow> if \<not> mr_Success resp then joinCluster call cfg w1 seeds else (w1, Some seed))"

text \<open>The decision of \<open>startRun\<close>: whether the node joins, with the cluster after it; \<open>None\<close> is the fatal exit.\<close>

definition start_joining :: "'w raft_lib \<Rightarrow> ('w \<Rightarrow> string \<Rightarrow> JoinRequest \<Rightarrow> 'w \<times> rpc_result) \<Rightarrow> Config \<Rightarrow> string list \<Rightarrow> 'w \<Rightarrow> ('w \<times> bool) option" where
  "start_joining l call cfg joinSeeds w =
    (if rf_Enabled (cf_Raft cfg) \<and> length joinSeeds > 0 then
       (if hasRaftData l cfg w then Some (w, False)
        else case joinCluster call cfg w joinSeeds of (w1, None) \<Rightarrow> None | (w1, Some seed) \<Rightarrow> Some (w1, True))
     else Some (w, False))"

text \<open>The components \<open>startRun\<close> builds: hub, deleter and dispatcher, and its callback.\<close>

definition start_hub :: "(nat \<Rightarrow> QueueMessage list \<times> nat) \<Rightarrow> RoundRobinStrategy Hub" where
  "start_hub chans = NewHub NewRoundRobinStrategy chans"

definition start_dispatcher :: "Config \<Rightarrow> Dispatcher" where
  "start_dispatcher cfg = NewDispatcher (duration_of_ms (cc_DispatchPollIntervalMs (cf_Consumer cfg))) (duration_of_ms (cc_InFlightTimeoutMs (cf_Consumer cfg)))"

definition start_OnDelete :: "(bytes \<Rightarrow> Dispatcher \<Rightarrow> Dispatcher) option" where
  "start_OnDelete = Some RemoveInFlight"

definition start_tickers :: "Config \<Rightarrow> unit go" where
  "start_tickers cfg =
    bind_go (NewTicker (duration_of_ms (cc_DeleteBatchIntervalMs (cf_Consumer cfg)))) (\<lambda>_.
      NewTicker (duration_of_ms (cc_TTLJanitorIntervalMs (cf_Consumer cfg))))"

subsection \<open>Specification\<close>

text \<open>Hosts (names, IPv4 and IPv6 addresses) and ports without brackets.\<close>

definition plain_host :: "string \<Rightarrow> bool" where
  "plain_host host \<longleftrightarrow> CHR ''['' \<notin> set host \<and> CHR '']'' \<notin> set host"

definition plain_port :: "string \<Rightarrow> bool" where
  "plain_port port \<longleftrightarrow> CHR ''['' \<notin> set port \<and> CHR '']'' \<notin> set port \<and> CHR '':'' \<notin> set port"

text \<open>The node host a library creates proposes to the metadata group as the contract says.\<close>

definition announces :: "'w raft_lib \<Rightarrow> bool" where
  "announces l \<longleftrightarrow> (\<forall>w w1 nh. rl_NewNodeHost l w = (w1, Inr nh) \<longrightarrow> meta_proposes (rl_meta l) (\<lambda>w cmd. nh_SyncPropose nh w MetadataShardID cmd))"

text \<open>Seeds that serve \<open>JoinCluster\<close> on the cluster, undisturbed.\<close>

definition seeds_serve :: "('w \<Rightarrow> u64 \<Rightarrow> Membership) \<Rightarrow> 'w NodeHost \<Rightarrow> Config \<Rightarrow> ('w \<Rightarrow> string \<Rightarrow> JoinRequest \<Rightarrow> 'w \<times> rpc_result) \<Rightarrow> bool" where
  "seeds_serve members nh cfg call \<longleftrightarrow>
    (\<forall>w seed req w' resp. call w seed req = (w', Response resp) \<longrightarrow>
      (\<exists>evs1 evs2. undisturbed members evs1 \<and> undisturbed members evs2 \<and>
        JoinCluster (Some nh) (rf_ClusterID (cf_Raft cfg)) evs1 evs2 w req = Some (w', Inr resp)))"

definition mem_raft_lib :: "MemCluster raft_lib" where
  "mem_raft_lib = \<lparr>rl_NewNodeHost = (\<lambda>w. (w, Inr mem_nodehost)), rl_RaftAddress = (\<lambda>w. ''[fd00::1]:50005''),
     rl_StartReplica = (\<lambda>w m j rc. (w, None)), rl_StartOnDiskReplica = (\<lambda>w m j rc. (w, None)),
     rl_RemoveAll = (\<lambda>w path. w), rl_Stat = (\<lambda>w path. False), rl_meta = mc_meta\<rparr>"

text \<open>A dead seed and a live one.\<close>

definition mem_call :: "MemCluster \<Rightarrow> string \<Rightarrow> JoinRequest \<Rightarrow> MemCluster \<times> rpc_result" where
  "mem_call w seed req =
    (if seed = ''live'' then (case JoinCluster (Some mem_nodehost) 1 [WTick id] [WTick id] w req of
       Some (w', Inr resp) \<Rightarrow> (w', Response resp) | _ \<Rightarrow> (w, CallErr ContextDeadlineExceeded))
     else (w, ConnectErr (LibError ''unavailable'')))"

section \<open>Lemmas\<close>

lemma last_index_byte_append: "c \<notin> set p \<Longrightarrow> last_index_byte c (x @ c # p) = Some (length x)"
proof -
  assume c: "c \<notin> set p"
  then have "takeWhile (\<lambda>d. d \<noteq> c) (rev p @ c # rev x) = rev p"
    by (metis (mono_tags, lifting) append_Nil2 set_rev takeWhile.simps(2) takeWhile_append2)
  then show ?thesis by (simp add: last_index_byte_def index_byte_def)
qed

lemma index_byte_append: "c \<notin> set x \<Longrightarrow> index_byte c (x @ c # p) = Some (length x)"
proof -
  assume c: "c \<notin> set x"
  then have "takeWhile (\<lambda>d. d \<noteq> c) (x @ c # p) = x"
    by (metis (mono_tags, lifting) append_Nil2 takeWhile.simps(2) takeWhile_append2)
  then show ?thesis by (simp add: index_byte_def)
qed

lemma SplitHostPort_JoinHostPort:
  assumes "plain_host host" and "plain_port port"
  shows "SplitHostPort (JoinHostPort host port) = Inr (host, port)"
proof (cases "CHR '':'' \<in> set host")
  case True
  let ?s = "CHR ''['' # host @ CHR '']'' # CHR '':'' # port"
  have "last_index_byte CHR '':'' ?s = Some (length host + 2)"
    using last_index_byte_append[of "CHR '':''" port "CHR ''['' # host @ [CHR '']'']"] assms(2) by (simp add: plain_port_def)
  moreover have "index_byte CHR '']'' ?s = Some (length host + 1)"
    using index_byte_append[of "CHR '']''" "CHR ''['' # host" "CHR '':'' # port"] assms(1) by (simp add: plain_host_def)
  ultimately show ?thesis
    using True assms by (simp add: SplitHostPort_def JoinHostPort_def plain_host_def plain_port_def Let_def)
next
  case False
  have "last_index_byte CHR '':'' (host @ CHR '':'' # port) = Some (length host)"
    using last_index_byte_append[of "CHR '':''" port host] assms(2) by (simp add: plain_port_def)
  moreover have "(host @ CHR '':'' # port) ! 0 \<noteq> CHR ''[''"
    using assms(1) by (cases host) (auto simp: plain_host_def)
  ultimately show ?thesis
    using False assms by (simp add: SplitHostPort_def JoinHostPort_def plain_host_def plain_port_def Let_def)
qed

lemma RegisterNodeAddr_eq: "RegisterNodeAddr s w nodeID addr = Ret (svc_propose s w (wire_register nodeID addr))"
  using MarshalRegisterNodeAddrCmd_wire[of nodeID addr] by (simp add: RegisterNodeAddr_def)

text \<open>An applied registration is in the registry; a topology does not touch the registry.\<close>

lemma Update_register:
  "length addr < 65536 \<Longrightarrow> ms_grpcAddrs (fst (MetadataSM_Update s (wire_register nodeID addr))) = AList.update nodeID addr (ms_grpcAddrs s)"
  using UnmarshalRegisterNodeAddrCmd_wire[of addr nodeID "[]"]
  by (simp add: MetadataSM_Update_def wire_register_def RegisterNodeAddrCmd_def UpdateTopologyCmd_def)

lemma Update_topology_addrs: "ms_grpcAddrs (fst (MetadataSM_Update s (wire_topology t))) = ms_grpcAddrs s"
  by (simp add: MetadataSM_Update_def wire_topology_def split: sum.split)

lemma publishTopology_registry:
  assumes "meta_proposes meta (svc_propose s)" and "\<forall>n. range_order (order n)"
    and "publishTopology order aorder s w shardID = Ret (s', w')"
  shows "ms_grpcAddrs (meta w') = ms_grpcAddrs (meta w)"
proof -
  have "w' = w \<or> (\<exists>t. w' = fst (svc_propose s w (wire_topology (reorder order t))))"
    using assms(2,3) MarshalUpdateTopologyCmd_wire[of order]
    by (auto simp: publishTopology_def Let_def split: option.splits sum.splits prod.splits) (metis fst_conv)+
  then consider "w' = w" | t where "w' = fst (svc_propose s w (wire_topology (reorder order t)))" by blast
  then show ?thesis
  proof cases
    case 2
    obtain w1 e where "svc_propose s w (wire_topology (reorder order t)) = (w1, e)" by fastforce
    with assms(1) 2 Update_topology_addrs show ?thesis unfolding meta_proposes_def by (metis fst_conv)
  qed simp
qed

lemma publishTopology_returns:
  assumes "\<forall>n. range_order (order n)" and "svc_nh s = Some nh"
  shows "\<exists>s' w'. publishTopology order aorder s w shardID = Ret (s', w')"
  using assms MarshalUpdateTopologyCmd_wire[of order] by (auto simp: publishTopology_def Let_def split: sum.split prod.split)

lemma joinCluster_success:
  "joinCluster call cfg w seeds = (w', Some seed) \<Longrightarrow>
    \<exists>w0 resp. call w0 seed (join_request cfg) = (w', Response resp) \<and> mr_Success resp"
  by (induction call cfg w seeds rule: joinCluster.induct) (auto split: prod.splits rpc_result.splits if_splits)

declare register_loop.simps [simp del]

lemma register_attempt:
  assumes "meta_proposes meta (svc_propose s)" and "length addr < 65536" and "svc_propose s w (wire_register nodeID addr) = (w', None)"
  shows "map_of (ms_grpcAddrs (meta w')) nodeID = Some addr"
  using assms Update_register[OF assms(2)] unfolding meta_proposes_def by (metis fun_upd_same update_conv option.distinct(1))

lemma register_loop_success:
  assumes "meta_proposes meta (svc_propose s)" and "length addr < 65536" and "register_loop s w nodeID addr evs = Some (Ret (w', None))"
  shows "map_of (ms_grpcAddrs (meta w')) nodeID = Some addr"
  using assms(3)
proof (induction evs arbitrary: w)
  case Nil
  then show ?case using register_attempt[OF assms(1,2)] register_loop.simps[of s w nodeID addr "[]"]
    by (auto simp: RegisterNodeAddr_eq split: option.splits prod.splits)
next
  case (Cons ev evs)
  then show ?case using register_attempt[OF assms(1,2)] register_loop.simps[of s w nodeID addr "ev # evs"]
    by (auto simp: RegisterNodeAddr_eq split: option.splits prod.splits if_splits)
qed

section \<open>Properties\<close>

text \<open>Reading an address back: what \<open>JoinHostPort\<close> builds, \<open>SplitHostPort\<close> takes
  apart again, for names, IPv4 and IPv6 hosts alike; so the advertised client address has the
  host of the Raft address and the port of the listen address, whatever the other parts are.\<close>

theorem advertised_address:
  assumes "plain_host host" and "plain_port port" and "plain_host host'" and "plain_port port'"
  shows "\<exists>addr. grpcAdvertiseAddr (JoinHostPort host port) (JoinHostPort host' port') = Inr addr \<and> SplitHostPort addr = Inr (host, port')"
  using assms by (simp add: grpcAdvertiseAddr_def SplitHostPort_JoinHostPort)

theorem advertised_address_witness:
  "\<exists>addr. grpcAdvertiseAddr (JoinHostPort ''fd00::1'' ''50005'') (JoinHostPort ''0.0.0.0'' ''8443'') = Inr addr \<and>
    SplitHostPort addr = Inr (''fd00::1'', ''8443'')"
  by (rule advertised_address) (simp_all add: plain_host_def plain_port_def)

text \<open>C26: a node that has started Raft is announced: both groups were started with the same
  members and join flag, the initial members only on a node that neither joins nor has local
  data; and the metadata replica has the node's client address in its registry, the host of
  its Raft address with the port it serves clients on.\<close>

theorem start_raft_announces:
  assumes lib: "announces l" and ord: "\<forall>n. range_order (order n)" "range_order morder"
    and mem: "distinct (map fst (rf_InitialMembers (cf_Raft cfg)))"
    and len: "\<forall>w addr. grpcAdvertiseAddr (rl_RaftAddress l w) (sv_Listen (cf_Server cfg)) = Inr addr \<longrightarrow> length addr < 65536"
    and start: "StartRaft l morder order aorder gorder cfg evs w join = Some (Ret (svc, w', None))"
  shows "\<exists>w1 nh m w2 w3 addr. rl_NewNodeHost l w = (w1, Inr nh) \<and>
    rl_StartReplica l w1 m join (metadataRC cfg) = (w2, None) \<and> rl_StartOnDiskReplica l w2 m join (eventRC cfg) = (w3, None) \<and>
    map_of m = (if join \<or> hasRaftData l cfg w1 then Map.empty else map_of (rf_InitialMembers (cf_Raft cfg))) \<and>
    grpcAdvertiseAddr (rl_RaftAddress l w3) (sv_Listen (cf_Server cfg)) = Inr addr \<and>
    map_of (ms_grpcAddrs (rl_meta l w')) (rf_NodeID (cf_Raft cfg)) = Some addr"
proof -
  obtain w1 nh where nh: "rl_NewNodeHost l w = (w1, Inr nh)"
    using start by (auto simp: StartRaft_def split: prod.splits sum.splits)
  define m where "m = initial_members l morder cfg w1 join"
  define svc1 where "svc1 = SetNodeHost (NewService None (\<lambda>w cmd. nh_SyncPropose nh w MetadataShardID cmd)) nh"
  define svc2 where "svc2 = SetGrpcAddrsSource svc1 (\<lambda>w. GetGrpcAddrs gorder (rl_meta l w))"
  obtain w2 where w2: "rl_StartReplica l w1 m join (metadataRC cfg) = (w2, None)"
    using start by (auto simp: StartRaft_def nh Let_def m_def split: prod.splits option.splits)
  obtain w3 where w3: "rl_StartOnDiskReplica l w2 m join (eventRC cfg) = (w3, None)"
    using start w2 by (auto simp: StartRaft_def nh Let_def m_def split: prod.splits option.splits)
  obtain addr where addr: "grpcAdvertiseAddr (rl_RaftAddress l w3) (sv_Listen (cf_Server cfg)) = Inr addr"
    using start w2 w3 by (auto simp: StartRaft_def nh Let_def m_def split: sum.splits)
  obtain w4 where w4: "register_loop svc2 w3 (rf_NodeID (cf_Raft cfg)) addr evs = Some (Ret (w4, None))"
    and w5: "\<exists>svc3. RegisterShard order aorder svc2 w4 (rf_ClusterID (cf_Raft cfg)) = Ret (svc3, w')"
    using start w2 w3 addr
    by (auto simp: StartRaft_def nh Let_def m_def svc1_def svc2_def bind_go_eq_Ret split: option.splits)
  have pr: "meta_proposes (rl_meta l) (svc_propose svc2)" "svc_propose (track_shard svc2 i) = svc_propose svc2" for i
    using lib nh by (auto simp: announces_def svc2_def svc1_def SetGrpcAddrsSource_def SetNodeHost_def NewService_def track_shard_def)
  have "map_of (ms_grpcAddrs (rl_meta l w4)) (rf_NodeID (cf_Raft cfg)) = Some addr"
    using register_loop_success[OF pr(1) _ w4] len addr by blast
  moreover from w5 have "ms_grpcAddrs (rl_meta l w') = ms_grpcAddrs (rl_meta l w4)"
    using publishTopology_registry[of "rl_meta l" "track_shard svc2 (rf_ClusterID (cf_Raft cfg))" order] pr ord(1)
    by (auto simp: RegisterShard_def)
  moreover have "map_of m = (if join \<or> hasRaftData l cfg w1 then Map.empty else map_of (rf_InitialMembers (cf_Raft cfg)))"
    using ord(2) mem by (auto simp: m_def initial_members_def copy_map_order range_order_map_of)
  ultimately show ?thesis
    by (intro exI[of _ w1] exI[of _ nh] exI[of _ m] exI[of _ w2] exI[of _ w3] exI[of _ addr] conjI nh w2 w3 addr) simp_all
qed

theorem start_raft_announces_witness:
  "\<exists>svc w'. StartRaft mem_raft_lib id (\<lambda>_. id) id id defaultConfig [] sample_cluster False = Some (Ret (svc, w', None)) \<and>
    map_of (ms_grpcAddrs (mc_meta w')) 1 = Some ''[fd00::1]:8443''"
proof -
  have adv: "grpcAdvertiseAddr ''[fd00::1]:50005'' ''0.0.0.0:8443'' = Inr ''[fd00::1]:8443''" by code_simp
  let ?svc = "SetGrpcAddrsSource (SetNodeHost (NewService None (\<lambda>w cmd. nh_SyncPropose mem_nodehost w MetadataShardID cmd)) mem_nodehost)
      (\<lambda>w. GetGrpcAddrs id (mc_meta w))"
  let ?w4 = "fst (mem_SyncPropose sample_cluster MetadataShardID (wire_register 1 ''[fd00::1]:8443''))"
  have r: "register_loop ?svc sample_cluster 1 ''[fd00::1]:8443'' [] = Some (Ret (?w4, None))"
    using register_loop.simps[of ?svc sample_cluster 1 "''[fd00::1]:8443''" "[]"]
    by (simp add: RegisterNodeAddr_eq SetGrpcAddrsSource_def SetNodeHost_def NewService_def mem_nodehost_def mem_SyncPropose_def)
  have ord: "\<forall>n :: nat. range_order ((\<lambda>_. id :: node_map \<Rightarrow> node_map) n)" "range_order (id :: node_map \<Rightarrow> node_map)" by (simp_all add: id_order)
  obtain s' w' where "RegisterShard (\<lambda>_. id) id ?svc ?w4 1 = Ret (s', w')"
    using publishTopology_returns[OF ord(1), of "track_shard ?svc 1" mem_nodehost id ?w4 1]
    by (auto simp: RegisterShard_def track_shard_def SetGrpcAddrsSource_def SetNodeHost_def)
  then have start: "StartRaft mem_raft_lib id (\<lambda>_. id) id id defaultConfig [] sample_cluster False = Some (Ret (Some s', w', None))"
    using r adv by (simp add: StartRaft_def mem_raft_lib_def defaultConfig_def Let_def)
  have "announces mem_raft_lib"
    using mem_meta_proposes by (simp add: announces_def mem_raft_lib_def mem_nodehost_def)
  from start_raft_announces[OF this ord _ _ start] adv have "map_of (ms_grpcAddrs (mc_meta w')) 1 = Some ''[fd00::1]:8443''"
    by (auto simp: mem_raft_lib_def defaultConfig_def)
  with start show ?thesis by blast
qed



end
