(* ===== verification/Janitor.thy ===== *)
theory Janitor
  imports Deleter Messages Keys
begin

text \<open>
  The janitor for expired messages, \<open>src/internal/dispatcher/janitor.go\<close>: a full scan
  that marks every expired message for deletion. It only reads the store; its effect is on
  the deleter.
\<close>

section \<open>Definitions\<close>

definition sweep_yield :: "'idx proto_lib \<Rightarrow> i64 \<Rightarrow> bytes list \<Rightarrow> bytes \<Rightarrow> bytes \<Rightarrow> bytes list \<times> goerror option" where
  "sweep_yield pl nowMs expiredKeys key val =
    (case ParseEventKey key of
       Inl err \<Rightarrow> (expiredKeys, None)
     | Inr _ \<Rightarrow>
        (case proto_Unmarshal pl val of
           Inl err \<Rightarrow> (expiredKeys, None)
         | Inr msg \<Rightarrow>
            if sint (sm_TtlMs msg) \<le> 0 then (expiredKeys, None)
            else if sint nowMs \<ge> sint (sm_EnqueuedAtUnixMs msg + sm_TtlMs msg) then (expiredKeys @ [key], None)
            else (expiredKeys, None)))"

definition TTLJanitor_sweep :: "('st, 'b) DB \<Rightarrow> 'idx proto_lib \<Rightarrow> i64 \<Rightarrow> 'st \<Rightarrow> Deleter \<Rightarrow> Deleter" where
  "TTLJanitor_sweep D pl nowMs st d =
    (case DB_Scan D st None (sweep_yield pl nowMs) [] of
       (expiredKeys, Some err) \<Rightarrow> d
     | (expiredKeys, None) \<Rightarrow>
        if length expiredKeys = 0 then d else foldl MarkDeleted d expiredKeys)"

text \<open>Each tick of the timer finds a time and a state of the store.\<close>

datatype 'st janitor_event = JanitorDone | JanitorTick i64 'st

fun TTLJanitor_Run :: "('st, 'b) DB \<Rightarrow> 'idx proto_lib \<Rightarrow> 'st janitor_event list \<Rightarrow> Deleter \<Rightarrow> Deleter" where
  "TTLJanitor_Run D pl [] d = d"
| "TTLJanitor_Run D pl (JanitorDone # evs) d = d"
| "TTLJanitor_Run D pl (JanitorTick nowMs st # evs) d = TTLJanitor_Run D pl evs (TTLJanitor_sweep D pl nowMs st d)"

subsection \<open>Specification\<close>

definition expired_entry :: "'idx proto_lib \<Rightarrow> i64 \<Rightarrow> bytes \<Rightarrow> bytes \<Rightarrow> bool" where
  "expired_entry pl nowMs key val \<longleftrightarrow> length key = 24 \<and>
    (case proto_Unmarshal pl val of Inl err \<Rightarrow> False
     | Inr msg \<Rightarrow> 0 < sint (sm_TtlMs msg) \<and> sint (sm_EnqueuedAtUnixMs msg + sm_TtlMs msg) \<le> sint nowMs)"

definition expired_set :: "'idx proto_lib \<Rightarrow> i64 \<Rightarrow> store \<Rightarrow> bytes set" where
  "expired_set pl nowMs m = {k. \<exists>v. m k = Some v \<and> expired_entry pl nowMs k v}"

section \<open>Lemmas\<close>

lemma sweep_yield_eq:
  "sweep_yield pl nowMs acc k v = (if expired_entry pl nowMs k v then acc @ [k] else acc, None)"
  by (auto simp: sweep_yield_def expired_entry_def ParseEventKey_def split: sum.split)

lemma sweep_loop:
  "scan_loop (sweep_yield pl nowMs) acc kvs = (acc @ map fst (filter (\<lambda>(k, v). expired_entry pl nowMs k v) kvs), None)"
  by (induction kvs arbitrary: acc) (auto simp: sweep_yield_eq)

lemma expired_entry_iff:
  "expired_entry pl nowMs k v \<longleftrightarrow> (\<exists>h b i msg. ParseEventKey k = Inr (h, b, i) \<and> proto_Unmarshal pl v = Inr msg \<and>
    0 < sint (sm_TtlMs msg) \<and> sint (sm_EnqueuedAtUnixMs msg + sm_TtlMs msg) \<le> sint nowMs)"
  by (cases "proto_Unmarshal pl v") (auto simp: expired_entry_def ParseEventKey_def)

context storage_db
begin

lemma sweep_marks:
  assumes G: "good st"
  shows "\<exists>keys. dl_pending (TTLJanitor_sweep D pl nowMs st d) = dl_pending d @ keys \<and>
    sorted_wrt (<) keys \<and> set keys = expired_set pl nowMs (view st)"
proof -
  obtain kvs where kvs: "lists_store kvs (range_view None (view st))"
      and scan: "\<And>yield (s :: bytes list). DB_Scan D st None yield s = scan_loop yield s kvs"
    by (rule Scan_spec[OF G, of None, where 's = "bytes list"]) (rule that; assumption)
  let ?exp = "filter (\<lambda>(k, v). expired_entry pl nowMs k v) kvs"
  have "dl_pending (TTLJanitor_sweep D pl nowMs st d) = dl_pending d @ map fst ?exp"
    by (simp add: TTLJanitor_sweep_def scan sweep_loop pending_marks)
  moreover have "sorted_wrt (<) (map fst ?exp)"
    using kvs sorted_entries_filter[of kvs] by (simp add: lists_store_def sorted_entries_def)
  moreover have "set (map fst ?exp) = expired_set pl nowMs (view st)"
    using lists_store_set[OF kvs] by (force simp: expired_set_def)
  ultimately show ?thesis by blast
qed

end

section \<open>Properties\<close>

text \<open>A sweep marks exactly the expired messages: the 24-byte keys whose value is a readable
  message with a positive time to live that has elapsed, each once and in key order; keys of
  other kinds and unreadable values are left alone.\<close>

theorem sweep_marks_exactly_expired:
  assumes "storage_db D view pending good notfound" and "good st"
  shows "\<exists>keys. dl_pending (TTLJanitor_sweep D pl nowMs st d) = dl_pending d @ keys \<and> sorted_wrt (<) keys \<and>
    (\<forall>k. k \<in> set keys \<longleftrightarrow> (\<exists>h b i v msg. ParseEventKey k = Inr (h, b, i) \<and> view st k = Some v \<and>
      proto_Unmarshal pl v = Inr msg \<and> 0 < sint (sm_TtlMs msg) \<and>
      sint (sm_EnqueuedAtUnixMs msg + sm_TtlMs msg) \<le> sint nowMs))"
proof -
  have "k \<in> expired_set pl nowMs (view st) \<longleftrightarrow> (\<exists>h b i v msg. ParseEventKey k = Inr (h, b, i) \<and> view st k = Some v \<and>
      proto_Unmarshal pl v = Inr msg \<and> 0 < sint (sm_TtlMs msg) \<and>
      sint (sm_EnqueuedAtUnixMs msg + sm_TtlMs msg) \<le> sint nowMs)" for k
    by (auto simp: expired_set_def expired_entry_iff)
  then show ?thesis using storage_db.sweep_marks[OF assms, of pl nowMs d] by metis
qed

theorem sweep_marks_exactly_expired_witness:
  "\<exists>keys. dl_pending (TTLJanitor_sweep (pebble_DB mem_pebble) mem_proto 5 [([1], [2])] NewDeleter) = keys \<and> [1] \<notin> set keys"
proof -
  have "sorted_entries [([1], [2])]" by (simp add: sorted_entries_def)
  from sweep_marks_exactly_expired[OF memp.storage_db_axioms this, of mem_proto 5 NewDeleter] show ?thesis
    by (auto simp: NewDeleter_def ParseEventKey_def)
qed

text \<open>Expired messages disappear and nothing else does: a sweep followed by a flush whose
  backend call succeeds leaves exactly the content without the expired messages and the keys
  that were already pending.\<close>

theorem sweep_and_flush_clean:
  assumes "storage_db D view pending good notfound" and "good st"
    and "length (dl_pending (TTLJanitor_sweep D pl nowMs st d)) < 2 ^ 43"
    and "Deleter_flush (direct_DeleteKeys D) (Some OnDelete) [] (TTLJanitor_sweep D pl nowMs st d) st x = Ret (d', st', x')"
    and "dl_pending d' = []"
  shows "good st' \<and> view st' = view st |` (- (expired_set pl nowMs (view st) \<union> set (dl_pending d)))"
proof -
  let ?d = "TTLJanitor_sweep D pl nowMs st d"
  note B = storage_db.direct_backend[OF assms(1)]
  have pend: "set (dl_pending ?d) = set (dl_pending d) \<union> expired_set pl nowMs (view st)"
    using storage_db.sweep_marks[OF assms(1,2), of pl nowMs d] by auto
  show ?thesis
  proof (cases "dl_pending ?d = []")
    case True
    then show ?thesis using assms(2,4) pend by (auto simp: Deleter_flush_def restrict_map_def)
  next
    case False
    obtain w e where w: "direct_DeleteKeys D st (dl_pending ?d) = Ret (w, e)"
      using delete_backend.returns[OF B assms(2,3)] by blast
    with False assms(4,5) have "e = None" "w = st'"
      by (auto simp: Deleter_flush_def Let_def pending_marks split: option.splits)
    with delete_backend.success[OF B assms(2,3)] w show ?thesis by (simp add: pend Un_commute)
  qed
qed

theorem sweep_and_flush_clean_witness:
  "\<exists>d' st' x'. Deleter_flush (direct_DeleteKeys (pebble_DB mem_pebble)) (Some (#)) []
      (TTLJanitor_sweep (pebble_DB mem_pebble) mem_proto 5 [([1], [2])] \<lparr>dl_pending = [[1]]\<rparr>) [([1], [2])] [] = Ret (d', st', x') \<and>
    map_of st' [1] = None"
proof -
  let ?d = "TTLJanitor_sweep (pebble_DB mem_pebble) mem_proto 5 [([1], [2])] \<lparr>dl_pending = [[1]]\<rparr>"
  have G: "sorted_entries [([1], [2])]" by (simp add: sorted_entries_def)
  have d: "?d = \<lparr>dl_pending = [[1]]\<rparr>"
    by (simp add: TTLJanitor_sweep_def DB_Scan_def pebble_DB_def Pebble_Scan_def pebble_iter_def mem_pebble_def kv_range_def
        in_bounds_def sweep_yield_eq expired_entry_def)
  obtain st' where st': "direct_DeleteKeys (pebble_DB mem_pebble) [([1], [2])] [[1]] = Ret (st', None)"
    using mem_commits by (simp add: direct_DeleteKeys_def) (metis prod.collapse)
  then have "Deleter_flush (direct_DeleteKeys (pebble_DB mem_pebble)) (Some (#)) [] ?d [([1], [2])] [] =
      Ret (\<lparr>dl_pending = []\<rparr>, st', [[1]])"
    by (simp add: d Deleter_flush_def)
  from this sweep_and_flush_clean[OF memp.storage_db_axioms G _ this] show ?thesis by (auto simp: d restrict_map_def)
qed

end
