(* ===== verification/Broker.thy ===== *)
theory Broker
  imports Lifecycle Janitor
begin

text \<open>
  A standalone broker, as \<open>src/cmd/futureq/start.go\<close> wires it: publishers, consumer
  connections, the dispatcher, the deleter, the janitor and restarts of the process act on one
  store, one repository, one hub and one deleter. The step relation interleaves them in any
  order, each call of a handler and each turn of a background loop as one step. Publishers
  take turns: batches that overlap in time may break the counter of the repository.

  The lemmas give the effect of a step on the store, the deleter and the channels, and the
  invariant of every run.
\<close>

section \<open>Definitions\<close>

record 'st Broker =
  bk_repo :: EventRepository
  bk_db :: 'st
  bk_pass :: "RoundRobinStrategy Pass"

datatype 'idx broker_act =
    Publish "'idx PublishBatch" i64
  | DispatchPass i64
  | JanitorSweep i64
  | Connect string nat SubscribeInit
  | Receive string "ConsumerFrame recv"
  | Deliver nat "goerror option"
  | Disconnect string
  | DeleterFlush
  | Restart Config "nat \<Rightarrow> QueueMessage list \<times> nat"

text \<open>The part of the broker a connection works on.\<close>

definition broker_conn :: "'st Broker \<Rightarrow> RoundRobinStrategy SubState" where
  "broker_conn b = \<lparr>ss_hub = ps_hub (bk_pass b), ss_deleter = ps_deleter (bk_pass b), ss_out = [], ss_errCh = []\<rparr>"

definition set_conn :: "'st Broker \<Rightarrow> RoundRobinStrategy SubState \<Rightarrow> 'st Broker" where
  "set_conn b s = b\<lparr>bk_pass := (bk_pass b)\<lparr>ps_hub := ss_hub s, ps_deleter := ss_deleter s\<rparr>\<rparr>"

inductive broker_step :: "('st, 'b) DB \<Rightarrow> ('idx, RoundRobinStrategy) dispatch_env \<Rightarrow> 'st Broker \<Rightarrow> 'idx broker_act \<Rightarrow> 'st Broker \<Rightarrow> bool"
  for D :: "('st, 'b) DB" and env :: "('idx, RoundRobinStrategy) dispatch_env" where
  publish: "processStandaloneBatch D (de_proto env) (de_hash env) (bk_repo b) (bk_db b) batch nowMs = Ret ((er', st'), e) \<Longrightarrow>
    broker_step D env b (Publish batch nowMs) (b\<lparr>bk_repo := er', bk_db := st'\<rparr>)"
| pass: "dispatchAll env D (bk_db b) (isLeader None 0 0) nowMs (bk_pass b) = Ret (p', n) \<Longrightarrow>
    broker_step D env b (DispatchPass nowMs) (b\<lparr>bk_pass := p'\<rparr>)"
| sweep: "broker_step D env b (JanitorSweep nowMs)
    (b\<lparr>bk_pass := (bk_pass b)\<lparr>ps_deleter := TTLJanitor_sweep D (de_proto env) nowMs (bk_db b) (ps_deleter (bk_pass b))\<rparr>\<rparr>)"
| connect: "map_of (hub_byID (ps_hub (bk_pass b))) consumerID = None \<Longrightarrow>
    broker_step D env b (Connect consumerID ch i) (set_conn b (sub_open consumerID ch i (broker_conn b)))"
| receive: "broker_step D env b (Receive consumerID r) (set_conn b (receiver consumerID (broker_conn b) r))"
| deliver: "broker_step D env b (Deliver ch result) (set_conn b (sender ch (broker_conn b) result))"
| disconnect: "broker_step D env b (Disconnect consumerID) (b\<lparr>bk_pass := (bk_pass b)\<lparr>ps_hub := Hub_Unregister (ps_hub (bk_pass b)) consumerID\<rparr>\<rparr>)"
| flush: "Deleter_flush (direct_DeleteKeys D) start_OnDelete [] (ps_deleter (bk_pass b)) (bk_db b) (ps_d (bk_pass b)) = Ret (dl', st', d') \<Longrightarrow>
    broker_step D env b DeleterFlush (b\<lparr>bk_db := st', bk_pass := (bk_pass b)\<lparr>ps_deleter := dl', ps_d := d'\<rparr>\<rparr>)"
| restart: "(\<forall>ch. fst (chans ch) = []) \<Longrightarrow> st_TimeBucketSize (cf_Storage cfg) = de_bucketSize env \<Longrightarrow> WithRepositories D (bk_db b) cfg = Ret (Inr er) \<Longrightarrow>
    broker_step D env b (Restart cfg chans) \<lparr>bk_repo = er, bk_db = bk_db b,
      bk_pass = \<lparr>ps_d = start_dispatcher cfg, ps_hub = start_hub chans, ps_deleter = NewDeleter, ps_n = ps_n (bk_pass b)\<rparr>\<rparr>"

inductive_cases broker_stepE: "broker_step D env b act b'"

text \<open>A run, with the actions it took.\<close>

inductive broker_run :: "('st, 'b) DB \<Rightarrow> ('idx, RoundRobinStrategy) dispatch_env \<Rightarrow> 'st Broker \<Rightarrow> 'idx broker_act list \<Rightarrow> 'st Broker \<Rightarrow> bool"
  for D :: "('st, 'b) DB" and env :: "('idx, RoundRobinStrategy) dispatch_env" where
  run_refl: "broker_run D env b [] b"
| run_snoc: "broker_run D env b acts b1 \<Longrightarrow> broker_step D env b1 act b2 \<Longrightarrow> broker_run D env b (acts @ [act]) b2"

subsection \<open>Specification\<close>

text \<open>
  The clients' part: index keys that are no event keys, and acknowledgements of delivery tags.
  The counter's key lies in no topic's range of keys.
\<close>

definition act_ok :: "'idx proto_lib \<Rightarrow> 'idx broker_act \<Rightarrow> bool" where
  "act_ok pl act =
    (case act of
       Publish batch nowMs \<Rightarrow> \<forall>msg\<in>set (pb_Messages batch). \<forall>idx\<in>set (pm_Indexes msg). \<forall>v. proto_MarshalIndex pl idx = Inr v \<longrightarrow> index_ok v
     | Receive consumerID (Frame (BAck a)) \<Rightarrow> ar_Success a \<longrightarrow> length (ar_DeliveryTag a) = 24
     | _ \<Rightarrow> True)"

definition counter_apart :: "('idx, 's) dispatch_env \<Rightarrow> bool" where
  "counter_apart env \<longleftrightarrow> (\<forall>topic nb. \<not> in_bounds (due_range (de_hash env topic) nb) eventsLastIDKey)"

text \<open>The messages an action publishes, the tags it acknowledges, the times it looks for expired messages at.\<close>

definition act_count :: "'idx broker_act \<Rightarrow> nat" where
  "act_count act = (case act of Publish batch nowMs \<Rightarrow> length (pb_Messages batch) | _ \<Rightarrow> 0)"

definition act_acked :: "'idx broker_act \<Rightarrow> bytes set" where
  "act_acked act = (case act of Receive consumerID (Frame (BAck a)) \<Rightarrow> if ar_Success a then {ar_DeliveryTag a} else {} | _ \<Rightarrow> {})"

definition act_times :: "'idx broker_act \<Rightarrow> i64 set" where
  "act_times act = (case act of DispatchPass nowMs \<Rightarrow> {nowMs} | JanitorSweep nowMs \<Rightarrow> {nowMs} | _ \<Rightarrow> {})"

definition expired_at :: "'idx proto_lib \<Rightarrow> bytes \<Rightarrow> i64 \<Rightarrow> bool" where
  "expired_at pl v nowMs \<longleftrightarrow> (\<exists>msg. proto_Unmarshal pl v = Inr msg \<and> isExpired msg nowMs)"

abbreviation bk_pending :: "'st Broker \<Rightarrow> bytes list" where
  "bk_pending b \<equiv> dl_pending (ps_deleter (bk_pass b))"

text \<open>The tags of the messages in a channel.\<close>

definition queued_tags :: "'s Hub \<Rightarrow> nat \<Rightarrow> bytes set" where
  "queued_tags h ch = qm_DeliveryTag ` set (fst (hub_chans h ch))"

definition broker_inv :: "('st \<Rightarrow> store) \<Rightarrow> ('st \<Rightarrow> bool) \<Rightarrow> ('idx, 's) dispatch_env \<Rightarrow> 'st Broker \<Rightarrow> bool" where
  "broker_inv view good env b \<longleftrightarrow> good (bk_db b) \<and> hub_inv (ps_hub (bk_pass b)) \<and> repo_inv (bk_repo b) (view (bk_db b)) \<and>
    bucketSize (bk_repo b) = de_bucketSize env \<and> eventsLastIDKey \<notin> set (bk_pending b)"

definition run_ok :: "'idx proto_lib \<Rightarrow> 'st Broker \<Rightarrow> 'idx broker_act list \<Rightarrow> bool" where
  "run_ok pl b acts \<longleftrightarrow> list_all (act_ok pl) acts \<and> unat (lastID (bk_repo b)) + sum_list (map act_count acts) < 2 ^ 64"

text \<open>A fresh broker on an empty store.\<close>

definition sample_broker :: "kvlist Broker" where
  "sample_broker = \<lparr>bk_repo = \<lparr>lastID = 0, bucketSize = 0\<rparr>, bk_db = [], bk_pass = sample_pass\<rparr>"

section \<open>The effect of a pass\<close>

definition pass_effect :: "('idx, 's) dispatch_env \<Rightarrow> i64 \<Rightarrow> store \<Rightarrow> 's Pass \<Rightarrow> 's Pass \<Rightarrow> bool" where
  "pass_effect env nowMs m p p' \<longleftrightarrow> (hub_inv (ps_hub p) \<longrightarrow> hub_inv (ps_hub p')) \<and>
    (\<exists>ks. dl_pending (ps_deleter p') = dl_pending (ps_deleter p) @ ks \<and>
      (\<forall>k\<in>set ks. (\<exists>topic nb. in_bounds (due_range (de_hash env topic) nb) k) \<and> (\<exists>v. m k = Some v \<and> expired_at (de_proto env) v nowMs))) \<and>
    (\<forall>ch k. k \<in> queued_tags (ps_hub p') ch \<longrightarrow> k \<in> queued_tags (ps_hub p) ch \<or> m k \<noteq> None)"

lemma pass_effect_refl: "pass_effect env nowMs m p p"
  by (simp add: pass_effect_def)

lemma pass_effect_trans:
  assumes "pass_effect env nowMs m p p1" and "pass_effect env nowMs m p1 p2"
  shows "pass_effect env nowMs m p p2"
proof -
  obtain ks1 ks2 where "dl_pending (ps_deleter p1) = dl_pending (ps_deleter p) @ ks1" "dl_pending (ps_deleter p2) = dl_pending (ps_deleter p1) @ ks2"
    "\<forall>k\<in>set ks1 \<union> set ks2. (\<exists>topic nb. in_bounds (due_range (de_hash env topic) nb) k) \<and> (\<exists>v. m k = Some v \<and> expired_at (de_proto env) v nowMs)"
    using assms unfolding pass_effect_def by blast
  then have "\<exists>ks. dl_pending (ps_deleter p2) = dl_pending (ps_deleter p) @ ks \<and>
      (\<forall>k\<in>set ks. (\<exists>topic nb. in_bounds (due_range (de_hash env topic) nb) k) \<and> (\<exists>v. m k = Some v \<and> expired_at (de_proto env) v nowMs))"
    by (intro exI[of _ "ks1 @ ks2"]) simp
  with assms show ?thesis unfolding pass_effect_def by blast
qed

context storage_db
begin

lemma dispatchTopic_effect:
  assumes G: "good st" and d: "dispatchTopic env D st topic nowMs p = Ret (p', n)"
  shows "pass_effect env nowMs (view st) p p'"
proof -
  obtain nb where nb: "CalculateBucket nowMs (de_bucketSize env) = Ret nb"
    using d by (cases "CalculateBucket nowMs (de_bucketSize env)") (simp_all add: dispatchTopic_def)
  obtain kvs p1 sent where kvs: "lists_store kvs (range_view (due_range (de_hash env topic) nb) (view st))"
    and p1: "dispatchTopic env D st topic nowMs p = Ret (p1, length sent)"
      "dispatch_list env topic (ps_hub p) (due_msgs env (ps_d p) nowMs (ps_n p) kvs) = (ps_hub p1, sent)"
      "dl_pending (ps_deleter p1) = dl_pending (ps_deleter p) @ expired_keys env (ps_d p) nowMs (ps_n p) kvs"
    using dispatchTopic_pass[OF G nb] by blast
  have p': "p1 = p'" using p1(1) d by simp
  have kv: "(k, v) \<in> set kvs \<Longrightarrow> view st k = Some v \<and> in_bounds (due_range (de_hash env topic) nb) k" for k v
    using lists_store_set[OF kvs] by (simp add: range_view_Some_iff)
  have "k \<in> queued_tags (ps_hub p) ch \<or> view st k \<noteq> None" if k: "k \<in> queued_tags (ps_hub p') ch" for ch k
  proof -
    obtain qs where qs: "hub_chans (ps_hub p') ch = (fst (hub_chans (ps_hub p) ch) @ qs, snd (hub_chans (ps_hub p) ch))"
        "set qs \<subseteq> snd ` snd ` set (due_msgs env (ps_d p) nowMs (ps_n p) kvs)"
      using dispatch_list_appends[OF p1(2)] p' by blast
    have "view st (qm_DeliveryTag q) \<noteq> None" if q: "q \<in> set qs" for q
    proof -
      obtain m j where "(m, j, q) \<in> set (due_msgs env (ps_d p) nowMs (ps_n p) kvs)" using qs(2) q by force
      from due_msgs_mem[OF this] kv show ?thesis by (auto simp: queue_message_def)
    qed
    with k qs(1) show ?thesis by (auto simp: queued_tags_def)
  qed
  moreover have "hub_inv (ps_hub p) \<longrightarrow> hub_inv (ps_hub p')" using dispatch_list_frame[OF p1(2)] p' hub_inv_cong by blast
  moreover have "(\<exists>topic nb. in_bounds (due_range (de_hash env topic) nb) k) \<and> (\<exists>v. view st k = Some v \<and> expired_at (de_proto env) v nowMs)"
    if "k \<in> set (expired_keys env (ps_d p) nowMs (ps_n p) kvs)" for k
    using expired_keys_mem[OF that] kv unfolding expired_at_def by blast
  ultimately show ?thesis using p1(3) p' unfolding pass_effect_def by blast
qed

lemma dispatchAll_effect:
  assumes G: "good st" and d: "dispatchAll env D st leader nowMs p = Ret (p', n)"
  shows "pass_effect env nowMs (view st) p p'"
proof -
  have "dispatch_topics env D st nowMs p tot topics = Ret (p', n) \<Longrightarrow> pass_effect env nowMs (view st) p p'" for tot topics
  proof (induction topics arbitrary: p tot)
    case (Cons topic topics)
    then obtain p1 n1 where p1: "dispatchTopic env D st topic nowMs p = Ret (p1, n1)"
        "dispatch_topics env D st nowMs p1 (tot + n1) topics = Ret (p', n)"
      by (auto simp: bind_go_eq_Ret)
    from dispatchTopic_effect[OF G p1(1)] Cons.IH[OF p1(2)] show ?case by (rule pass_effect_trans)
  qed (simp add: pass_effect_refl)
  with d show ?thesis by (auto simp: dispatchAll_def Let_def pass_effect_refl split: if_splits)
qed

end

section \<open>The effect of a publication\<close>

lemma lastID_add:
  fixes i :: u64
  assumes "unat i + n < 2 ^ 64"
  shows "unat (i + of_nat n) = unat i + n"
proof -
  have "unat (of_nat n :: u64) = n" using assms by (intro unat_length_word) simp
  then show ?thesis using assms by (simp add: unat_word_ariths)
qed

lemma stored_last_items:
  "\<forall>it\<in>set items. list_all index_ok (Indexes it) \<Longrightarrow>
    stored_last (apply_ops (store_items_ops i items) m) = (if items = [] then stored_last m else i + of_nat (length items))"
proof (induction items arbitrary: i m)
  case (Cons it items)
  have "stored_last (apply_ops (store_ops (i + 1) (Bucket it) (TopicHash it) (Indexes it) (Msg it)) m) = i + 1"
    using Cons.prems by (intro stored_last_store_ops) (simp add: list_all_iff)
  with Cons show ?case by (simp add: algebra_simps)
qed simp

lemma batch_items_indexes:
  assumes "batch_items pl XXHash bs nowMs (pb_Messages batch) items" and "act_ok pl (Publish batch t)"
  shows "\<forall>it\<in>set items. list_all index_ok (Indexes it)"
proof
  fix it assume "it \<in> set items"
  then obtain msg where msg: "msg \<in> set (pb_Messages batch)" "item_of pl XXHash bs nowMs msg it"
    using assms(1) unfolding batch_items_def list_all2_conv_all_nth by (metis in_set_conv_nth)
  then have "map (proto_MarshalIndex pl) (pm_Indexes msg) = map Inr (Indexes it)" by (simp add: item_of_def)
  then have "Inr v \<in> proto_MarshalIndex pl ` set (pm_Indexes msg)" if "v \<in> set (Indexes it)" for v
    using that by (metis image_eqI list.set_map)
  with assms(2) msg(1) show "list_all index_ok (Indexes it)" by (fastforce simp: act_ok_def list_all_iff)
qed

text \<open>Publishing adds event keys above the counter and touches no other event key.\<close>

lemma publish_effect:
  assumes S: "storage_db D view pending good notfound" "good st" and inv: "repo_inv er (view st)"
    and ok: "act_ok pl (Publish batch nowMs)" and room: "unat (lastID er) + length (pb_Messages batch) < 2 ^ 64"
    and p: "processStandaloneBatch D pl XXHash er st batch nowMs = Ret ((er', st'), e)"
  shows "good st' \<and> bucketSize er' = bucketSize er \<and> repo_inv er' (view st') \<and>
    unat (lastID er') \<le> unat (lastID er) + length (pb_Messages batch) \<and> stored_last (view st) \<le> stored_last (view st') \<and>
    (\<forall>x h i. i \<le> lastID er \<longrightarrow> view st' (EventKey x h i) = view st (EventKey x h i))"
proof -
  obtain n where any: "good st'" "bucketSize er' = bucketSize er" "n \<le> length (pb_Messages batch)" "lastID er' = lastID er + of_nat n"
      "e \<noteq> None \<longrightarrow> view st' = view st"
    using standalone_any[OF S p] by blast
  have id': "unat (lastID er') = unat (lastID er) + n" using any(3,4) room by (simp add: lastID_add)
  then have mono: "lastID er \<le> lastID er'" by (simp add: word_le_nat_alt)
  show ?thesis
  proof (cases e)
    case (Some err)
    with any inv mono id' show ?thesis by (auto simp: repo_inv_def intro: order_trans)
  next
    case None
    with p obtain items where it: "batch_items pl XXHash (bucketSize er) nowMs (pb_Messages batch) items"
        and er': "er' = er\<lparr>lastID := lastID er + of_nat (length items)\<rparr>"
        and st': "view st' = apply_ops (store_items_ops (lastID er) items) (view st)"
      by (auto intro: standalone_success[OF S])
    have len: "length items = length (pb_Messages batch)" using it by (simp add: batch_items_def list_all2_lengthD)
    note idx = batch_items_indexes[OF it ok]
    have "repo_inv er' (view st')" unfolding st' er' by (rule store_items_inv[OF inv _ idx]) (use room len in simp)
    moreover have "stored_last (view st) \<le> lastID er" using inv by (simp add: repo_inv_def)
    then have "stored_last (view st) \<le> stored_last (view st')"
      using mono by (auto simp: st' stored_last_items[OF idx] er' intro: order_trans)
    moreover have "view st' (EventKey x h i) = view st (EventKey x h i)" if i: "i \<le> lastID er" for x h i
      unfolding st'
    proof (rule store_items_ops_other)
      show "\<forall>it\<in>set items. EventKey x h i \<notin> set (Indexes it)"
        using idx length_EventKey by (fastforce simp: list_all_iff index_ok_def)
      show "EventKey x h i \<noteq> eventsLastIDKey" by auto
      have "lastID er < lastID er + of_nat (Suc j)" if "j < length items" for j
        using lastID_add[of "lastID er" "Suc j"] that room len by (simp add: word_less_nat_alt)
      then show "\<forall>j<length items. EventKey x h i \<noteq> EventKey (Bucket (items ! j)) (TopicHash (items ! j)) (lastID er + of_nat (Suc j))"
        using i by (metis EventKey_inject leD)
    qed
    ultimately show ?thesis using any(1,2,3) id' by simp
  qed
qed

section \<open>The effect of a step\<close>

definition step_effect :: "('st \<Rightarrow> store) \<Rightarrow> 'idx proto_lib \<Rightarrow> 'st Broker \<Rightarrow> 'idx broker_act \<Rightarrow> 'st Broker \<Rightarrow> bool" where
  "step_effect view pl b act b' \<longleftrightarrow>
    unat (lastID (bk_repo b')) \<le> unat (lastID (bk_repo b)) + act_count act \<and>
    stored_last (view (bk_db b)) \<le> stored_last (view (bk_db b')) \<and>
    (\<forall>x h i. i \<le> stored_last (view (bk_db b)) \<longrightarrow> view (bk_db b') (EventKey x h i) = view (bk_db b) (EventKey x h i) \<or>
      view (bk_db b') (EventKey x h i) = None \<and> EventKey x h i \<in> set (bk_pending b)) \<and>
    (\<forall>k\<in>set (bk_pending b'). k \<in> set (bk_pending b) \<or> k \<in> act_acked act \<or>
      (\<exists>v. \<exists>t\<in>act_times act. view (bk_db b) k = Some v \<and> expired_at pl v t)) \<and>
    (\<forall>ch k. k \<in> queued_tags (ps_hub (bk_pass b')) ch \<longrightarrow> k \<in> queued_tags (ps_hub (bk_pass b)) ch \<or> view (bk_db b) k \<noteq> None)"

text \<open>Steps that leave the store and the counter alone.\<close>

lemma step_effect_same_db:
  assumes "bk_db b' = bk_db b" and "bk_repo b' = bk_repo b"
    and "\<forall>k\<in>set (bk_pending b'). k \<in> set (bk_pending b) \<or> k \<in> act_acked act \<or>
      (\<exists>v. \<exists>t\<in>act_times act. view (bk_db b) k = Some v \<and> expired_at pl v t)"
    and "\<forall>ch k. k \<in> queued_tags (ps_hub (bk_pass b')) ch \<longrightarrow> k \<in> queued_tags (ps_hub (bk_pass b)) ch \<or> view (bk_db b) k \<noteq> None"
  shows "step_effect view pl b act b'"
  using assms by (simp add: step_effect_def)

lemma Hub_Unregister_chans: "hub_chans (Hub_Unregister h i) = hub_chans h"
  by (simp add: Hub_Unregister_def Let_def split: option.split prod.split)

lemma Hub_Register_chans: "hub_chans (Hub_Register h i topic grp ch) = hub_chans h"
  by (simp add: Hub_Register_def Let_def)

lemma receiver_effect:
  "hub_chans (ss_hub (receiver i s r)) = hub_chans (ss_hub s)"
  "set (dl_pending (ss_deleter (receiver i s r))) \<subseteq> set (dl_pending (ss_deleter s)) \<union> act_acked (Receive i r)"
  by (auto simp: receiver_def RemoveInFlightForConsumer_def GetAck_def MarkDeleted_def act_acked_def Let_def
    split: recv.split option.split ConsumerFrame.split)

lemma sender_chans: "queued_tags (ss_hub (sender ch s r)) c \<subseteq> queued_tags (ss_hub s) c"
  by (auto simp: sender_def queued_tags_def Let_def split: prod.split list.split option.split)

lemma sub_open_chans: "queued_tags (ss_hub (sub_open i ch init s)) c \<subseteq> queued_tags (ss_hub s) c"
  by (simp add: sub_open_def queued_tags_def Hub_Register_chans Let_def)

context storage_db
begin

lemma flush_effect:
  assumes G: "good st" and f: "Deleter_flush (direct_DeleteKeys D) OnDelete [] dl st d = Ret (dl', st', d')"
  shows "good st' \<and> set (dl_pending dl') \<subseteq> set (dl_pending dl) \<and>
    (view st' = view st \<or> view st' = view st |` (- set (dl_pending dl)))"
proof (cases "dl_pending dl = []")
  case True
  with f G show ?thesis by (auto simp: Deleter_flush_def)
next
  case False
  obtain st1 e where d: "direct_DeleteKeys D st (dl_pending dl) = Ret (st1, e)" by (metis direct_DeleteKeys_def prod.collapse)
  with f False have "st1 = st'" "set (dl_pending dl') \<subseteq> set (dl_pending dl)"
    by (auto simp: Deleter_flush_def Let_def split: option.splits)
  with direct_delete_view[OF G d] show ?thesis by blast
qed

end

lemma restrict_keeps_counter:
  "eventsLastIDKey \<notin> A \<Longrightarrow> stored_last (m |` (- A)) = stored_last m"
  "eventsLastIDKey \<notin> A \<Longrightarrow> repo_inv er m \<Longrightarrow> repo_inv er (m |` (- A))"
  by (auto simp: repo_inv_def stored_last_def restrict_map_def split: if_splits option.splits)

definition keeps_inv :: "('st \<Rightarrow> store) \<Rightarrow> ('st \<Rightarrow> bool) \<Rightarrow> ('idx, 's) dispatch_env \<Rightarrow> 'st Broker \<Rightarrow> 'idx broker_act \<Rightarrow> 'st Broker \<Rightarrow> bool" where
  "keeps_inv view good env b act b' \<longleftrightarrow> (broker_inv view good env b \<longrightarrow> broker_inv view good env b' \<and> step_effect view (de_proto env) b act b')"

lemma keeps_invI:
  assumes "good (bk_db b) \<Longrightarrow> hub_inv (ps_hub (bk_pass b)) \<Longrightarrow> repo_inv (bk_repo b) (view (bk_db b)) \<Longrightarrow>
    bucketSize (bk_repo b) = de_bucketSize env \<Longrightarrow> eventsLastIDKey \<notin> set (bk_pending b) \<Longrightarrow>
    broker_inv view good env b' \<and> step_effect view (de_proto env) b act b'"
  shows "keeps_inv view good env b act b'"
  using assms by (simp add: keeps_inv_def broker_inv_def)

context storage_db
begin

lemma keeps_publish:
  assumes ok: "act_ok (de_proto env) (Publish batch nowMs)" and room: "unat (lastID (bk_repo b)) + length (pb_Messages batch) < 2 ^ 64"
    and p: "processStandaloneBatch D (de_proto env) (de_hash env) (bk_repo b) (bk_db b) batch nowMs = Ret ((er', st'), e)"
  shows "keeps_inv view good env b (Publish batch nowMs) (b\<lparr>bk_repo := er', bk_db := st'\<rparr>)"
proof (rule keeps_invI)
  assume G: "good (bk_db b)" and R: "repo_inv (bk_repo b) (view (bk_db b))" and I: "hub_inv (ps_hub (bk_pass b))"
    "bucketSize (bk_repo b) = de_bucketSize env" "eventsLastIDKey \<notin> set (bk_pending b)"
  have "i \<le> stored_last (view (bk_db b)) \<Longrightarrow> i \<le> lastID (bk_repo b)" for i using R by (auto simp: repo_inv_def)
  with publish_effect[OF storage_db_axioms G R ok room p] I
  show "broker_inv view good env (b\<lparr>bk_repo := er', bk_db := st'\<rparr>) \<and>
      step_effect view (de_proto env) b (Publish batch nowMs) (b\<lparr>bk_repo := er', bk_db := st'\<rparr>)"
    by (simp add: broker_inv_def step_effect_def act_count_def)
qed

lemma keeps_pass:
  assumes apart: "counter_apart env" and d: "dispatchAll env D (bk_db b) leader nowMs (bk_pass b) = Ret (p', n)"
  shows "keeps_inv view good env b (DispatchPass nowMs) (b\<lparr>bk_pass := p'\<rparr>)"
proof (rule keeps_invI)
  assume I: "good (bk_db b)" "hub_inv (ps_hub (bk_pass b))" "repo_inv (bk_repo b) (view (bk_db b))"
    "bucketSize (bk_repo b) = de_bucketSize env" "eventsLastIDKey \<notin> set (bk_pending b)"
  have "pass_effect env nowMs (view (bk_db b)) (bk_pass b) p'" by (rule dispatchAll_effect[OF I(1) d])
  then have E: "hub_inv (ps_hub p')" "\<forall>k\<in>set (dl_pending (ps_deleter p')). k \<in> set (bk_pending b) \<or>
      (\<exists>topic nb. in_bounds (due_range (de_hash env topic) nb) k) \<and> (\<exists>v. view (bk_db b) k = Some v \<and> expired_at (de_proto env) v nowMs)"
    "\<forall>ch k. k \<in> queued_tags (ps_hub p') ch \<longrightarrow> k \<in> queued_tags (ps_hub (bk_pass b)) ch \<or> view (bk_db b) k \<noteq> None"
    using I(2) unfolding pass_effect_def by auto
  then have "eventsLastIDKey \<notin> set (dl_pending (ps_deleter p'))" using I(5) apart by (auto simp: counter_apart_def)
  moreover have "step_effect view (de_proto env) b (DispatchPass nowMs) (b\<lparr>bk_pass := p'\<rparr>)"
    using E(2,3) by (intro step_effect_same_db) (auto simp: act_times_def)
  ultimately show "broker_inv view good env (b\<lparr>bk_pass := p'\<rparr>) \<and> step_effect view (de_proto env) b (DispatchPass nowMs) (b\<lparr>bk_pass := p'\<rparr>)"
    using I E(1) by (simp add: broker_inv_def)
qed

lemma keeps_sweep:
  "keeps_inv view good env b (JanitorSweep nowMs)
    (b\<lparr>bk_pass := (bk_pass b)\<lparr>ps_deleter := TTLJanitor_sweep D (de_proto env) nowMs (bk_db b) (ps_deleter (bk_pass b))\<rparr>\<rparr>)"
  (is "keeps_inv view good env b ?act ?b'")
proof (rule keeps_invI)
  assume I: "good (bk_db b)" "hub_inv (ps_hub (bk_pass b))" "repo_inv (bk_repo b) (view (bk_db b))"
    "bucketSize (bk_repo b) = de_bucketSize env" "eventsLastIDKey \<notin> set (bk_pending b)"
  obtain keys where k: "bk_pending ?b' = bk_pending b @ keys" "set keys = expired_set (de_proto env) nowMs (view (bk_db b))"
    using sweep_marks[OF I(1), of "de_proto env" nowMs "ps_deleter (bk_pass b)"] by auto
  have x: "expired_entry (de_proto env) nowMs key v \<Longrightarrow> length key = 24 \<and> expired_at (de_proto env) v nowMs" for key v
    by (cases "proto_Unmarshal (de_proto env) v") (simp_all add: expired_entry_def expired_at_def isExpired_def)
  then have "eventsLastIDKey \<notin> set keys" by (force simp: k(2) expired_set_def)
  moreover have "step_effect view (de_proto env) b ?act ?b'"
    using x k by (intro step_effect_same_db) (auto simp: expired_set_def act_times_def)
  ultimately show "broker_inv view good env ?b' \<and> step_effect view (de_proto env) b ?act ?b'"
    using I k(1) by (simp add: broker_inv_def)
qed

lemma keeps_flush:
  assumes f: "Deleter_flush (direct_DeleteKeys D) OnDelete [] (ps_deleter (bk_pass b)) (bk_db b) (ps_d (bk_pass b)) = Ret (dl', st', d')"
  shows "keeps_inv view good env b DeleterFlush (b\<lparr>bk_db := st', bk_pass := (bk_pass b)\<lparr>ps_deleter := dl', ps_d := d'\<rparr>\<rparr>)"
proof (rule keeps_invI)
  let ?b' = "b\<lparr>bk_db := st', bk_pass := (bk_pass b)\<lparr>ps_deleter := dl', ps_d := d'\<rparr>\<rparr>"
  assume I: "good (bk_db b)" "hub_inv (ps_hub (bk_pass b))" "repo_inv (bk_repo b) (view (bk_db b))"
    "bucketSize (bk_repo b) = de_bucketSize env" "eventsLastIDKey \<notin> set (bk_pending b)"
  from flush_effect[OF I(1) f] have F: "good st'" "set (dl_pending dl') \<subseteq> set (bk_pending b)"
    "view st' = view (bk_db b) \<or> view st' = view (bk_db b) |` (- set (bk_pending b))" by simp_all
  then have "repo_inv (bk_repo b) (view st')" "stored_last (view st') = stored_last (view (bk_db b))"
    using restrict_keeps_counter[of "set (bk_pending b)"] I by auto
  moreover have "view st' k = view (bk_db b) k \<or> view st' k = None \<and> k \<in> set (bk_pending b)" for k
    using F(3) by (auto simp: restrict_map_def split: if_splits)
  ultimately show "broker_inv view good env ?b' \<and> step_effect view (de_proto env) b DeleterFlush ?b'"
    using I F(1,2) by (auto simp: broker_inv_def step_effect_def)
qed

lemma WithRepositories_counter:
  assumes G: "good st" and inv: "repo_inv er0 (view st)" and w: "WithRepositories D st cfg = Ret (Inr er)"
  shows "er = \<lparr>lastID = stored_last (view st), bucketSize = st_TimeBucketSize (cf_Storage cfg)\<rparr>"
proof -
  have "NewEventRepository D st (st_TimeBucketSize (cf_Storage cfg)) = Ret (Inr er)"
    using w by (cases "NewEventRepository D st (st_TimeBucketSize (cf_Storage cfg))") (auto simp: WithRepositories_def split: sum.splits)
  then show ?thesis
    using NewEventRepository_ok[OF G inv, of "st_TimeBucketSize (cf_Storage cfg)"]
    by (cases "view st eventsLastIDKey") (auto simp: NewEventRepository_def Get[OF G] stored_last_def split: if_splits)
qed

lemma keeps_restart:
  assumes cfg: "st_TimeBucketSize (cf_Storage cfg) = de_bucketSize env" "\<forall>ch. fst (chans ch) = []"
    and w: "WithRepositories D (bk_db b) cfg = Ret (Inr er)"
  shows "keeps_inv view good env b (Restart cfg chans) \<lparr>bk_repo = er, bk_db = bk_db b, bk_pass = \<lparr>ps_d = d, ps_hub = start_hub chans, ps_deleter = NewDeleter, ps_n = n\<rparr>\<rparr>"
    (is "keeps_inv view good env b ?act ?b'")
proof (rule keeps_invI)
  assume I: "good (bk_db b)" "hub_inv (ps_hub (bk_pass b))" "repo_inv (bk_repo b) (view (bk_db b))"
    "bucketSize (bk_repo b) = de_bucketSize env" "eventsLastIDKey \<notin> set (bk_pending b)"
  note er = WithRepositories_counter[OF I(1,3) w, unfolded cfg(1)]
  have "repo_inv er (view (bk_db b))" "lastID er \<le> lastID (bk_repo b)" using I(3) by (simp_all add: er repo_inv_def)
  moreover have "hub_inv (start_hub chans)" by (simp add: start_hub_def NewHub_def hub_inv_def)
  ultimately show "broker_inv view good env ?b' \<and> step_effect view (de_proto env) b ?act ?b'"
    using I cfg(2) by (auto simp: broker_inv_def step_effect_def er NewDeleter_def queued_tags_def start_hub_def NewHub_def
      word_le_nat_alt)
qed

end

text \<open>The steps of connections.\<close>

lemma keeps_conn:
  assumes hub: "hub_inv (ps_hub (bk_pass b)) \<Longrightarrow> hub_inv (ss_hub s)"
    and dl: "set (dl_pending (ss_deleter s)) \<subseteq> set (bk_pending b) \<union> act_acked act" "\<forall>k\<in>act_acked act. length k = 24"
    and ch: "\<And>ch. queued_tags (ss_hub s) ch \<subseteq> queued_tags (ps_hub (bk_pass b)) ch"
  shows "keeps_inv view good env b act (set_conn b s)"
proof (rule keeps_invI)
  assume I: "good (bk_db b)" "hub_inv (ps_hub (bk_pass b))" "repo_inv (bk_repo b) (view (bk_db b))"
    "bucketSize (bk_repo b) = de_bucketSize env" "eventsLastIDKey \<notin> set (bk_pending b)"
  have "step_effect view (de_proto env) b act (set_conn b s)"
    using dl ch by (intro step_effect_same_db) (auto simp: set_conn_def)
  moreover have "eventsLastIDKey \<notin> set (dl_pending (ss_deleter s))" using dl I(5) by fastforce
  ultimately show "broker_inv view good env (set_conn b s) \<and> step_effect view (de_proto env) b act (set_conn b s)"
    using I hub by (simp add: broker_inv_def set_conn_def)
qed

lemma keeps_connect:
  assumes "map_of (hub_byID (ps_hub (bk_pass b))) consumerID = None"
  shows "keeps_inv view good env b (Connect consumerID ch i) (set_conn b (sub_open consumerID ch i (broker_conn b)))"
proof (rule keeps_conn)
  let ?h0 = "(ps_hub (bk_pass b))\<lparr>hub_chans := (hub_chans (ps_hub (bk_pass b)))(ch := ([], 1024))\<rparr>"
  assume "hub_inv (ps_hub (bk_pass b))"
  then have "hub_inv ?h0" using hub_inv_cong[of ?h0 "ps_hub (bk_pass b)"] by simp
  then show "hub_inv (ss_hub (sub_open consumerID ch i (broker_conn b)))"
    using assms by (simp add: sub_open_def broker_conn_def Register_inv Let_def)
qed (use sub_open_chans[of consumerID ch i "broker_conn b"] in
  \<open>auto simp: sub_open_def broker_conn_def act_acked_def Let_def\<close>)

lemma keeps_receive:
  assumes "act_ok pl (Receive consumerID r)"
  shows "keeps_inv view good env b (Receive consumerID r) (set_conn b (receiver consumerID (broker_conn b) r))"
proof (rule keeps_conn)
  show "\<forall>k\<in>act_acked (Receive consumerID r). length k = 24"
    using assms by (auto simp: act_ok_def act_acked_def split: recv.splits ConsumerFrame.splits if_splits)
qed (use receiver_effect[of consumerID "broker_conn b" r] hub_inv_cong[OF receiver_hub, of consumerID "broker_conn b" r] in
  \<open>auto simp: broker_conn_def queued_tags_def\<close>)

lemma keeps_deliver: "keeps_inv view good env b (Deliver ch result) (set_conn b (sender ch (broker_conn b) result))"
  using sender_chans[of ch "broker_conn b" result] hub_inv_cong[OF sender_hub(1,2), of ch "broker_conn b" result]
  by (intro keeps_conn) (auto simp: broker_conn_def sender_hub act_acked_def)

lemma keeps_disconnect:
  "keeps_inv view good env b (Disconnect consumerID) (b\<lparr>bk_pass := (bk_pass b)\<lparr>ps_hub := Hub_Unregister (ps_hub (bk_pass b)) consumerID\<rparr>\<rparr>)"
  by (rule keeps_invI) (auto simp: broker_inv_def Unregister_inv queued_tags_def Hub_Unregister_chans intro!: step_effect_same_db)

text \<open>Every step keeps the invariant.\<close>

lemma step_ok:
  assumes S: "storage_db D view pending good notfound" and inv: "broker_inv view good env b" and apart: "counter_apart env"
    and ok: "act_ok (de_proto env) act" and room: "unat (lastID (bk_repo b)) + act_count act < 2 ^ 64"
    and step: "broker_step D env b act b'"
  shows "broker_inv view good env b' \<and> step_effect view (de_proto env) b act b'"
proof -
  from step have "keeps_inv view good env b act b'"
  proof cases
    case (publish batch nowMs er' st' e)
    then show ?thesis using ok room storage_db.keeps_publish[OF S] by (simp add: act_count_def)
  next
    case (receive consumerID r)
    then show ?thesis using ok keeps_receive by blast
  qed (auto intro: storage_db.keeps_pass[OF S apart] storage_db.keeps_sweep[OF S] storage_db.keeps_flush[OF S] storage_db.keeps_restart[OF S]
    keeps_connect keeps_deliver keeps_disconnect)
  with inv show ?thesis by (simp add: keeps_inv_def)
qed

section \<open>Runs\<close>

lemma run_ok_snoc:
  "run_ok pl b (acts @ [act]) \<longleftrightarrow> run_ok pl b acts \<and> act_ok pl act \<and>
    unat (lastID (bk_repo b)) + sum_list (map act_count acts) + act_count act < 2 ^ 64"
  by (auto simp: run_ok_def)

lemma run_inv:
  assumes S: "storage_db D view pending good notfound" and apart: "counter_apart env" and inv: "broker_inv view good env b"
    and run: "broker_run D env b acts b'" and ok: "run_ok (de_proto env) b acts"
  shows "broker_inv view good env b' \<and> unat (lastID (bk_repo b')) \<le> unat (lastID (bk_repo b)) + sum_list (map act_count acts) \<and>
    stored_last (view (bk_db b)) \<le> stored_last (view (bk_db b'))"
  using run ok inv
proof (induction rule: broker_run.induct)
  case (run_snoc b acts b1 act b2)
  then have I: "broker_inv view good env b1" "unat (lastID (bk_repo b1)) \<le> unat (lastID (bk_repo b)) + sum_list (map act_count acts)"
      "stored_last (view (bk_db b)) \<le> stored_last (view (bk_db b1))"
    by (simp_all add: run_ok_snoc)
  with run_snoc.prems(1) have "act_ok (de_proto env) act" "unat (lastID (bk_repo b1)) + act_count act < 2 ^ 64" by (simp_all add: run_ok_snoc)
  from step_ok[OF S I(1) apart this run_snoc.hyps(2)] I show ?case by (auto simp: step_effect_def)
qed simp

text \<open>One more step of a run that keeps the clients' part.\<close>

lemma run_step:
  assumes S: "storage_db D view pending good notfound" and apart: "counter_apart env" and inv: "broker_inv view good env b"
    and run: "broker_run D env b acts b1" and step: "broker_step D env b1 act b2" and ok: "run_ok (de_proto env) b (acts @ [act])"
  shows "step_effect view (de_proto env) b1 act b2" and "broker_inv view good env b1"
    and "stored_last (view (bk_db b)) \<le> stored_last (view (bk_db b1))"
proof -
  have ok1: "run_ok (de_proto env) b acts" "act_ok (de_proto env) act" using ok by (simp_all add: run_ok_snoc)
  note I = run_inv[OF S apart inv run ok1(1)]
  then have "unat (lastID (bk_repo b1)) + act_count act < 2 ^ 64" using ok by (simp add: run_ok_snoc)
  with step_ok[OF S _ apart ok1(2) _ step] I show "step_effect view (de_proto env) b1 act b2" "broker_inv view good env b1"
    "stored_last (view (bk_db b)) \<le> stored_last (view (bk_db b1))" by blast+
qed

text \<open>Why a message may leave the store.\<close>

definition given_up :: "'idx proto_lib \<Rightarrow> 'st Broker \<Rightarrow> 'idx broker_act list \<Rightarrow> bytes \<Rightarrow> bytes \<Rightarrow> bool" where
  "given_up pl b acts k v \<longleftrightarrow> k \<in> set (bk_pending b) \<or> (\<exists>act\<in>set acts. k \<in> act_acked act \<or> (\<exists>t\<in>act_times act. expired_at pl v t))"

lemma run_keeps_message:
  assumes S: "storage_db D view pending good notfound" and apart: "counter_apart env" and inv: "broker_inv view good env b"
    and run: "broker_run D env b acts b'" and ok: "run_ok (de_proto env) b acts"
    and v: "view (bk_db b) (EventKey x h i) = Some v"
  shows "given_up (de_proto env) b acts (EventKey x h i) v \<or> view (bk_db b') (EventKey x h i) = Some v \<and> EventKey x h i \<notin> set (bk_pending b')"
  using run ok inv v
proof (induction rule: broker_run.induct)
  case (run_refl b)
  then show ?case by (simp add: given_up_def)
next
  case (run_snoc b acts b1 act b2)
  let ?k = "EventKey x h i"
  show ?case
  proof (cases "given_up (de_proto env) b (acts @ [act]) ?k v")
    case False
    then have no: "\<not> given_up (de_proto env) b acts ?k v" "?k \<notin> act_acked act" "\<not> (\<exists>t\<in>act_times act. expired_at (de_proto env) v t)"
      by (auto simp: given_up_def)
    with run_snoc have 1: "view (bk_db b1) ?k = Some v" "?k \<notin> set (bk_pending b1)" by (simp_all add: run_ok_snoc)
    note E = run_step[OF S apart run_snoc.prems(2) run_snoc.hyps run_snoc.prems(1)]
    have "i \<le> stored_last (view (bk_db b1))" using E(2) 1(1) by (force simp: broker_inv_def repo_inv_def)
    then have "view (bk_db b2) ?k = Some v" using E(1) 1 unfolding step_effect_def by metis
    moreover have "?k \<notin> set (bk_pending b2)" using E(1) 1 no(2,3) unfolding step_effect_def by (metis option.inject)
    ultimately show ?thesis by simp
  qed simp
qed

lemma run_keeps_gone:
  assumes S: "storage_db D view pending good notfound" and apart: "counter_apart env" and inv: "broker_inv view good env b"
    and run: "broker_run D env b acts b'" and ok: "run_ok (de_proto env) b acts"
    and gone: "view (bk_db b) (EventKey x h i) = None" "i \<le> stored_last (view (bk_db b))"
  shows "view (bk_db b') (EventKey x h i) = None \<and>
    (EventKey x h i \<in> queued_tags (ps_hub (bk_pass b')) ch \<longrightarrow> EventKey x h i \<in> queued_tags (ps_hub (bk_pass b)) ch)"
  using run ok inv gone
proof (induction rule: broker_run.induct)
  case (run_snoc b acts b1 act b2)
  let ?k = "EventKey x h i"
  from run_snoc have 1: "view (bk_db b1) ?k = None" "?k \<in> queued_tags (ps_hub (bk_pass b1)) ch \<longrightarrow> ?k \<in> queued_tags (ps_hub (bk_pass b)) ch"
    by (simp_all add: run_ok_snoc)
  note E = run_step[OF S apart run_snoc.prems(2) run_snoc.hyps run_snoc.prems(1)]
  have "i \<le> stored_last (view (bk_db b1))" using E(3) run_snoc.prems(4) by simp
  then have "view (bk_db b2) ?k = None" using E(1) 1(1) unfolding step_effect_def by metis
  moreover have "?k \<in> queued_tags (ps_hub (bk_pass b2)) ch \<longrightarrow> ?k \<in> queued_tags (ps_hub (bk_pass b)) ch"
    using E(1) 1 unfolding step_effect_def by blast
  ultimately show ?case by simp
qed simp

text \<open>No action panics.\<close>

lemma step_enabled:
  assumes S: "storage_db D view pending good notfound" and inv: "broker_inv view good env b" and bs: "valid_bucketSize (de_bucketSize env)"
    and nf: "notfound = PebbleErrNotFound"
    and ready: "case act of Connect consumerID ch i \<Rightarrow> map_of (hub_byID (ps_hub (bk_pass b))) consumerID = None
      | Restart cfg chans \<Rightarrow> st_TimeBucketSize (cf_Storage cfg) = de_bucketSize env \<and> (\<forall>ch. fst (chans ch) = []) | _ \<Rightarrow> True"
  shows "\<exists>b'. broker_step D env b act b'"
proof (cases act)
  case (Publish batch nowMs)
  have "valid_bucketSize (bucketSize (bk_repo b))" using inv bs by (simp add: broker_inv_def)
  from standalone_returns[OF this, of D "de_proto env" "de_hash env" "bk_db b" batch nowMs] Publish show ?thesis by (auto intro: broker_step.publish)
next
  case (DispatchPass nowMs)
  have "\<exists>r. dispatch_topics env D (bk_db b) nowMs (bk_pass b) 0 (ActiveTopics (de_torder env) (ps_hub (bk_pass b))) = Ret r"
    using dispatch_topics_frame[OF S _ bs, of "bk_db b" "bk_pass b" nowMs 0 "ActiveTopics (de_torder env) (ps_hub (bk_pass b))"] inv
    by (auto simp: broker_inv_def)
  then have "\<exists>r. dispatchAll env D (bk_db b) (isLeader None 0 0) nowMs (bk_pass b) = Ret r" by (simp add: dispatchAll_def Let_def)
  then show ?thesis using DispatchPass by (auto intro: broker_step.pass)
next
  case DeleterFlush
  have "\<exists>r. Deleter_flush (direct_DeleteKeys D) start_OnDelete [] (ps_deleter (bk_pass b)) (bk_db b) (ps_d (bk_pass b)) = Ret r"
    by (simp add: Deleter_flush_def direct_DeleteKeys_def Let_def split: option.split prod.split)
  then show ?thesis using DeleterFlush by (auto intro: broker_step.flush)
next
  case (Restart cfg chans)
  have "WithRepositories D (bk_db b) cfg = Ret (Inr \<lparr>lastID = stored_last (view (bk_db b)), bucketSize = de_bucketSize env\<rparr>)"
    using storage_db.NewEventRepository_ok[OF S, of "bk_db b" "bk_repo b" "de_bucketSize env"] inv nf ready Restart
    by (simp add: WithRepositories_def broker_inv_def)
  then show ?thesis using Restart ready by (auto intro: broker_step.restart)
qed (use ready in \<open>auto intro: broker_step.intros\<close>)

end
