(* ===== verification/Process.thy ===== *)
theory Process
  imports Broker
begin

text \<open>
  The process around the broker: the options the storage engine and the gRPC server are
  opened with (\<open>NewPebble\<close> in \<open>src/internal/storage/pebble.go\<close>, \<open>New\<close>
  in \<open>src/internal/api/grpc/setup.go\<close>), the commands \<open>start\<close> and
  \<open>leave\<close> (\<open>src/cmd/futureq\<close>), and the graceful shutdown
  (\<open>src/internal/app/app.go\<close>, \<open>setup.go\<close>). A fatal log entry ends the process;
  it is the value \<open>Fatal\<close>. Waiting for components, for a leader or for the shutdown
  window consumes a list of events.
\<close>

section \<open>Definitions\<close>

subsection \<open>Options\<close>

record PebbleOptions =
  po_DisableWAL :: bool
  po_CacheSize :: i64
  po_MemTableSize :: u64
  po_InMemory :: bool

definition pebble_options :: "PebbleConfig \<Rightarrow> PebbleOptions" where
  "pebble_options cfg =
    (let cacheSize = pc_CacheSizeMB cfg * 1024 * 1024;
         cacheSize' = (if sint cacheSize \<le> 0 then 64 * 1024 * 1024 else cacheSize)
     in \<lparr>po_DisableWAL = pc_DisableWAL cfg, po_CacheSize = cacheSize',
         po_MemTableSize = pc_InMemTableSizeMB cfg * 1024 * 1024, po_InMemory = (pc_DataPath cfg = '''')\<rparr>)"

definition NewPebble :: "(string \<Rightarrow> PebbleOptions \<Rightarrow> goerror + 'db) \<Rightarrow> PebbleConfig \<Rightarrow> goerror + 'db" where
  "NewPebble Open cfg =
    (case Open (pc_DataPath cfg) (pebble_options cfg) of Inl err \<Rightarrow> Inl err | Inr db \<Rightarrow> Inr db)"

record ServerOptions =
  so_MaxConcurrentStreams :: u32
  so_MaxRecvMsgSize :: i64
  so_MaxSendMsgSize :: i64
  so_MinTime :: i64
  so_MaxConnectionIdle :: i64
  so_MaxConnectionAge :: i64
  so_MaxConnectionAgeGrace :: i64
  so_Time :: i64
  so_Timeout :: i64
  so_Addr :: string

definition grpc_New :: "ServerConfig \<Rightarrow> ServerOptions" where
  "grpc_New cfg =
    \<lparr>so_MaxConcurrentStreams = sv_MaxConns cfg, so_MaxRecvMsgSize = sv_MaxRecvSizeKB cfg * 1024, so_MaxSendMsgSize = sv_MaxSendSizeKB cfg * 1024,
     so_MinTime = 5 * Second, so_MaxConnectionIdle = 30 * Second, so_MaxConnectionAge = 2 * (60 * Second),
     so_MaxConnectionAgeGrace = 10 * Second, so_Time = 10 * Second, so_Timeout = sv_Timeout cfg, so_Addr = sv_Listen cfg\<rparr>"

subsection \<open>The wait group and the shutdown\<close>

definition RegisterComponentWithShutdown :: "nat \<Rightarrow> nat" where
  "RegisterComponentWithShutdown wg = wg + 1"

definition ComponentShutdownDone :: "nat \<Rightarrow> nat go" where
  "ComponentShutdownDone wg = (if wg = 0 then Panic ''sync: negative WaitGroup counter'' else Ret (wg - 1))"

datatype shut_event = ComponentDone | WindowOver

text \<open>
  Waiting for the components or the end of the window, whichever comes first: the result says
  whether all components finished.
\<close>

fun await_components :: "nat \<Rightarrow> shut_event list \<Rightarrow> (bool go) option" where
  "await_components wg evs =
    (if wg = 0 then Some (Ret True)
     else case evs of
       [] \<Rightarrow> None
     | ComponentDone # evs' \<Rightarrow>
        (case ComponentShutdownDone wg of Panic m \<Rightarrow> Some (Panic m) | Ret wg' \<Rightarrow> await_components wg' evs')
     | WindowOver # evs' \<Rightarrow> Some (Ret False))"

text \<open>What the shutdown does, in order; flushing works on the state of the database.\<close>

datatype shut_action = CancelCtx | Waited bool | CloseNodeHost | FlushDB | CloseDB

definition WithGracefulShutdown :: "('st, 'b) DB \<Rightarrow> bool \<Rightarrow> 'st option \<Rightarrow> nat \<Rightarrow> shut_event list \<Rightarrow> (('st \<times> shut_action list) go) option" where
  "WithGracefulShutdown D hasNodeHost db wg evs =
    map_option (\<lambda>g. bind_go g (\<lambda>finished.
      case db of
        None \<Rightarrow> Panic nil_deref
      | Some st \<Rightarrow> (case db_Flush D st of (st', err) \<Rightarrow>
          Ret (st', [CancelCtx, Waited finished] @ (if hasNodeHost then [CloseNodeHost] else []) @ [FlushDB, CloseDB]))))
      (await_components wg evs)"

text \<open>The gRPC server's component: it stops gracefully, or is forced to when the window ends first.\<close>

datatype grpc_event = StopDone | ShutCtxDone

definition grpc_WaitForShutdown :: "grpc_event list \<Rightarrow> bool option" where
  "grpc_WaitForShutdown evs = (case evs of [] \<Rightarrow> None | StopDone # _ \<Rightarrow> Some True | ShutCtxDone # _ \<Rightarrow> Some False)"

subsection \<open>The commands\<close>

datatype 'a outcome = Fatal string | Up 'a

record ('w, 'st, 'b) process =
  pr_cfg :: Config
  pr_engine :: "('st, 'b) DB"
  pr_broker :: "'st Broker"
  pr_svc :: "'w Service option"
  pr_cluster :: 'w
  pr_wg :: nat

text \<open>
  \<open>startRun\<close> up to the point where it waits for a signal. Five components are
  registered: metrics, deleter, dispatcher, janitor and gRPC server.
\<close>

definition startRun :: "'v config_lib \<Rightarrow> (string \<Rightarrow> string) \<Rightarrow> string \<Rightarrow> (LoggerConfig \<Rightarrow> goerror option)
    \<Rightarrow> (PebbleConfig \<Rightarrow> goerror + ('st, 'b) DB \<times> 'st) \<Rightarrow> (BoltConfig \<Rightarrow> goerror + ('st, 'b) DB \<times> 'st)
    \<Rightarrow> 'w raft_lib \<Rightarrow> ('w \<Rightarrow> string \<Rightarrow> JoinRequest \<Rightarrow> 'w \<times> rpc_result)
    \<Rightarrow> (node_map \<Rightarrow> node_map) \<Rightarrow> (nat \<Rightarrow> node_map \<Rightarrow> node_map) \<Rightarrow> (node_map \<Rightarrow> node_map) \<Rightarrow> (node_map \<Rightarrow> node_map)
    \<Rightarrow> string list \<Rightarrow> (nat \<Rightarrow> QueueMessage list \<times> nat) \<Rightarrow> bool list \<Rightarrow> 'w \<Rightarrow> ((('w, 'st, 'b) process outcome) go) option" where
  "startRun cl Getenv cfgFile InitLogger OpenPebble OpenBolt l call morder order aorder gorder joinSeeds chans evs w =
    (case Load cl Getenv cfgFile of
       Inl err \<Rightarrow> Some (Ret (Fatal ''failed to load config''))
     | Inr cfg \<Rightarrow>
    (case InitLogger (ob_Logger (cf_Observability cfg)) of
       Some err \<Rightarrow> Some (Ret (Fatal ''failed to init logger''))
     | None \<Rightarrow>
    (case app_Init OpenPebble OpenBolt cfg of
       Inl err \<Rightarrow> Some (Ret (Fatal ''failed to init app''))
     | Inr None \<Rightarrow> Some (Panic nil_deref)
     | Inr (Some (D, st)) \<Rightarrow>
    (case WithRepositories D st cfg of
       Panic m \<Rightarrow> Some (Panic m)
     | Ret (Inl err) \<Rightarrow> Some (Ret (Fatal ''failed to init repositories''))
     | Ret (Inr er) \<Rightarrow>
    (case start_joining l call cfg joinSeeds w of
       None \<Rightarrow> Some (Ret (Fatal ''failed to join cluster: all seeds exhausted''))
     | Some (w1, joining) \<Rightarrow>
        (let broker = \<lparr>bk_repo = er, bk_db = st,
               bk_pass = \<lparr>ps_d = start_dispatcher cfg, ps_hub = start_hub chans, ps_deleter = NewDeleter, ps_n = 0\<rparr>\<rparr>;
             wg = (RegisterComponentWithShutdown ^^ 5) 0
         in if rf_Enabled (cf_Raft cfg)
            then (case StartRaft l morder order aorder gorder cfg evs w1 joining of
                None \<Rightarrow> None
              | Some (Panic m) \<Rightarrow> Some (Panic m)
              | Some (Ret (svc, w2, Some err)) \<Rightarrow> Some (Ret (Fatal ''failed to start raft''))
              | Some (Ret (svc, w2, None)) \<Rightarrow>
                  Some (Ret (Up \<lparr>pr_cfg = cfg, pr_engine = D, pr_broker = broker, pr_svc = svc, pr_cluster = w2, pr_wg = wg\<rparr>)))
            else Some (Ret (Up \<lparr>pr_cfg = cfg, pr_engine = D, pr_broker = broker, pr_svc = None, pr_cluster = w1, pr_wg = wg\<rparr>))))))))"

text \<open>The result of \<open>leaveRun\<close> is the cluster and the node that left.\<close>

definition leaveRun :: "'v config_lib \<Rightarrow> (string \<Rightarrow> string) \<Rightarrow> string \<Rightarrow> ('w \<Rightarrow> string \<Rightarrow> u64 \<Rightarrow> 'w \<times> rpc_result) \<Rightarrow> string \<Rightarrow> 'w \<Rightarrow> 'w \<times> u64 outcome" where
  "leaveRun cl Getenv cfgFile call leaveSeedAddr w =
    (case Load cl Getenv cfgFile of
       Inl err \<Rightarrow> (w, Fatal ''failed to load config'')
     | Inr cfg \<Rightarrow>
        if \<not> rf_Enabled (cf_Raft cfg) then (w, Fatal ''raft must be enabled in config to leave a cluster'')
        else case call w leaveSeedAddr (rf_NodeID (cf_Raft cfg)) of
            (w1, ConnectErr err) \<Rightarrow> (w1, Fatal ''failed to connect to seed node'')
          | (w1, CallErr err) \<Rightarrow> (w1, Fatal ''LeaveCluster RPC failed'')
          | (w1, Response resp) \<Rightarrow>
              if \<not> mr_Success resp then (w1, Fatal ''failed to leave cluster'') else (w1, Up (rf_NodeID (cf_Raft cfg))))"

subsection \<open>Specification\<close>

text \<open>Opening a database gives an engine that meets the storage contract, on a store a broker has left.\<close>

definition opens_store :: "('st \<Rightarrow> store) \<Rightarrow> ('b \<Rightarrow> BatchOp list) \<Rightarrow> ('st \<Rightarrow> bool) \<Rightarrow> goerror \<Rightarrow> ('cfg \<Rightarrow> goerror + ('st, 'b) DB \<times> 'st) \<Rightarrow> bool" where
  "opens_store view pending good notfound open \<longleftrightarrow> (\<forall>cfg D st. open cfg = Inr (D, st) \<longrightarrow>
    storage_db D view pending good notfound \<and> good st \<and> (\<exists>er. repo_inv er (view st)))"

text \<open>A seed that serves \<open>LeaveCluster\<close>.\<close>

definition seed_serves_leave :: "'w NodeHost \<Rightarrow> u64 \<Rightarrow> ('w \<Rightarrow> string \<Rightarrow> u64 \<Rightarrow> 'w \<times> rpc_result) \<Rightarrow> bool" where
  "seed_serves_leave nh clusterID call \<longleftrightarrow>
    (\<forall>w seed node w' resp. call w seed node = (w', Response resp) \<longrightarrow> LeaveCluster (Some nh) clusterID w node = (w', Inr resp))"

definition mem_open :: "PebbleConfig \<Rightarrow> goerror + (kvlist, BatchOp list) DB \<times> kvlist" where
  "mem_open = NewPebble (\<lambda>path opts. Inr (pebble_DB mem_pebble, []))"

definition mem_leave :: "MemCluster \<Rightarrow> string \<Rightarrow> u64 \<Rightarrow> MemCluster \<times> rpc_result" where
  "mem_leave w seed node = (case LeaveCluster (Some mem_nodehost) 1 w node of
     (w', Inr resp) \<Rightarrow> (w', Response resp) | (w', Inl e) \<Rightarrow> (w', CallErr ContextDeadlineExceeded))"

section \<open>Lemmas\<close>

declare await_components.simps [simp del]

lemma await_cases:
  "await_components 0 evs = Some (Ret True)" "await_components (Suc n) [] = None"
  "await_components (Suc n) (ComponentDone # evs) = await_components n evs"
  "await_components (Suc n) (WindowOver # evs) = Some (Ret False)"
  by (simp_all add: await_components.simps[of _ evs] await_components.simps[of _ "[]"] await_components.simps[of _ "_ # evs"] ComponentShutdownDone_def)

text \<open>Waiting ends exactly when enough components have finished or the window is over.\<close>

lemma await_spec:
  "await_components wg evs =
    (if wg \<le> length (takeWhile (\<lambda>e. e = ComponentDone) evs) then Some (Ret True)
     else if WindowOver \<in> set evs then Some (Ret False) else None)"
proof (induction evs arbitrary: wg)
  case Nil
  then show ?case by (cases wg) (simp_all add: await_cases)
next
  case (Cons e evs)
  then show ?case by (cases wg; cases e) (simp_all add: await_cases)
qed

lemma sint_times:
  fixes x y :: i64
  assumes "- (2 ^ 63) \<le> sint x * sint y" and "sint x * sint y < 2 ^ 63"
  shows "sint (x * y) = sint x * sint y"
  using signed_take_bit_int_eq_self[of 63 "sint x * sint y"] assms by (simp add: sint_word_ariths(3))

lemma StartRaft_svc: "StartRaft l morder order aorder gorder cfg evs w join = Some (Ret (svc, w', None)) \<Longrightarrow> \<exists>s. svc = Some s"
  by (auto simp: StartRaft_def Let_def bind_go_eq_Ret split: prod.splits sum.splits option.splits)

lemma app_Init_opens:
  assumes "app_Init OpenPebble OpenBolt cfg = Inr (Some (D, st))"
    and "opens_store view pending good notfound OpenPebble" and "opens_store view pending good notfound OpenBolt"
  obtains er where "storage_db D view pending good notfound" and "good st" and "repo_inv er (view st)"
proof -
  have "OpenPebble (st_Pebble (cf_Storage cfg)) = Inr (D, st) \<or> OpenBolt (st_Bolt (cf_Storage cfg)) = Inr (D, st)"
    using assms(1) by (auto simp: app_Init_def split: if_splits sum.splits)
  then show ?thesis using assms(2,3) that unfolding opens_store_def by blast
qed

section \<open>Properties\<close>


text \<open>C31: a graceful shutdown ends: as soon as the registered components have finished or the
  window is over, and then, whichever it was, the node host is closed before the database is
  flushed and closed, each once, and the store keeps its content. Until then it waits.\<close>

theorem shutdown_ends:
  assumes S: "storage_db D view pending good notfound" "good st"
  shows "case WithGracefulShutdown D hasNodeHost (Some st) wg evs of
      None \<Rightarrow> length (takeWhile (\<lambda>e. e = ComponentDone) evs) < wg \<and> WindowOver \<notin> set evs
    | Some g \<Rightarrow> (\<exists>st' finished. g = Ret (st', [CancelCtx, Waited finished] @ (if hasNodeHost then [CloseNodeHost] else []) @ [FlushDB, CloseDB]) \<and>
        good st' \<and> view st' = view st \<and> (finished \<longleftrightarrow> wg \<le> length (takeWhile (\<lambda>e. e = ComponentDone) evs)))"
proof -
  obtain st' e where f: "db_Flush D st = (st', e)" by fastforce
  from storage_db.Flush[OF S f] have "good st' \<and> view st' = view st" .
  with f show ?thesis by (auto simp: WithGracefulShutdown_def await_spec)
qed

theorem shutdown_ends_witness:
  "\<exists>st'. WithGracefulShutdown (pebble_DB mem_pebble) True (Some []) 2 [ComponentDone, WindowOver] =
      Some (Ret (st', [CancelCtx, Waited False, CloseNodeHost, FlushDB, CloseDB])) \<and> map_of st' = Map.empty"
proof -
  have "sorted_entries []" by (simp add: sorted_entries_def)
  from shutdown_ends[OF memp.storage_db_axioms this, where hasNodeHost = True and wg = 2 and evs = "[ComponentDone, WindowOver]"] show ?thesis
    by (auto split: option.splits)
qed

text \<open>Leaving removes the node: when \<open>leave\<close> reports success, the configured node is
  no longer a member of the event group or the metadata group, and nothing else has changed;
  with Raft disabled the seed is not even called.\<close>

theorem leave_removes_node:
  assumes lib: "membership_contract nh members" and shard: "clusterID \<noteq> MetadataShardID" and seed: "seed_serves_leave nh clusterID call"
    and load: "Load cl Getenv cfgFile = Inr cfg"
  shows "case leaveRun cl Getenv cfgFile call seedAddr w of
      (w', Up node) \<Rightarrow> node = rf_NodeID (cf_Raft cfg) \<and>
        (\<forall>sh\<in>{clusterID, MetadataShardID}. same_members (members w' sh) (without_replica node (members w sh))) \<and>
        others_same members {clusterID, MetadataShardID} w w'
    | (w', Fatal m) \<Rightarrow> \<not> rf_Enabled (cf_Raft cfg) \<longrightarrow> w' = w"
proof (cases "rf_Enabled (cf_Raft cfg)")
  case True
  obtain w1 r where c: "call w seedAddr (rf_NodeID (cf_Raft cfg)) = (w1, r)" by fastforce
  show ?thesis
  proof (cases r)
    case (Response resp)
    with c seed have l: "LeaveCluster (Some nh) clusterID w (rf_NodeID (cf_Raft cfg)) = (w1, Inr resp)" by (auto simp: seed_serves_leave_def)
    show ?thesis
    proof (cases "mr_Success resp")
      case ok: True
      then have "resp = member_ok" using l by (auto simp: LeaveCluster_def split: prod.splits option.splits)
      then show ?thesis using l membership_handlers[OF lib shard] True c Response ok load by (auto simp: leaveRun_def)
    qed (use True c Response load in \<open>simp add: leaveRun_def\<close>)
  qed (use True c load in \<open>simp_all add: leaveRun_def\<close>)
qed (use load in \<open>simp add: leaveRun_def\<close>)

theorem leave_removes_node_witness:
  "\<exists>w'. leaveRun (mem_config_lib (\<lambda>_. Some (\<lambda>c. c\<lparr>cf_Raft := (cf_Raft c)\<lparr>rf_Enabled := True\<rparr>\<rparr>))) (\<lambda>_. '''') ''node.yaml'' mem_leave ''seed'' sample_cluster = (w', Up 1) \<and>
    map_of (mb_Nodes (mem_members w' 1)) 1 = None \<and> map_of (mb_Nodes (mem_members w' 1)) 2 = Some ''y''"
proof -
  let ?cl = "mem_config_lib (\<lambda>_. Some (\<lambda>c. c\<lparr>cf_Raft := (cf_Raft c)\<lparr>rf_Enabled := True\<rparr>\<rparr>))"
    and ?cfg = "defaultConfig\<lparr>cf_Raft := (cf_Raft defaultConfig)\<lparr>rf_Enabled := True\<rparr>\<rparr>"
  have load: "Load ?cl (\<lambda>_. '''') ''node.yaml'' = Inr ?cfg"
    by (simp add: Load_def mem_config_lib_def env_overrides_def Let_def validate_config_def validateStorage_def validateRaft_def
      runPostLoadHooks_def defaultConfig_def)
  have serve: "seed_serves_leave mem_nodehost 1 mem_leave"
    by (auto simp: seed_serves_leave_def mem_leave_def split: prod.splits sum.splits)
  obtain w' where l: "leaveRun ?cl (\<lambda>_. '''') ''node.yaml'' mem_leave ''seed'' sample_cluster = (w', Up 1)"
    by (simp add: leaveRun_def load mem_leave_def LeaveCluster_def mem_nodehost_def mem_change_def) (simp add: defaultConfig_def)
  with leave_removes_node[OF mem_nodehost_contract _ serve load, where seedAddr = "''seed''" and w = sample_cluster] show ?thesis
    by (auto simp: MetadataShardID_def same_members_def without_replica_def sample_cluster_def mem_members_def map_get_def delete_conv')
qed


text \<open>Sizes in the configuration are converted to bytes without a check: they are exact as
  long as the product fits; a cache size of zero or less becomes 64 megabytes, and the cache
  size is always positive, but the size of the memory table wraps modulo \<open>2 ^ 64\<close> and
  a message size limit of \<open>2 ^ 53\<close> kilobytes becomes negative. The database is kept in
  memory exactly when the path is empty.\<close>

theorem option_sizes:
  "(0 < sint (pc_CacheSizeMB cfg) \<and> sint (pc_CacheSizeMB cfg) < 2 ^ 43 \<longrightarrow> sint (po_CacheSize (pebble_options cfg)) = sint (pc_CacheSizeMB cfg) * 2 ^ 20) \<and>
   (- (2 ^ 43) \<le> sint (pc_CacheSizeMB cfg) \<and> sint (pc_CacheSizeMB cfg) \<le> 0 \<longrightarrow> sint (po_CacheSize (pebble_options cfg)) = 2 ^ 26) \<and>
   0 < sint (po_CacheSize (pebble_options cfg)) \<and>
   uint (po_MemTableSize (pebble_options cfg)) = uint (pc_InMemTableSizeMB cfg) * 2 ^ 20 mod 2 ^ 64 \<and>
   (po_InMemory (pebble_options cfg) \<longleftrightarrow> pc_DataPath cfg = '''') \<and>
   (0 \<le> sint (sv_MaxRecvSizeKB sv) \<and> sint (sv_MaxRecvSizeKB sv) < 2 ^ 53 \<longrightarrow> sint (so_MaxRecvMsgSize (grpc_New sv)) = sint (sv_MaxRecvSizeKB sv) * 1024) \<and>
   (sint (sv_MaxRecvSizeKB sv) = 2 ^ 53 \<longrightarrow> sint (so_MaxRecvMsgSize (grpc_New sv)) = - (2 ^ 63))"
proof -
  have e: "pc_CacheSizeMB cfg * 1024 * 1024 = pc_CacheSizeMB cfg * 1048576" by simp
  have c: "sint (pc_CacheSizeMB cfg * 1024 * 1024) = sint (pc_CacheSizeMB cfg) * 1048576"
    if "- (2 ^ 43) \<le> sint (pc_CacheSizeMB cfg)" "sint (pc_CacheSizeMB cfg) < 2 ^ 43"
    unfolding e using sint_times[of "pc_CacheSizeMB cfg" 1048576] that by simp
  have m: "uint (pc_InMemTableSizeMB cfg * 1024 * 1024) = uint (pc_InMemTableSizeMB cfg) * 2 ^ 20 mod 2 ^ 64"
  proof -
    have "pc_InMemTableSizeMB cfg * 1024 * 1024 = pc_InMemTableSizeMB cfg * 1048576" by simp
    then show ?thesis using uint_word_ariths(3)[of "pc_InMemTableSizeMB cfg" 1048576] by (simp add: mult.commute)
  qed
  have r: "sint (sv_MaxRecvSizeKB sv * 1024) = sint (sv_MaxRecvSizeKB sv) * 1024"
    if "0 \<le> sint (sv_MaxRecvSizeKB sv)" "sint (sv_MaxRecvSizeKB sv) < 2 ^ 53"
    using sint_times[of "sv_MaxRecvSizeKB sv" 1024] that by simp
  have o: "sint (sv_MaxRecvSizeKB sv * 1024) = - (2 ^ 63)" if "sint (sv_MaxRecvSizeKB sv) = 2 ^ 53"
  proof -
    have "sv_MaxRecvSizeKB sv = 2 ^ 53" by (rule signed_word_eqI[where 'a = int]) (simp add: that)
    then show ?thesis by simp
  qed
  have cache: "sint (po_CacheSize (pebble_options cfg)) =
      (if sint (pc_CacheSizeMB cfg * 1024 * 1024) \<le> 0 then 2 ^ 26 else sint (pc_CacheSizeMB cfg * 1024 * 1024))"
    by (simp add: pebble_options_def Let_def)
  have "sint (po_CacheSize (pebble_options cfg)) = sint (pc_CacheSizeMB cfg) * 2 ^ 20" if "0 < sint (pc_CacheSizeMB cfg)" "sint (pc_CacheSizeMB cfg) < 2 ^ 43"
    using that c by (simp only: cache) simp
  moreover have "sint (po_CacheSize (pebble_options cfg)) = 2 ^ 26" if "- (2 ^ 43) \<le> sint (pc_CacheSizeMB cfg)" "sint (pc_CacheSizeMB cfg) \<le> 0"
    using that c by (simp only: cache) simp
  moreover have "0 < sint (po_CacheSize (pebble_options cfg))" by (simp only: cache split: if_split) simp
  ultimately show ?thesis using m r o by (simp only: pebble_options_def grpc_New_def Let_def PebbleOptions.simps ServerOptions.simps) blast
qed

theorem option_sizes_witness:
  "sint (po_CacheSize (pebble_options (st_Pebble (cf_Storage defaultConfig)))) = 16 * 2 ^ 20 \<and>
    sint (so_MaxRecvMsgSize (grpc_New ((cf_Server defaultConfig)\<lparr>sv_MaxRecvSizeKB := 2 ^ 53\<rparr>))) = - (2 ^ 63)"
  using option_sizes[of "st_Pebble (cf_Storage defaultConfig)" "(cf_Server defaultConfig)\<lparr>sv_MaxRecvSizeKB := 2 ^ 53\<rparr>"]
  by (simp add: defaultConfig_def)

end
