(* ===== verification/Spec2Isabelle.thy ===== *)
theory Spec2Isabelle
  imports Process
begin

text \<open>
  futureq is a message queue for delayed messages. A producer publishes messages with a delay
  and a time to live; when the delay is over the broker hands a message to the consumers of its
  topic and keeps it until one of them acknowledges it or the time to live has elapsed. A broker
  runs alone, on one storage engine, or as a replica of two Raft groups, one for the messages
  and one for the topology of the cluster. This development models the Go sources under
  \<open>src/\<close> as executable functions and proves that they do so.

  \<^bold>\<open>How the parts interact.\<close> The producer handler turns a batch of messages into
  entries of the store, directly or as one entry of the Raft log; the event repository gives
  each message an identifier and a key \<open>[topicHash][bucket][eventID]\<close>. The dispatcher
  scans, for each topic with consumers, the keys whose bucket is due and gives the messages to
  the hub, which puts them into the channels of the selected consumers. The consumer handler
  sends what is in the channel of its connection and passes acknowledged keys to the deleter;
  dispatcher and janitor pass it the keys of expired messages. The deleter deletes in batches,
  in the store or by a command in the Raft log. The metadata group carries the topology and the
  client addresses, which the cluster handlers answer from.

  \<^bold>\<open>Theories and the code they model.\<close>
  \<^item> \<open>Prelude\<close>, \<open>Maps\<close>, \<open>Messages\<close>, \<open>Rpc\<close>: machine
    words, byte strings, errors and panics, \<open>encoding/binary\<close>, Go maps, the protocol
    messages and the events of a stream. An \<open>int64\<close> is a 64-bit word read with
    \<open>sint\<close>, so that sums wrap as in Go. A run-time panic is the value \<open>Panic\<close>
    of the type \<open>'a go\<close>, an error return is the left side of a sum.
  \<^item> \<open>Keys\<close>: \<open>pkg/utils/keys.go\<close>, function by function. The key is a lossless,
    order-preserving encoding and the scan range of the dispatcher holds exactly the due keys.
  \<^item> \<open>Storage\<close>, \<open>Pebble\<close>, \<open>Bolt\<close>: \<open>internal/storage\<close>. The
    interfaces of \<open>contract.go\<close> are a record of functions, their contract is the locale
    \<open>storage_db\<close>, and the two adapters implement it over every engine that behaves as
    \<open>pebble_contract\<close> or \<open>bolt_contract\<close> says. All later theories use the locale
    only, so their theorems hold for both engines.
  \<^item> \<open>Repository\<close>: \<open>internal/repository/events.go\<close>. Identifiers are fresh, also
    after a restart, as long as batches do not overlap.
  \<^item> \<open>EventCommands\<close>, \<open>EventSM\<close>: \<open>internal/raft/event\<close>. The encoders
    write into a buffer of computed size and the decoders follow a position; decoding succeeds
    on encodings and on nothing else. The state machine refines a specification that maps the
    log to mutations of the store; replicas agree whatever the grouping of the entries and the
    engine; snapshots carry the content from one engine to another.
  \<^item> \<open>Hub\<close>, \<open>Deleter\<close>, \<open>Dispatcher\<close>, \<open>Janitor\<close>:
    \<open>internal/dispatcher\<close>. The locales \<open>dispatch_strategy\<close> and
    \<open>delete_backend\<close> are the interfaces of that package. The registry of consumers
    keeps an invariant, a message reaches one member of each group and every universal
    consumer, only due and unexpired messages are delivered, every marked key is pending or
    deleted.
  \<^item> \<open>MetaCommands\<close>, \<open>MetaSM\<close>, \<open>MetaService\<close>:
    \<open>pkg/raft/metadata\<close>. Both commands round trip, every reachable state is well formed
    whatever bytes are applied, and every event makes its topology visible to readers.
  \<^item> \<open>NodeHost\<close>: what the sources call of the consensus library, as a record with
    contracts. \<open>Cluster\<close>: \<open>internal/api/grpc/handlers/cluster.go\<close>. A reported
    join has made the node a voter of both groups, and a join returns.
  \<^item> \<open>Producer\<close>, \<open>Consumer\<close>: the handlers of the same names. Both write paths
    store the same content; an accepted batch is stored as a whole; a connection marks exactly
    the tags it has acknowledged and leaves no registration behind.
  \<^item> \<open>Config\<close>: \<open>internal/config\<close>, defaults, loading and validation.
  \<^item> \<open>Lifecycle\<close>: \<open>internal/app/app.go\<close>, initialisation, the start of the two
    groups, joining through seeds, the announcement of the client address.
  \<^item> \<open>Broker\<close>: a standalone broker as \<open>cmd/futureq/start.go\<close> wires it. Its
    state is the record \<open>Broker\<close>; \<open>broker_step\<close> has one rule for each thing
    that can happen (a batch, a pass, a sweep, a connection, a frame, a delivery, the end of a
    connection, a flush, a restart) and calls the definitions of the components, and
    \<open>broker_run\<close> is a sequence of such steps.
  \<^item> \<open>Process\<close>: \<open>cmd/futureq/start.go\<close> and \<open>leave.go\<close>,
    \<open>internal/api/grpc/setup.go\<close> and the shutdown of \<open>app.go\<close>: a process that
    comes up has a broker that satisfies the invariant, and a shutdown ends.
  \<^item> This theory: the properties of a whole broker. No message is lost, an accepted message
    is delivered, a deleted message does not come back, and no reachable state panics.

  \<^bold>\<open>Parameters and hypotheses.\<close> Code of other modules is a parameter: xxhash, the
  protobuf codec (\<open>proto_contract\<close>: unmarshalling undoes marshalling), the storage
  engines, the Raft library (\<open>membership_contract\<close> and the other contracts of theory
  \<open>NodeHost\<close>), the configuration library, the clock and the order in which Go ranges
  over a map. The theorems of this theory assume in addition
  \<^item> \<open>counter_apart\<close>: the key of the identifier counter, which shares the key space
    with the messages, is in the scan range of no topic (no topic hashes to its first eight bytes);
  \<^item> \<open>act_ok\<close>: the encoding of an index, which is stored as a key of its own, cannot
    be mistaken for the key of a message or of the counter, and a positive acknowledgement
    carries a tag of 24 bytes; the code checks neither;
  \<^item> \<open>run_ok\<close>: the identifiers a run consumes fit into 64 bits.
  Every hypothesis of a property is shown to be satisfiable by its witness, on a small broker
  over the in-memory engines of theories \<open>Pebble\<close> and \<open>Bolt\<close>.

  \<^bold>\<open>Loops and fuel.\<close> No definition uses fuel. Loops over data are structural
  recursions. Loops that wait for a timer, a channel, a stream or a signal consume a finite list
  of events and are \<open>None\<close> as long as the list does not end them; the properties
  \<open>join_returns\<close> and \<open>shutdown_ends\<close> state which events end them.

  \<^bold>\<open>Concurrency.\<close> A step of \<open>broker_step\<close>, and of the runs of hub, deleter
  and consumer, is one call of a handler or one turn of a background loop; steps interleave in
  every order. Locks are not modelled. What happens while a lock is released is an argument
  where it matters: the keys marked during a flush, the steps of other goroutines during a
  connection. Batches that overlap in the repository are treated in theory \<open>Repository\<close>;
  the runs of the broker assume that publishers take turns.

  \<^bold>\<open>Not modelled.\<close> The Prometheus collectors and their HTTP server
  (\<open>internal/metrics\<close>), the construction of the logger (\<open>pkg/log\<close>) and the cobra
  root command (\<open>cmd/futureq/root.go\<close>) are calls of libraries without effect on the
  broker; log and metric calls inside modelled functions are left out. Of
  \<open>internal/api/grpc/setup.go\<close> the registration of the handlers and the listening socket
  are left out, they belong to the gRPC library. The operations that only release resources
  (\<open>Close\<close> of engine, batch, iterator and state machine) have no state to change in the
  model. The generated protocol code and the modules of \<open>go.mod\<close> are not in the
  repository and are the parameters above. Liveness under a fair scheduler is not stated: the
  delivery property says what a pass does when it runs.
\<close>

section \<open>Lemmas\<close>

lemma CalculateBucket_mono:
  assumes "valid_bucketSize d" and "CalculateBucket t d = Ret b" and "CalculateBucket t' d = Ret b'" and "sint t \<le> sint t'"
  shows "b \<le> b'"
  using CalculateBucket_uint[OF assms(1,2)] CalculateBucket_uint[OF assms(1,3)] assms(4) bucket_ms_pos[OF assms(1)]
  by (auto simp: word_le_def zdiv_mono1 pos_imp_zdiv_nonneg_iff split: if_splits)

lemma after_publish:
  fixes env :: "('idx, RoundRobinStrategy) dispatch_env"
  assumes S: "storage_db D view pending good notfound" and apart: "counter_apart env" and inv: "broker_inv view good env b"
    and p: "processStandaloneBatch D (de_proto env) (de_hash env) (bk_repo b) (bk_db b) batch nowMs = Ret ((er, st), e)"
    and ok: "run_ok (de_proto env) b (Publish batch nowMs # acts)"
  shows "broker_inv view good env (b\<lparr>bk_repo := er, bk_db := st\<rparr>)" and "run_ok (de_proto env) (b\<lparr>bk_repo := er, bk_db := st\<rparr>) acts"
proof -
  let ?b = "b\<lparr>bk_repo := er, bk_db := st\<rparr>"
  have "act_ok (de_proto env) (Publish batch nowMs)" "unat (lastID (bk_repo b)) + act_count (Publish batch nowMs) < 2 ^ 64"
    using ok by (simp_all add: run_ok_def)
  from step_ok[OF S inv apart this broker_step.publish[where D = D and env = env and b = b, OF p]]
  have I: "broker_inv view good env ?b" "step_effect view (de_proto env) b (Publish batch nowMs) ?b" by simp_all
  then show "broker_inv view good env ?b" "run_ok (de_proto env) ?b acts"
    using ok by (auto simp: run_ok_def step_effect_def)
qed

lemma sample_broker_inv: "broker_inv map_of sorted_entries sample_env sample_broker"
  using sample_ready
  by (simp add: broker_inv_def sample_broker_def sorted_entries_def hub_ready_def repo_inv_def stored_last_def sample_env_def sample_pass_def NewDeleter_def)

lemma sample_apart: "counter_apart sample_env"
proof -
  have "be_put 8 (7 :: u64) = [0, 0, 0, 0, 0, 0, 0, 7]" by code_simp
  then have "DueUpperBound 7 nb < eventsLastIDKey" for nb
    by (simp add: DueUpperBound_def eventsLastIDKey_def bytes_of_string_def)
  then show ?thesis by (simp add: counter_apart_def in_bounds_def due_range_def sample_env_def not_less order.strict_implies_order)
qed

lemma sample_run_ok:
  "list_all (\<lambda>act. act_ok mem_proto act \<and> act_count act = 0) acts \<Longrightarrow> run_ok (de_proto sample_env) sample_broker (Publish sample_batch 1 # acts)"
proof -
  assume "list_all (\<lambda>act. act_ok mem_proto act \<and> act_count act = 0) acts"
  then have "list_all (act_ok mem_proto) acts" "sum_list (map act_count acts) = 0" by (auto simp: list_all_iff)
  moreover have "act_ok mem_proto (Publish sample_batch 1)"
    by (simp add: act_ok_def sample_batch_def sample_publish_def mem_proto_def index_ok_def eventsLastIDKey_def bytes_of_string_def)
  moreover have "act_count (Publish sample_batch 1) = 1" by (simp add: act_count_def sample_batch_def)
  ultimately show ?thesis by (simp del: sum_list_eq_0_iff add: run_ok_def sample_env_def sample_broker_def)
qed

text \<open>A publication on the sample broker.\<close>

lemma sample_published:
  obtains er st v where "processStandaloneBatch (pebble_DB mem_pebble) (de_proto sample_env) (de_hash sample_env) (bk_repo sample_broker)
      (bk_db sample_broker) sample_batch 1 = Ret ((er, st), None)"
    and "map_of st (EventKey 5 7 1) = Some v" and "proto_Unmarshal mem_proto v = Inr (stored_message 1 sample_publish)"
    and "dom (map_of st) \<subseteq> {eventsLastIDKey, EventKey 5 7 1, [9]}"
proof -
  have env: "de_proto sample_env = mem_proto" "de_hash sample_env = (\<lambda>_. 7)" "bk_repo sample_broker = \<lparr>lastID = 0, bucketSize = 0\<rparr>" "bk_db sample_broker = []"
    by (simp_all add: sample_env_def sample_broker_def)
  have it: "batch_items mem_proto (\<lambda>_. 7) 0 1 (pb_Messages sample_batch) [sample_item]"
    using sample_item_of by (simp add: sample_batch_def batch_items_def item_of_def CalculateBucket_def Millisecond_def duration_Milliseconds_def sample_publish_def)
  then have it': "batch_items mem_proto (\<lambda>_. 7) (bucketSize \<lparr>lastID = 0, bucketSize = 0\<rparr>) 1 (pb_Messages sample_batch) [sample_item]" by simp
  have ok: "snd (db_Commit (pebble_DB mem_pebble) [] b Sync) = None" for b
    by (simp add: pebble_DB_def pebbleBatch_Commit_def mem_pebble_def)
  obtain er st where p: "processStandaloneBatch (pebble_DB mem_pebble) mem_proto (\<lambda>_. 7) \<lparr>lastID = 0, bucketSize = 0\<rparr> [] sample_batch 1 = Ret ((er, st), None)"
    by (rule standalone_process[OF memp.storage_db_axioms it', of "[]"]) (simp add: ok)
  have G: "sorted_entries []" by (simp add: sorted_entries_def)
  obtain items where items: "batch_items mem_proto (\<lambda>_. 7) (bucketSize \<lparr>lastID = 0, bucketSize = 0\<rparr>) 1 (pb_Messages sample_batch) items"
    and "er = \<lparr>lastID = 0, bucketSize = 0\<rparr>\<lparr>lastID := lastID \<lparr>lastID = 0, bucketSize = 0\<rparr> + of_nat (length items)\<rparr>"
    and st: "map_of st = apply_ops (store_items_ops (lastID \<lparr>lastID = 0, bucketSize = 0\<rparr>) items) (map_of [])" and "sorted_entries st"
    by (rule standalone_success[OF memp.storage_db_axioms G p])
  have "items = [sample_item]" by (rule batch_items_unique[OF items it'])
  then have st': "map_of st = [eventsLastIDKey \<mapsto> be_put 8 (1 :: u64), EventKey 5 7 1 \<mapsto> Msg sample_item, [9] \<mapsto> EventKey 5 7 1]"
    using st by (simp add: store_ops_def sample_item_def)
  have "[9] \<noteq> EventKey 5 7 1" using length_EventKey[of 5 7 1] by (metis length_Cons list.size(3) numeral_eq_one_iff One_nat_def semiring_norm(85))
  then have k: "map_of st (EventKey 5 7 1) = Some (Msg sample_item)" by (simp add: st')
  have d: "dom (map_of st) \<subseteq> {eventsLastIDKey, EventKey 5 7 1, [9]}" by (auto simp: st' split: if_splits)
  have u: "proto_Unmarshal mem_proto (Msg sample_item) = Inr (stored_message 1 sample_publish)"
    using it proto_contractD[OF mem_proto_contract] by (simp add: batch_items_def item_of_def sample_batch_def)
  show ?thesis by (rule that[OF _ k u d]) (simp add: env p)
qed

section \<open>Properties\<close>




lemma sample_hub_ready:
  assumes "n \<le> 8"
  shows "hub_ready (ps_hub sample_pass) ''t''
    \<lparr>ts_groups = [(''g'', [\<lparr>ce_ID = ''x'', ce_Topic = ''t'', ce_Group = ''g'', ce_Ch = 0\<rparr>])], ts_universal = []\<rparr> n"
  using sample_ready assms by (auto simp: hub_ready_def sample_pass_def Hub_Register_def NewHub_def Let_def)



lemma sample_ack_flush:
  fixes b :: "kvlist Broker"
  assumes inv: "broker_inv map_of sorted_entries sample_env b" and none: "bk_pending b = []"
  obtains b1 where "broker_run (pebble_DB mem_pebble) sample_env b
      [Receive ''x'' (Frame (BAck \<lparr>ar_DeliveryTag = EventKey 5 7 1, ar_Success = True\<rparr>)), DeleterFlush] b1"
    and "map_of (bk_db b1) (EventKey 5 7 1) = None"
proof -
  let ?r = "Frame (BAck \<lparr>ar_DeliveryTag = EventKey 5 7 1, ar_Success = True\<rparr>) :: ConsumerFrame recv"
  let ?b = "set_conn b (receiver ''x'' (broker_conn b) ?r)"
  have p: "bk_pending ?b = [EventKey 5 7 1]" "bk_db ?b = bk_db b"
    using none by (simp_all add: set_conn_def broker_conn_def receiver_def GetAck_def MarkDeleted_def)
  have G: "sorted_entries (bk_db b)" using inv by (simp add: broker_inv_def)
  obtain st' where d: "direct_DeleteKeys (pebble_DB mem_pebble) (bk_db b) [EventKey 5 7 1] = Ret (st', None)"
    using mem_commits by (simp add: direct_DeleteKeys_def) (metis prod.collapse)
  have "Deleter_flush (direct_DeleteKeys (pebble_DB mem_pebble)) start_OnDelete [] (ps_deleter (bk_pass ?b)) (bk_db ?b) (ps_d (bk_pass ?b)) =
      Ret ((ps_deleter (bk_pass ?b))\<lparr>dl_pending := []\<rparr>, st', RemoveInFlight (EventKey 5 7 1) (ps_d (bk_pass ?b)))"
    using d p by (simp add: Deleter_flush_def start_OnDelete_def)
  note run = broker_run.run_snoc[OF broker_run.run_snoc[OF broker_run.run_refl broker_step.receive] broker_step.flush[where env = sample_env, OF this]]
  show ?thesis
    by (rule that[OF run[simplified append.simps]]) (use memp.direct_delete_view[OF G d] in \<open>simp add: restrict_map_def\<close>)
qed




end
